(* ===== verification/Transport_Deadline.thy ===== *)
theory Transport_Deadline
  imports Prelude "HOL-Library.Multiset"
begin

text \<open>
  \<open>internal/transport/deadline.go\<close>: a resettable alarm. \<open>set\<close> and \<open>wait\<close> run under the lock;
  the timer's callback runs in a goroutine of its own. Go channels that are only ever closed are
  references with the set of the closed ones; closing one twice is a panic.
\<close>

section \<open>The deadline\<close>

text \<open>
  \<open>timer\<close> is \<open>d.timer\<close>: when it is due and the channel its function closes; \<open>pending\<close> says
  that it has neither fired nor been stopped. \<open>next\<close> is the next unused channel.
\<close>

record deadline =
  timer :: "(int \<times> nat) option"
  pending :: bool
  cancel :: nat
  closed :: "nat set"
  fresh :: nat

definition new_deadline :: deadline where
  "new_deadline = \<lparr>timer = None, pending = False, cancel = 0, closed = {}, fresh = 1\<rparr>"

text \<open>The builtin \<open>close\<close>; \<open>None\<close> is the panic.\<close>

definition close_chan :: "nat \<Rightarrow> 'a deadline_scheme \<Rightarrow> 'a deadline_scheme option" where
  "close_chan c d = (if c \<in> closed d then None else Some (d\<lparr>closed := insert c (closed d)\<rparr>))"

text \<open>
  \<open>timer.Stop()\<close>: whether it stopped the timer before it fired. \<open>set\<close> goes on at once when
  there is no timer or the timer was stopped, else it receives from \<open>d.cancel\<close> first.
\<close>

definition stop_timer :: "'a deadline_scheme \<Rightarrow> bool \<times> 'a deadline_scheme" where
  "stop_timer d = (pending d, d\<lparr>pending := False\<rparr>)"

definition set_waits :: "'a deadline_scheme \<Rightarrow> bool" where
  "set_waits d \<longleftrightarrow> timer d \<noteq> None \<and> \<not> fst (stop_timer d) \<and> cancel d \<notin> closed d"

text \<open>\<open>set\<close> from \<open>d.timer = nil\<close> on, at time \<open>now\<close>; \<open>t = None\<close> is the zero time.\<close>

definition rearm :: "int option \<Rightarrow> int \<Rightarrow> 'a deadline_scheme \<Rightarrow> 'a deadline_scheme option" where
  "rearm t now d =
     (let d = d\<lparr>timer := None\<rparr>;
          d = (if cancel d \<in> closed d then d\<lparr>cancel := fresh d, fresh := fresh d + 1\<rparr> else d) in
      case t of
        None \<Rightarrow> Some d
      | Some t \<Rightarrow>
          if t - now > 0 then Some (d\<lparr>timer := Some (t, cancel d), pending := True\<rparr>)
          else close_chan (cancel d) d)"

definition wait :: "'a deadline_scheme \<Rightarrow> nat" where
  "wait d = cancel d"

section \<open>Concurrent use\<close>

text \<open>
  \<open>clock\<close> is the time, \<open>firing\<close> the callbacks that have started and not yet closed their
  channel, \<open>blocked\<close> the argument of a \<open>set\<close> that waits for a callback (holding the lock),
  \<open>target\<close> the time last set, \<open>parked\<close> the channels that reads and writes wait on, \<open>panicked\<close>
  whether a channel has been closed twice.
\<close>

record deadline_system = deadline +
  clock :: int
  firing :: "nat multiset"
  blocked :: "int option option"
  target :: "int option"
  parked :: "nat multiset"
  panicked :: bool

definition rearmed :: "int option \<Rightarrow> deadline_system \<Rightarrow> deadline_system" where
  "rearmed t s =
     (case rearm t (clock s) (s\<lparr>blocked := None, target := t\<rparr>) of
        None \<Rightarrow> s\<lparr>panicked := True\<rparr>
      | Some s' \<Rightarrow> s')"

definition closed_by :: "nat \<Rightarrow> deadline_system \<Rightarrow> deadline_system" where
  "closed_by c s = (case close_chan c s of None \<Rightarrow> s\<lparr>panicked := True\<rparr> | Some s' \<Rightarrow> s')"

inductive deadline_step :: "deadline_system \<Rightarrow> deadline_system \<Rightarrow> bool" where
  set_now: "blocked s = None \<Longrightarrow> \<not> set_waits s \<Longrightarrow> deadline_step s (rearmed t (snd (stop_timer s)))"
| set_blocks: "blocked s = None \<Longrightarrow> set_waits s \<Longrightarrow> deadline_step s (s\<lparr>blocked := Some t\<rparr>)"
| set_resumes: "blocked s = Some t \<Longrightarrow> cancel s \<in> closed s \<Longrightarrow> deadline_step s (rearmed t s)"
| fires: "pending s \<Longrightarrow> timer s = Some (t, c) \<Longrightarrow> t \<le> clock s \<Longrightarrow>
    deadline_step s (s\<lparr>pending := False, firing := add_mset c (firing s)\<rparr>)"
| callback: "c \<in># firing s \<Longrightarrow> deadline_step s (closed_by c (s\<lparr>firing := firing s - {#c#}\<rparr>))"
| parks: "blocked s = None \<Longrightarrow> deadline_step s (s\<lparr>parked := add_mset (wait s) (parked s)\<rparr>)"
| wakes: "c \<in># parked s \<Longrightarrow> c \<in> closed s \<Longrightarrow> deadline_step s (s\<lparr>parked := parked s - {#c#}\<rparr>)"
| tick: "clock s \<le> now \<Longrightarrow> deadline_step s (s\<lparr>clock := now\<rparr>)"

definition deadline_start :: "int \<Rightarrow> deadline_system" where
  "deadline_start now =
     deadline.extend new_deadline
       \<lparr>clock = now, firing = {#}, blocked = None, target = None, parked = {#}, panicked = False\<rparr>"

section \<open>The invariant\<close>

definition deadline_inv :: "deadline_system \<Rightarrow> bool" where
  "deadline_inv s \<longleftrightarrow> \<not> panicked s \<and> cancel s < fresh s \<and> closed s \<subseteq> {..<fresh s} \<and>
     (case timer s of
        None \<Rightarrow> \<not> pending s \<and> firing s = {#} \<and>
          (case target s of None \<Rightarrow> cancel s \<notin> closed s | Some t \<Rightarrow> t \<le> clock s \<and> cancel s \<in> closed s)
      | Some (t, c) \<Rightarrow> c = cancel s \<and> target s = Some t \<and>
          (if pending s then cancel s \<notin> closed s \<and> firing s = {#}
           else t \<le> clock s \<and> firing s = (if cancel s \<in> closed s then {#} else {#cancel s#}))) \<and>
     (blocked s \<noteq> None \<longrightarrow> timer s \<noteq> None \<and> \<not> pending s) \<and>
     (\<forall>c \<in># parked s. c \<in> closed s \<or> c = cancel s)"

lemma deadline_inv_start: "deadline_inv (deadline_start now)"
  by (simp add: deadline_inv_def deadline_start_def new_deadline_def deadline.defs)

lemma rearmed_inv:
  assumes "deadline_inv s" and "\<not> set_waits s"
  shows "deadline_inv (rearmed t (s\<lparr>pending := False\<rparr>))"
proof -
  have "timer s = None \<or> pending s \<or> cancel s \<in> closed s"
    using assms(2) by (auto simp: set_waits_def stop_timer_def)
  with assms(1) show ?thesis
    by (cases t; cases "timer s"; cases "cancel s \<in> closed s")
      (auto simp: deadline_inv_def rearmed_def rearm_def close_chan_def Let_def split: if_splits option.splits)
qed

lemma deadline_inv_step: "deadline_step s s' \<Longrightarrow> deadline_inv s \<Longrightarrow> deadline_inv s'"
proof (induction rule: deadline_step.induct)
  case (set_now s t)
  then show ?case using rearmed_inv [of s t] by (simp add: stop_timer_def)
next
  case (set_blocks s t)
  then show ?case by (auto simp: deadline_inv_def set_waits_def stop_timer_def)
next
  case (set_resumes s t)
  then have "s\<lparr>pending := False\<rparr> = s" by (cases s) (auto simp: deadline_inv_def)
  with set_resumes show ?case using rearmed_inv [of s t] by (simp add: set_waits_def)
next
  case (fires s t c)
  then show ?case by (auto simp: deadline_inv_def)
next
  case (callback c s)
  then show ?case
    by (auto simp: deadline_inv_def closed_by_def close_chan_def split: option.splits if_splits)
next
  case (parks s)
  then show ?case by (auto simp: deadline_inv_def wait_def split: option.splits)
next
  case (wakes c s)
  then show ?case by (auto simp: deadline_inv_def dest: in_diffD split: option.splits)
next
  case (tick s now)
  then show ?case by (auto simp: deadline_inv_def split: option.splits if_splits)
qed

interpretation alarm: transition_invariant deadline_step "\<lambda>s. \<exists>now. s = deadline_start now" deadline_inv
  by unfold_locales (auto intro: deadline_inv_start deadline_inv_step)

section \<open>Properties\<close>

lemma reachable_deadline_inv: "deadline_step\<^sup>*\<^sup>* (deadline_start now) s \<Longrightarrow> deadline_inv s"
  using alarm.reachable_inv by blast

text \<open>
  C33: a deadline never fires early and never panics. In every interleaving of \<open>set\<close>, \<open>wait\<close>, the
  timer and its callback no channel is closed twice; the channel \<open>wait\<close> returns is closed only
  if the deadline last set is a time that has passed; and every read or write still parked is
  either released or waits on the very channel the current deadline will close.
\<close>

theorem deadline_safe:
  assumes "deadline_step\<^sup>*\<^sup>* (deadline_start now) s"
  shows "\<not> panicked s \<and>
    (wait s \<in> closed s \<longrightarrow> (\<exists>t. target s = Some t \<and> t \<le> clock s)) \<and>
    (\<forall>c \<in># parked s. c \<in> closed s \<or> c = wait s)"
  using reachable_deadline_inv [OF assms]
  by (auto simp: deadline_inv_def wait_def split: option.splits if_splits)

text \<open>A deadline set for time 5, with a reader parked on it, which fires at time 5.\<close>

definition demo_armed :: deadline_system where
  "demo_armed = (rearmed (Some 5) (deadline_start 0))\<lparr>parked := {#0#}, clock := 5\<rparr>"

lemma demo_armed_simps:
  "demo_armed = \<lparr>timer = Some (5, 0), pending = True, cancel = 0, closed = {}, fresh = 1, clock = 5, firing = {#},
     blocked = None, target = Some 5, parked = {#0#}, panicked = False\<rparr>"
  by (simp add: demo_armed_def rearmed_def rearm_def deadline_start_def new_deadline_def deadline.defs)

lemma demo_armed_reachable: "deadline_step\<^sup>*\<^sup>* (deadline_start 0) demo_armed"
proof -
  let ?s1 = "rearmed (Some 5) (deadline_start 0)"
  have "deadline_step (deadline_start 0) ?s1"
    using deadline_step.set_now [of "deadline_start 0" "Some 5"]
    by (simp add: deadline_start_def new_deadline_def deadline.defs set_waits_def stop_timer_def)
  moreover have "deadline_step ?s1 (?s1\<lparr>parked := {#0#}\<rparr>)"
    using deadline_step.parks [of ?s1]
    by (simp add: rearmed_def rearm_def deadline_start_def new_deadline_def deadline.defs wait_def)
  moreover have "deadline_step (?s1\<lparr>parked := {#0#}\<rparr>) demo_armed"
    using deadline_step.tick [of "?s1\<lparr>parked := {#0#}\<rparr>" 5]
    by (simp add: demo_armed_def rearmed_def rearm_def deadline_start_def new_deadline_def deadline.defs)
  ultimately show ?thesis by (meson converse_rtranclp_into_rtranclp r_into_rtranclp)
qed

theorem deadline_safe_witness: "\<not> panicked demo_armed \<and> wait demo_armed = 0"
  using deadline_safe [OF demo_armed_reachable] by (simp add: demo_armed_simps wait_def)

definition callback_ran :: "deadline_system \<Rightarrow> deadline_system \<Rightarrow> bool" where
  "callback_ran s s' \<longleftrightarrow> cancel s' = cancel s \<and> cancel s \<in> closed s' \<and> closed s \<subseteq> closed s' \<and> parked s' = parked s \<and>
     target s' = target s \<and> blocked s' = blocked s \<and> deadline_inv s'"

lemma started_callback_closes:
  assumes "deadline_inv s" and "firing s = {#cancel s#}" and "cancel s \<notin> closed s"
  shows "\<exists>s'. deadline_step s s' \<and> callback_ran s s'"
proof -
  let ?s' = "closed_by (cancel s) (s\<lparr>firing := firing s - {#cancel s#}\<rparr>)"
  have st: "deadline_step s ?s'" using deadline_step.callback [of "cancel s" s] assms(2) by simp
  have "deadline_inv ?s'" using deadline_inv_step [OF st assms(1)] .
  moreover have "?s' = s\<lparr>firing := {#}, closed := insert (cancel s) (closed s)\<rparr>"
    using assms(2,3) by (simp add: closed_by_def close_chan_def)
  ultimately have "callback_ran s ?s'" by (simp add: callback_ran_def subset_insertI)
  with st show ?thesis by blast
qed

lemma expired_channel_closes:
  assumes "deadline_inv s" and "target s = Some t" and "t \<le> clock s"
  shows "\<exists>s'. deadline_step\<^sup>*\<^sup>* s s' \<and> callback_ran s s'"
proof (cases "cancel s \<in> closed s")
  case True
  then have "callback_ran s s" using assms(1) by (simp add: callback_ran_def)
  then show ?thesis by blast
next
  case open_: False
  show ?thesis
  proof (cases "pending s")
    case True
    let ?s1 = "s\<lparr>pending := False, firing := add_mset (cancel s) (firing s)\<rparr>"
    have s: "timer s = Some (t, cancel s)" "firing s = {#}"
      using assms(1,2) True by (auto simp: deadline_inv_def split: option.splits)
    have st: "deadline_step s ?s1" using deadline_step.fires [OF True s(1) assms(3)] .
    obtain s' where s': "deadline_step ?s1 s'" "callback_ran ?s1 s'"
      using started_callback_closes [of ?s1] deadline_inv_step [OF st assms(1)] open_ s(2) by auto
    have "deadline_step\<^sup>*\<^sup>* s s'"
      using r_into_rtranclp [of deadline_step, OF s'(1)] st by (rule converse_rtranclp_into_rtranclp [rotated])
    moreover have "callback_ran s s'" using s'(2) by (simp add: callback_ran_def)
    ultimately show ?thesis by blast
  next
    case False
    then have "firing s = {#cancel s#}"
      using assms(1,2) open_ by (auto simp: deadline_inv_def split: option.splits if_splits)
    then show ?thesis using started_callback_closes [OF assms(1)] open_ by blast
  qed
qed

text \<open>
  C34: an expired deadline releases everyone. Once the time last set has passed, the timer and
  its callback can run to the point where every channel a read or write is parked on is
  closed, whatever else is going on, in particular while a \<open>set\<close> holds the lock; and a \<open>set\<close> that
  waits for the callback then completes.
\<close>

theorem expired_deadline_releases:
  assumes "deadline_step\<^sup>*\<^sup>* (deadline_start now) s" and "target s = Some t" and "t \<le> clock s"
  shows "\<exists>s'. deadline_step\<^sup>*\<^sup>* s s' \<and> parked s' = parked s \<and> (\<forall>c \<in># parked s. c \<in> closed s') \<and>
    (case blocked s of None \<Rightarrow> target s' = Some t | Some t' \<Rightarrow> blocked s' = None \<and> target s' = t')"
proof -
  obtain u where st: "deadline_step\<^sup>*\<^sup>* s u" and ran: "callback_ran s u"
    using expired_channel_closes [OF reachable_deadline_inv [OF assms(1)] assms(2,3)] by blast
  note u = ran [unfolded callback_ran_def]
  have released: "\<forall>c \<in># parked s. c \<in> closed u"
    using u by (auto simp: deadline_inv_def)
  show ?thesis
  proof (cases "blocked s")
    case None
    with u st assms(2) released show ?thesis by auto
  next
    case (Some t')
    let ?v = "rearmed t' u"
    have step: "deadline_step u ?v" using deadline_step.set_resumes [of u t'] u Some by simp
    have "deadline_inv u" using u by blast
    then have "deadline_inv ?v" by (rule deadline_inv_step [OF step])
    then have "\<not> panicked ?v" unfolding deadline_inv_def by blast
    then have "blocked ?v = None \<and> target ?v = t' \<and> parked ?v = parked u \<and> closed u \<subseteq> closed ?v"
      by (auto simp: rearmed_def rearm_def close_chan_def Let_def split: option.splits if_splits)
    moreover have "deadline_step\<^sup>*\<^sup>* s ?v" using st step by (rule rtranclp.rtrancl_into_rtrancl)
    ultimately show ?thesis using u released Some by (intro exI [of _ ?v]) auto
  qed
qed

theorem expired_deadline_releases_witness:
  "\<exists>s'. deadline_step\<^sup>*\<^sup>* demo_armed s' \<and> 0 \<in> closed s' \<and> 0 \<notin> closed demo_armed"
  using expired_deadline_releases [OF demo_armed_reachable, of 5] by (auto simp: demo_armed_simps)

end
