(* ===== verification/Go_IO.thy ===== *)
theory Go_IO
  imports Prelude
begin

text \<open>
  Go's \<open>error\<close> values and the I/O interfaces every layer of the plugin is written
  against: \<open>io.ReadFull\<close> over an \<open>io.Reader\<close>, \<open>Write\<close> of an \<open>io.Writer\<close>,
  and the sequencing of fallible calls (\<open>if err != nil { return err }\<close>).
  The interfaces are locales: \<open>reader_map\<close> and \<open>duplex_map\<close> (one reader, or
  reader and writer, seen through another), \<open>byte_source\<close> (an \<open>io.Reader\<close>),
  \<open>duplex\<close> (an \<open>io.ReadWriter\<close>) and \<open>prefix_codec\<close> (a writer and a reader
  of one wire format). The reference in-memory stream and connection interpret the first
  two here; the channel of \<open>internal/transport\<close> interprets them in its own theory.
\<close>

section \<open>Errors\<close>

text \<open>
  One constructor per error type or sentinel of the repository, with its fields.
  \<open>Errorf\<close> and \<open>Wrapf\<close> are \<open>fmt.Errorf\<close> without and with a \<open>%w\<close> argument:
  the format text, and the numeric arguments or the wrapped error.
\<close>

datatype go_error =
    EOF
  | UnexpectedEOF
  | ErrClosed
  | ErrNoCredit
  | TimeoutError string
  | Errorf string "nat list"
  | Wrapf string go_error
  | ErrUnsupportedVersion string string
  | ErrNoSupportedSecurityType bytes bytes
  | ErrSecurityRejected string
  | ErrUnknownClientMessageType byte
  | ErrTruncated string go_error
  | ErrSessionFatal go_error
  | ErrProtocolViolation
  | ProtocolViolationError string byte u32
  | DispatchConfigError string
  | ErrInvalidMessage
  | RPCError int string

text \<open>\<open>errors.Unwrap\<close>, by the \<open>Unwrap\<close> methods of the repository's error types.\<close>

fun unwrap :: "go_error \<Rightarrow> go_error option" where
  "unwrap (Wrapf _ e) = Some e"
| "unwrap (ErrTruncated _ e) = Some e"
| "unwrap (ErrSessionFatal e) = Some e"
| "unwrap (ProtocolViolationError _ _ _) = Some ErrProtocolViolation"
| "unwrap _ = None"

text \<open>\<open>errors.Is\<close>: the error or one it wraps is the target.\<close>

fun errors_is :: "go_error \<Rightarrow> go_error \<Rightarrow> bool" where
  "errors_is (Wrapf f e) t \<longleftrightarrow> Wrapf f e = t \<or> errors_is e t"
| "errors_is (ErrTruncated f e) t \<longleftrightarrow> ErrTruncated f e = t \<or> errors_is e t"
| "errors_is (ErrSessionFatal e) t \<longleftrightarrow> ErrSessionFatal e = t \<or> errors_is e t"
| "errors_is (ProtocolViolationError r k l) t \<longleftrightarrow>
     ProtocolViolationError r k l = t \<or> ErrProtocolViolation = t"
| "errors_is e t \<longleftrightarrow> e = t"

text \<open>\<open>errors.As\<close> with a target of type \<open>*ErrUnknownClientMessageType\<close>.\<close>

fun errors_as_unknown_message :: "go_error \<Rightarrow> byte option" where
  "errors_as_unknown_message (ErrUnknownClientMessageType t) = Some t"
| "errors_as_unknown_message (Wrapf _ e) = errors_as_unknown_message e"
| "errors_as_unknown_message (ErrTruncated _ e) = errors_as_unknown_message e"
| "errors_as_unknown_message (ErrSessionFatal e) = errors_as_unknown_message e"
| "errors_as_unknown_message _ = None"

lemma errors_is_refl [simp]: "errors_is e e"
  by (cases e) auto

text \<open>\<open>errors.Is\<close> follows the chain of \<open>Unwrap\<close>.\<close>

lemma errors_is_unwrap: "unwrap e = Some e' \<Longrightarrow> errors_is e' t \<Longrightarrow> errors_is e t"
  by (cases e) auto

section \<open>Sequencing of fallible calls\<close>

type_synonym ('a, 's) outcome = "(go_error + 'a) \<times> 's"

definition io_bind :: "('a, 's) outcome \<Rightarrow> ('a \<Rightarrow> 's \<Rightarrow> ('b, 's) outcome) \<Rightarrow> ('b, 's) outcome" where
  "io_bind r f = (case r of (Inl e, s) \<Rightarrow> (Inl e, s) | (Inr a, s) \<Rightarrow> f a s)"

definition io_wrap :: "(go_error \<Rightarrow> go_error) \<Rightarrow> ('a, 's) outcome \<Rightarrow> ('a, 's) outcome" where
  "io_wrap w r = (case r of (Inl e, s) \<Rightarrow> (Inl (w e), s) | (Inr a, s) \<Rightarrow> (Inr a, s))"

text \<open>A pure check in the middle of a sequence: \<open>if err := f(x); err != nil { return err }\<close>.\<close>

definition io_check :: "go_error + 'a \<Rightarrow> 's \<Rightarrow> ('a, 's) outcome" where
  "io_check r s = (r, s)"

lemma io_bind_simps [simp, io_simps]:
  "io_bind (Inl e, s) f = (Inl e, s)"
  "io_bind (Inr a, s) f = f a s"
  by (simp_all add: io_bind_def)

lemma io_wrap_simps [simp, io_simps]:
  "io_wrap w (Inl e, s) = (Inl (w e), s)"
  "io_wrap w (Inr a, s) = (Inr a, s)"
  by (simp_all add: io_wrap_def)

lemma io_check_simps [simp, io_simps]: "io_check r s = (r, s)"
  by (simp add: io_check_def)

lemma io_bind_Inr_iff:
  "io_bind r f = (Inr b, s') \<longleftrightarrow> (\<exists>a s. r = (Inr a, s) \<and> f a s = (Inr b, s'))"
  by (auto simp: io_bind_def split: prod.splits sum.splits)

lemma io_bind_Inl_iff:
  "io_bind r f = (Inl e, s') \<longleftrightarrow> r = (Inl e, s') \<or> (\<exists>a s. r = (Inr a, s) \<and> f a s = (Inl e, s'))"
  by (auto simp: io_bind_def split: prod.splits sum.splits)

lemma io_wrap_Inr_iff: "io_wrap w r = (Inr a, s) \<longleftrightarrow> r = (Inr a, s)"
  by (auto simp: io_wrap_def split: prod.splits sum.splits)

lemma io_wrap_Inl_iff: "io_wrap w r = (Inl e, s) \<longleftrightarrow> (\<exists>e'. r = (Inl e', s) \<and> e = w e')"
  by (auto simp: io_wrap_def split: prod.splits sum.splits)

lemmas io_iffs = io_bind_Inr_iff io_bind_Inl_iff io_wrap_Inr_iff io_wrap_Inl_iff

lemma io_bind_cong [fundef_cong]:
  "r = r' \<Longrightarrow> (\<And>a s. r' = (Inr a, s) \<Longrightarrow> f a s = f' a s) \<Longrightarrow> io_bind r f = io_bind r' f'"
  by (auto simp: io_bind_def split: prod.splits sum.splits)

lemma map_prod_id_view [simp]: "map_prod id (\<lambda>s. s) r = r"
  by (cases r) simp

lemma map_prod_id_comp: "map_prod id (\<lambda>s. g (f s)) r = map_prod id g (map_prod id f r)"
  by (cases r) simp

text \<open>
  A view of the state through which the calls of a sequence commute is a view through
  which the sequence commutes: the step from one call to a whole parser.
\<close>

lemma io_bind_view:
  assumes "map_prod id v r = r'"
    and "\<And>a s. r = (Inr a, s) \<Longrightarrow> map_prod id v (f a s) = g a (v s)"
  shows "map_prod id v (io_bind r f) = io_bind r' g"
proof (cases r)
  case (Pair x s)
  with assms show ?thesis
    by (cases x) auto
qed

lemma io_wrap_view: "map_prod id v r = r' \<Longrightarrow> map_prod id v (io_wrap w r) = io_wrap w r'"
  by (cases r; cases "fst r") auto

section \<open>Readers\<close>

text \<open>
  What a reader sees of its peer: the bytes that arrive, and the error \<open>Read\<close> returns
  once they are exhausted (\<open>io.EOF\<close> after a close, a timeout, a closed channel).
\<close>

record stream =
  avail :: bytes
  fin :: go_error

text \<open>
  \<open>io.ReadFull\<close> into a buffer of \<open>n\<close> bytes: all of them, or the reader's error;
  \<open>io.EOF\<close> only if no byte was read, \<open>io.ErrUnexpectedEOF\<close> if the stream ended in
  the middle.
\<close>

definition short_read :: "bytes \<Rightarrow> go_error \<Rightarrow> go_error" where
  "short_read got e = (if got \<noteq> [] \<and> e = EOF then UnexpectedEOF else e)"

definition stream_read_full :: "nat \<Rightarrow> 'a stream_scheme \<Rightarrow> (bytes, 'a stream_scheme) outcome" where
  "stream_read_full n s =
     (if n \<le> length (avail s)
      then (Inr (take n (avail s)), s\<lparr>avail := drop n (avail s)\<rparr>)
      else (Inl (short_read (avail s) (fin s)), s\<lparr>avail := []\<rparr>))"

lemma stream_read_full_append [simp, io_simps]:
  "length b = n \<Longrightarrow> stream_read_full n (s\<lparr>avail := b @ r\<rparr>) = (Inr b, s\<lparr>avail := r\<rparr>)"
  by (simp add: stream_read_full_def)

lemma stream_read_full_one [simp, io_simps]:
  "stream_read_full (Suc 0) (s\<lparr>avail := x # r\<rparr>) = (Inr [x], s\<lparr>avail := r\<rparr>)"
  by (simp add: stream_read_full_def)

lemma stream_read_full_Inr:
  "stream_read_full n s = (Inr b, s') \<longleftrightarrow>
     (\<exists>r. length b = n \<and> avail s = b @ r \<and> s' = s\<lparr>avail := r\<rparr>)"
  by (auto simp: stream_read_full_def append_eq_conv_conj split: if_splits)
    (metis append_take_drop_id)

lemma stream_read_full_Inl:
  "stream_read_full n s = (Inl e, s') \<longleftrightarrow>
     length (avail s) < n \<and> e = short_read (avail s) (fin s) \<and> s' = s\<lparr>avail := []\<rparr>"
  by (auto simp: stream_read_full_def)

lemma stream_read_full_short:
  "length (avail s) < n \<Longrightarrow>
   stream_read_full n s = (Inl (short_read (avail s) (fin s)), s\<lparr>avail := []\<rparr>)"
  by (simp add: stream_read_full_def)

lemma stream_read_full_zero [simp]: "stream_read_full 0 s = (Inr [], s)"
  by (simp add: stream_read_full_def)

text \<open>A stream with its bytes written out: the form the evaluation rules match.\<close>

lemma stream_with_avail: "avail s = b \<Longrightarrow> s\<lparr>avail := b\<rparr> = s"
  by (cases s) simp

lemma stream_eqI: "avail (s :: stream) = avail t \<Longrightarrow> fin s = fin t \<Longrightarrow> s = t"
  by (cases s; cases t) simp

text \<open>
  One reader seen through another: \<open>view\<close> maps the states of \<open>rd\<close> to those of \<open>rd'\<close>, and
  reading commutes with it. Parsers are polymorphic in their reader, so a parser run over
  \<open>rd\<close> is, through the view, the parser run over \<open>rd'\<close>.
\<close>

locale reader_map =
  fixes rd :: "nat \<Rightarrow> 's \<Rightarrow> (bytes, 's) outcome"
    and rd' :: "nat \<Rightarrow> 't \<Rightarrow> (bytes, 't) outcome"
    and view :: "'s \<Rightarrow> 't"
  assumes read_view: "map_prod id view (rd n s) = rd' n (view s)"

text \<open>A reader and a writer seen through another pair, for writes of at least one and at most \<open>wmax\<close> bytes.\<close>

locale duplex_map = reader_map rd rd' view
  for rd :: "nat \<Rightarrow> 's \<Rightarrow> (bytes, 's) outcome"
    and rd' :: "nat \<Rightarrow> 't \<Rightarrow> (bytes, 't) outcome"
    and view :: "'s \<Rightarrow> 't" +
  fixes wr :: "bytes \<Rightarrow> 's \<Rightarrow> (unit, 's) outcome"
    and wr' :: "bytes \<Rightarrow> 't \<Rightarrow> (unit, 't) outcome"
    and wmax :: nat
  assumes write_view: "b \<noteq> [] \<Longrightarrow> length b \<le> wmax \<Longrightarrow> map_prod id view (wr b s) = wr' b (view s)"

text \<open>
  The interface \<open>io.Reader\<close>, as its clients use it: any state with a \<open>ReadFull\<close>
  that behaves like \<open>ReadFull\<close> on the stream the state stands for.
\<close>

locale byte_source = reader_map rd stream_read_full view
  for rd :: "nat \<Rightarrow> 's \<Rightarrow> (bytes, 's) outcome"
    and view :: "'s \<Rightarrow> 'v stream_scheme"
begin

lemma read_Inr_view: "rd n s = (Inr b, s') \<Longrightarrow> stream_read_full n (view s) = (Inr b, view s')"
  using read_view [of n s] by simp

lemma read_Inl_view: "rd n s = (Inl e, s') \<Longrightarrow> stream_read_full n (view s) = (Inl e, view s')"
  using read_view [of n s] by simp

text \<open>A successful read takes exactly the next \<open>n\<close> bytes off the stream, and nothing else.\<close>

lemma read_consumes:
  "rd n s = (Inr b, s') \<Longrightarrow> length b = n \<and> avail (view s) = b @ avail (view s') \<and> fin (view s') = fin (view s)"
  using read_Inr_view [of n s b s'] by (auto simp: stream_read_full_Inr)

lemma read_total: "n \<le> length (avail (view s)) \<Longrightarrow> \<exists>b s'. rd n s = (Inr b, s')"
  using read_view [of n s] by (cases "rd n s"; cases "fst (rd n s)") (auto simp: stream_read_full_def)

end

interpretation mem: byte_source stream_read_full "\<lambda>s. s"
  by unfold_locales simp

section \<open>Writers\<close>

text \<open>
  A connection: a reader, the bytes written so far, and how many more \<open>Write\<close> calls
  succeed before the writer fails with \<open>wr_err\<close> (\<open>None\<close>: it never fails).
\<close>

record conn = stream +
  sent :: bytes
  wr_left :: "nat option"
  wr_err :: go_error

definition conn_write :: "bytes \<Rightarrow> 'a conn_scheme \<Rightarrow> (unit, 'a conn_scheme) outcome" where
  "conn_write b c =
     (case wr_left c of
        None \<Rightarrow> (Inr (), c\<lparr>sent := sent c @ b\<rparr>)
      | Some 0 \<Rightarrow> (Inl (wr_err c), c)
      | Some (Suc k) \<Rightarrow> (Inr (), c\<lparr>sent := sent c @ b, wr_left := Some k\<rparr>))"

text \<open>A connection whose writes all succeed.\<close>

definition healthy :: "'a conn_scheme \<Rightarrow> bool" where
  "healthy c \<longleftrightarrow> wr_left c = None"

lemma conn_write_healthy [simp, io_simps]:
  "wr_left c = None \<Longrightarrow> conn_write b c = (Inr (), c\<lparr>sent := sent c @ b\<rparr>)"
  by (simp add: conn_write_def)

lemma conn_write_Inr:
  "conn_write b c = (Inr u, c') \<Longrightarrow>
   sent c' = sent c @ b \<and> avail c' = avail c \<and> fin c' = fin c \<and> (wr_left c = None \<longleftrightarrow> wr_left c' = None)"
  by (auto simp: conn_write_def split: option.splits nat.splits)

lemma conn_write_Inl:
  "conn_write b c = (Inl e, c') \<longleftrightarrow> wr_left c = Some 0 \<and> e = wr_err c \<and> c' = c"
  by (auto simp: conn_write_def split: option.splits nat.splits)

text \<open>
  The interface \<open>io.ReadWriter\<close>: a reader and a writer over one state, whose writes of at
  least one and at most \<open>wmax\<close> bytes behave like those of the reference connection.
\<close>

locale duplex = byte_source rd cview + duplex_map rd stream_read_full cview wr conn_write wmax
  for rd :: "nat \<Rightarrow> 's \<Rightarrow> (bytes, 's) outcome"
    and cview :: "'s \<Rightarrow> conn"
    and wr :: "bytes \<Rightarrow> 's \<Rightarrow> (unit, 's) outcome"
    and wmax :: nat

interpretation pipe: duplex stream_read_full "\<lambda>c. c" conn_write wmax for wmax
  by unfold_locales simp_all

section \<open>Wire formats\<close>

text \<open>
  A message format that is read off the front of a stream: what is written is read back
  whatever follows it, and what is read is the message whose encoding was consumed.
\<close>

locale prefix_codec =
  fixes enc :: "'m \<Rightarrow> bytes"
    and dec :: "stream \<Rightarrow> ('m, stream) outcome"
    and ok :: "'m \<Rightarrow> bool"
  assumes dec_enc: "ok m \<Longrightarrow> dec \<lparr>avail = enc m @ r, fin = e\<rparr> = (Inr m, \<lparr>avail = r, fin = e\<rparr>)"
    and dec_sound: "dec s = (Inr m, s') \<Longrightarrow> ok m \<and> avail s = enc m @ avail s' \<and> fin s' = fin s"
    and enc_nonempty: "ok m \<Longrightarrow> enc m \<noteq> []"
begin

text \<open>No encoding is a prefix of another: the message boundaries are determined.\<close>

lemma enc_prefix_free:
  assumes "ok m" and "ok m'" and "enc m @ r = enc m' @ r'"
  shows "m = m' \<and> r = r'"
proof -
  have "dec \<lparr>avail = enc m @ r, fin = EOF\<rparr> = (Inr m, \<lparr>avail = r, fin = EOF\<rparr>)"
    using assms(1) by (rule dec_enc)
  moreover have "dec \<lparr>avail = enc m @ r, fin = EOF\<rparr> = (Inr m', \<lparr>avail = r', fin = EOF\<rparr>)"
    unfolding assms(3) using assms(2) by (rule dec_enc)
  ultimately show ?thesis by simp
qed

lemma enc_inject: "ok m \<Longrightarrow> ok m' \<Longrightarrow> enc m = enc m' \<Longrightarrow> m = m'"
  using enc_prefix_free [of m m' "[]" "[]"] by simp

text \<open>A stream of messages has one reading.\<close>

lemma stream_unique:
  "list_all ok ms \<Longrightarrow> list_all ok ms' \<Longrightarrow> concat (map enc ms) = concat (map enc ms') \<Longrightarrow> ms = ms'"
proof (induction ms arbitrary: ms')
  case Nil
  then show ?case
    by (cases ms') (auto simp: enc_nonempty)
next
  case (Cons m ms)
  then obtain m' rest where ms': "ms' = m' # rest"
    by (cases ms') (auto simp: enc_nonempty)
  from Cons.prems ms' have "m = m' \<and> concat (map enc ms) = concat (map enc rest)"
    by (intro enc_prefix_free) auto
  with Cons ms' show ?case by simp
qed

text \<open>Reading makes progress: a message takes at least one byte.\<close>

lemma dec_shrinks: "dec s = (Inr m, s') \<Longrightarrow> length (avail s') < length (avail s)"
  using dec_sound [of s m s'] enc_nonempty [of m] by auto

end

end
