(* ===== verification/Ipc_Codec.thy ===== *)
theory Ipc_Codec
  imports Go_IO
begin

text \<open>
  \<open>internal/ipc/codec.go\<close>: the frames of the plugin's stdin and stdout, a 9-byte header
  (length, kind, channel id) and a payload of at most 1 MiB. The encoder refuses what the
  decoder would refuse; together they are a \<open>prefix_codec\<close>.
\<close>

section \<open>Frames\<close>

type_synonym kind = byte

definition KindJSONRPC :: kind where "KindJSONRPC = 1"
definition KindChannelData :: kind where "KindChannelData = 2"
definition KindCredit :: kind where "KindCredit = 3"

lemmas kind_defs [simp] = KindJSONRPC_def KindChannelData_def KindCredit_def

definition headerLen :: nat where "headerLen = 9"
definition MaxFrameLength :: nat where "MaxFrameLength = 1024 * 1024"

definition is_reserved_or_unknown_kind :: "kind \<Rightarrow> bool" where
  "is_reserved_or_unknown_kind k \<longleftrightarrow> \<not> (k = KindJSONRPC \<or> k = KindChannelData \<or> k = KindCredit)"

record frame =
  Kind :: kind
  ChannelID :: u32
  Payload :: bytes

definition is_control_plane :: "frame \<Rightarrow> bool" where
  "is_control_plane f \<longleftrightarrow> ChannelID f = 0"

section \<open>Encoder and decoder\<close>

definition frame_bytes :: "frame \<Rightarrow> bytes" where
  "frame_bytes f =
     put_u32 (word_of_nat (length (Payload f))) @ [Kind f] @ put_u32 (ChannelID f) @ Payload f"

definition encode ::
    "(bytes \<Rightarrow> 's \<Rightarrow> (unit, 's) outcome) \<Rightarrow> kind \<Rightarrow> u32 \<Rightarrow> bytes \<Rightarrow> 's \<Rightarrow> (unit, 's) outcome" where
  "encode wr kind channelID payload s =
     (if is_reserved_or_unknown_kind kind
      then (Inl (ProtocolViolationError ''reserved or unknown kind'' kind 0), s)
      else if length payload > MaxFrameLength
      then (Inl (ProtocolViolationError ''oversize length'' 0 (word_of_nat (length payload))), s)
      else io_wrap (Wrapf ''ipc: write frame'')
             (wr (frame_bytes \<lparr>Kind = kind, ChannelID = channelID, Payload = payload\<rparr>) s))"

definition decode :: "(nat \<Rightarrow> 's \<Rightarrow> (bytes, 's) outcome) \<Rightarrow> 's \<Rightarrow> (frame, 's) outcome" where
  "decode rd s =
     io_bind (io_wrap (\<lambda>err. if err = EOF then EOF else err) (rd headerLen s)) (\<lambda>hdr s.
     let len = get_u32 (take 4 hdr);
         kind = hdr ! 4;
         channelID = get_u32 (take 4 (drop 5 hdr)) in
     if is_reserved_or_unknown_kind kind
     then (Inl (ProtocolViolationError ''reserved or unknown kind'' kind len), s)
     else if unat len > MaxFrameLength
     then (Inl (ProtocolViolationError ''oversize length'' kind len), s)
     else
       io_bind (if len > 0
                then io_wrap (\<lambda>err. if err = EOF then UnexpectedEOF else err) (rd (unat len) s)
                else (Inr [], s)) (\<lambda>payload s.
       (Inr \<lparr>Kind = kind, ChannelID = channelID, Payload = payload\<rparr>, s)))"

section \<open>The codec\<close>

definition wf_frame :: "frame \<Rightarrow> bool" where
  "wf_frame f \<longleftrightarrow> \<not> is_reserved_or_unknown_kind (Kind f) \<and> length (Payload f) \<le> MaxFrameLength"

definition header_bytes :: "u32 \<Rightarrow> kind \<Rightarrow> u32 \<Rightarrow> bytes" where
  "header_bytes len kind ch = put_u32 len @ [kind] @ put_u32 ch"

lemma length_header_bytes [simp]: "length (header_bytes len kind ch) = 9"
  by (simp add: header_bytes_def)

lemma header_fields_of [simp]:
  "get_u32 (take 4 (header_bytes len kind ch)) = len"
  "header_bytes len kind ch ! 4 = kind"
  "get_u32 (take 4 (drop 5 (header_bytes len kind ch))) = ch"
  "get_u32 (drop 5 (header_bytes len kind ch)) = ch"
  by (simp_all add: header_bytes_def nth_append)

lemma frame_bytes_header:
  "frame_bytes f = header_bytes (word_of_nat (length (Payload f))) (Kind f) (ChannelID f) @ Payload f"
  by (simp add: frame_bytes_def header_bytes_def)

lemma length_9_header:
  assumes "length h = 9"
  shows "h = header_bytes (get_u32 (take 4 h)) (h ! 4) (get_u32 (take 4 (drop 5 h)))"
proof -
  have "h = take 4 h @ [h ! 4] @ take 4 (drop 5 h)"
    using assms by (simp add: list_eq_iff_nth_eq nth_append) (auto simp: less_Suc_eq numeral_eq_Suc)
  then show ?thesis
    using assms by (simp add: header_bytes_def put_get_u32)
qed

text \<open>What the decoder does once the header is there.\<close>

lemma decode_header:
  assumes "avail s = header_bytes len kind ch @ r"
  shows "decode stream_read_full s =
    (if is_reserved_or_unknown_kind kind
     then (Inl (ProtocolViolationError ''reserved or unknown kind'' kind len), s\<lparr>avail := r\<rparr>)
     else if unat len > MaxFrameLength
     then (Inl (ProtocolViolationError ''oversize length'' kind len), s\<lparr>avail := r\<rparr>)
     else if unat len \<le> length r
     then (Inr \<lparr>Kind = kind, ChannelID = ch, Payload = take (unat len) r\<rparr>,
           s\<lparr>avail := drop (unat len) r\<rparr>)
     else (Inl (if r = [] \<and> fin s = EOF then UnexpectedEOF else short_read r (fin s)),
           s\<lparr>avail := []\<rparr>))"
proof -
  have hdr: "stream_read_full headerLen s = (Inr (header_bytes len kind ch), s\<lparr>avail := r\<rparr>)"
    using assms by (simp add: stream_read_full_def headerLen_def)
  have pay: "(if 0 < len then io_wrap (\<lambda>err. if err = EOF then UnexpectedEOF else err)
        (stream_read_full (unat len) (s\<lparr>avail := r\<rparr>)) else (Inr [], s\<lparr>avail := r\<rparr>)) =
     (if unat len \<le> length r then (Inr (take (unat len) r), s\<lparr>avail := drop (unat len) r\<rparr>)
      else (Inl (if r = [] \<and> fin s = EOF then UnexpectedEOF else short_read r (fin s)), s\<lparr>avail := []\<rparr>))"
    by (cases "len = 0") (auto simp: word_neq_0_conv stream_read_full_def short_read_def)
  show ?thesis
    unfolding decode_def hdr io_wrap_simps io_bind_simps header_fields_of Let_def pay
    by simp
qed

lemma decode_no_header:
  "length (avail s) < 9 \<Longrightarrow>
   decode stream_read_full s = (Inl (short_read (avail s) (fin s)), s\<lparr>avail := []\<rparr>)"
  by (simp add: decode_def headerLen_def stream_read_full_short)

lemma decode_cases:
  obtains (short) "length (avail s) < 9"
    | (header) len kind ch r where "avail s = header_bytes len kind ch @ r"
proof (cases "length (avail s) < 9")
  case False
  then have "length (take 9 (avail s)) = 9" by simp
  from length_9_header [OF this] have "avail s =
      header_bytes (get_u32 (take 4 (take 9 (avail s)))) (take 9 (avail s) ! 4)
        (get_u32 (take 4 (drop 5 (take 9 (avail s))))) @ drop 9 (avail s)"
    by (metis append_take_drop_id)
  then show thesis by (rule header)
qed (rule short)

lemma unat_frame_length: "length p \<le> MaxFrameLength \<Longrightarrow> unat (word_of_nat (length p) :: u32) = length p"
  by (simp add: unat_u32_of_nat MaxFrameLength_def)

lemma decode_frame_bytes:
  assumes "wf_frame f" and "avail s = frame_bytes f @ r"
  shows "decode stream_read_full s = (Inr f, s\<lparr>avail := r\<rparr>)"
  using decode_header [of s "word_of_nat (length (Payload f))" "Kind f" "ChannelID f" "Payload f @ r"] assms
  by (simp add: frame_bytes_header wf_frame_def unat_frame_length)

lemma decode_sound:
  assumes "decode stream_read_full s = (Inr f, s')"
  shows "wf_frame f \<and> (\<exists>r. avail s = frame_bytes f @ r \<and> s' = s\<lparr>avail := r\<rparr>)"
proof (cases s rule: decode_cases)
  case short
  with assms show ?thesis by (simp add: decode_no_header)
next
  case (header len kind ch r)
  with assms have ok: "\<not> is_reserved_or_unknown_kind kind" "unat len \<le> MaxFrameLength"
      "unat len \<le> length r" "f = \<lparr>Kind = kind, ChannelID = ch, Payload = take (unat len) r\<rparr>"
      "s' = s\<lparr>avail := drop (unat len) r\<rparr>"
    by (simp_all add: decode_header split: if_splits)
  then have "wf_frame f" by (simp add: wf_frame_def)
  moreover have "avail s = frame_bytes f @ drop (unat len) r"
    using header ok by (simp add: frame_bytes_header)
  ultimately show ?thesis using ok(5) by blast
qed

interpretation frame_wire: prefix_codec frame_bytes "decode stream_read_full" wf_frame
proof
  fix m r e
  assume "wf_frame m"
  then show "decode stream_read_full \<lparr>avail = frame_bytes m @ r, fin = e\<rparr> = (Inr m, \<lparr>avail = r, fin = e\<rparr>)"
    using decode_frame_bytes [of m "\<lparr>avail = frame_bytes m @ r, fin = e\<rparr>" r] by simp
next
  fix s m s'
  assume "decode stream_read_full s = (Inr m, s')"
  then show "wf_frame m \<and> avail s = frame_bytes m @ avail s' \<and> fin s' = fin s"
    by (auto dest: decode_sound)
next
  fix m
  show "frame_bytes m \<noteq> []"
    by (simp add: frame_bytes_def)
qed

lemma encode_wf:
  "wf_frame f \<Longrightarrow> encode wr (Kind f) (ChannelID f) (Payload f) s =
     io_wrap (Wrapf ''ipc: write frame'') (wr (frame_bytes f) s)"
  by (cases f) (simp add: encode_def wf_frame_def)

lemma encode_refused:
  "\<not> wf_frame f \<Longrightarrow> \<exists>r k n. encode wr (Kind f) (ChannelID f) (Payload f) s =
     (Inl (ProtocolViolationError r k n), s)"
  by (auto simp: encode_def wf_frame_def)

context byte_source
begin

lemma decode_view: "map_prod id view (decode rd s) = decode stream_read_full (view s)"
  unfolding decode_def Let_def
  by (auto intro!: io_bind_view io_wrap_view read_view)

end

section \<open>A stream of frames\<close>

text \<open>The frames a peer reads off a byte sequence, up to the first place where it reads none.\<close>

function parse_frames :: "bytes \<Rightarrow> frame list" where
  "parse_frames b =
     (case decode stream_read_full \<lparr>avail = b, fin = EOF\<rparr> of
        (Inl _, _) \<Rightarrow> []
      | (Inr f, s) \<Rightarrow> f # parse_frames (avail (s :: stream)))"
  by auto
termination
  by (relation "measure length") (auto dest!: frame_wire.dec_shrinks [OF sym])

declare parse_frames.simps [simp del]

definition well_framed :: "bytes \<Rightarrow> bool" where
  "well_framed b \<longleftrightarrow> concat (map frame_bytes (parse_frames b)) = b"

lemma parse_frames_Nil [simp]: "parse_frames [] = []"
  by (subst parse_frames.simps) (simp add: decode_no_header)

lemma parse_frames_Cons:
  "wf_frame f \<Longrightarrow> parse_frames (frame_bytes f @ r) = f # parse_frames r"
  using frame_wire.dec_enc [of f r EOF] by (subst parse_frames.simps) simp

lemma parse_frames_concat:
  "list_all wf_frame fs \<Longrightarrow> parse_frames (concat (map frame_bytes fs)) = fs"
  by (induction fs) (simp_all add: parse_frames_Cons)

lemma parse_frames_wf: "list_all wf_frame (parse_frames b)"
proof (induction b rule: parse_frames.induct)
  case (1 b)
  show ?case
  proof (cases "decode stream_read_full \<lparr>avail = b, fin = EOF\<rparr>")
    case (Pair x s)
    then show ?thesis
      using 1 by (subst parse_frames.simps) (cases x, auto dest: frame_wire.dec_sound)
  qed
qed

lemma well_framed_Nil [simp]: "well_framed []"
  by (simp add: well_framed_def)

lemma well_framed_append:
  assumes "well_framed b" and "wf_frame f"
  shows "well_framed (b @ frame_bytes f) \<and> parse_frames (b @ frame_bytes f) = parse_frames b @ [f]"
proof -
  have "b @ frame_bytes f = concat (map frame_bytes (parse_frames b @ [f]))"
    using assms(1) by (simp add: well_framed_def)
  moreover have "list_all wf_frame (parse_frames b @ [f])"
    using parse_frames_wf [of b] assms(2) by simp
  ultimately have "parse_frames (b @ frame_bytes f) = parse_frames b @ [f]"
    by (metis parse_frames_concat)
  with assms(1) show ?thesis
    by (simp add: well_framed_def)
qed

section \<open>Properties of the codec\<close>

text \<open>
  C25: the decoder is the exact inverse of the encoder. A frame is decoded if and only if the
  stream starts with the bytes the encoder writes for a frame of a known kind and at most
  1 MiB of payload, and then exactly those bytes are consumed; the encoder writes them in
  one write and refuses, without writing anything, every other frame.
\<close>

theorem frame_codec_exact:
  "(decode stream_read_full s = (Inr f, s') \<longleftrightarrow>
      wf_frame f \<and> avail s = frame_bytes f @ avail s' \<and> s' = s\<lparr>avail := avail s'\<rparr>) \<and>
   (if wf_frame f
    then encode conn_write (Kind f) (ChannelID f) (Payload f) c =
           io_wrap (Wrapf ''ipc: write frame'') (conn_write (frame_bytes f) c)
    else \<exists>r k n. encode conn_write (Kind f) (ChannelID f) (Payload f) c =
           (Inl (ProtocolViolationError r k n), c))"
proof (intro conjI iffI)
  assume "decode stream_read_full s = (Inr f, s')"
  then show "wf_frame f" and "avail s = frame_bytes f @ avail s'" and "s' = s\<lparr>avail := avail s'\<rparr>"
    using decode_sound [of s f s'] by auto
next
  assume "wf_frame f \<and> avail s = frame_bytes f @ avail s' \<and> s' = s\<lparr>avail := avail s'\<rparr>"
  then show "decode stream_read_full s = (Inr f, s')"
    using decode_frame_bytes [of f s "avail s'"] by simp
next
  show "if wf_frame f
    then encode conn_write (Kind f) (ChannelID f) (Payload f) c =
           io_wrap (Wrapf ''ipc: write frame'') (conn_write (frame_bytes f) c)
    else \<exists>r k n. encode conn_write (Kind f) (ChannelID f) (Payload f) c =
           (Inl (ProtocolViolationError r k n), c)"
    by (simp add: encode_wf encode_refused)
qed

text \<open>\<open>io.EOF\<close> is returned for an empty stream that ends so, and never otherwise.\<close>

lemma decode_eof_iff:
  "fin s = EOF \<Longrightarrow> (\<exists>s'. decode stream_read_full s = (Inl EOF, s')) \<longleftrightarrow> avail s = []"
  by (cases s rule: decode_cases)
    (auto simp: decode_no_header decode_header short_read_def header_bytes_def)

text \<open>
  the decoder tells a clean end from a truncated stream. When what arrives before
  \<open>io.EOF\<close> is a proper prefix of a well-formed frame, wherever it is cut, the result is
  \<open>io.EOF\<close> if nothing at all has arrived and \<open>io.ErrUnexpectedEOF\<close> otherwise.
\<close>

theorem decode_truncated_frame:
  assumes "fin s = EOF" and "wf_frame f" and "frame_bytes f = avail s @ missing" and "missing \<noteq> []"
  shows "decode stream_read_full s =
    (Inl (if avail s = [] then EOF else UnexpectedEOF), s\<lparr>avail := []\<rparr>)"
proof (cases "length (avail s) < 9")
  case True
  with assms show ?thesis by (simp add: decode_no_header short_read_def)
next
  case False
  define h where "h = header_bytes (word_of_nat (length (Payload f))) (Kind f) (ChannelID f)"
  have lh: "length h = 9" by (simp add: h_def)
  have "h @ Payload f = avail s @ missing"
    using assms(3) by (simp add: frame_bytes_header h_def)
  then have "avail s = h @ drop 9 (avail s)" and "Payload f = drop 9 (avail s) @ missing"
    using False lh by (auto simp: append_eq_append_conv_if)
  then obtain r where r: "avail s = h @ r" "Payload f = r @ missing" by blast
  then have "avail s \<noteq> []" using lh by auto
  then show ?thesis
    using r assms(1,2,4) decode_header [of s _ "Kind f" "ChannelID f" r] unat_frame_length [of "Payload f"]
    by (auto simp: wf_frame_def short_read_def h_def)
qed

theorem decode_truncated_frame_witness:
  "decode stream_read_full \<lparr>avail = [0, 0, 0, 2, 1, 0, 0, 0, 0, 123], fin = EOF\<rparr> =
     (Inl UnexpectedEOF, \<lparr>avail = [], fin = EOF\<rparr>)"
  using decode_truncated_frame
    [of "\<lparr>avail = [0, 0, 0, 2, 1, 0, 0, 0, 0, 123], fin = EOF\<rparr>"
        "\<lparr>Kind = 1, ChannelID = 0, Payload = [123, 125]\<rparr>" "[125]"]
  by (simp add: wf_frame_def is_reserved_or_unknown_kind_def MaxFrameLength_def frame_bytes_def put_u32_def)

text \<open>
  the decoder never reads past a header it does not trust. A reserved or unknown kind,
  or a declared length above 1 MiB, is a protocol violation that names the kind and the
  length, whatever follows the header, and only the 9 header bytes have been consumed.
\<close>

theorem decode_rejects_header:
  assumes "avail s = put_u32 len @ [kind] @ put_u32 ch @ r"
    and "kind \<notin> {1, 2, 3} \<or> unat len > 1048576"
  shows "\<exists>reason. decode stream_read_full s =
    (Inl (ProtocolViolationError reason kind len), s\<lparr>avail := r\<rparr>)"
  using decode_header [of s len kind ch r] assms
  by (auto simp: header_bytes_def is_reserved_or_unknown_kind_def MaxFrameLength_def)

theorem decode_rejects_header_witness:
  "\<exists>reason. decode stream_read_full \<lparr>avail = put_u32 1048577 @ [2] @ put_u32 7 @ [], fin = EOF\<rparr> =
    (Inl (ProtocolViolationError reason 2 1048577), \<lparr>avail = [], fin = EOF\<rparr>)"
  using decode_rejects_header
    [of "\<lparr>avail = put_u32 1048577 @ [2] @ put_u32 7 @ [], fin = EOF\<rparr>" 1048577 2 7 "[]"] by simp

end
