(* ===== verification/Transport_Frame.thy ===== *)
theory Transport_Frame
  imports Ipc_Codec
begin

text \<open>
  \<open>internal/transport/frame.go\<close> and \<open>addr.go\<close>: cutting one \<open>Write\<close> into payloads of at
  most the purpose's frame size, and the synthetic address of a channel.
\<close>

section \<open>Splitting a payload\<close>

definition DefaultMaxFramePayload :: nat where
  "DefaultMaxFramePayload = MaxFrameLength"

text \<open>The loop \<open>for len(b) > 0\<close>; the bound is positive here, zero being the default's case.\<close>

function split_loop :: "nat \<Rightarrow> bytes \<Rightarrow> bytes list" where
  "split_loop m b =
     (if b = [] \<or> m = 0 then []
      else let n = (if m > length b then length b else m) in
           take n b # split_loop m (drop n b))"
  by auto
termination
  by (relation "measure (\<lambda>(m, b). length b)") (auto split: if_splits)

declare split_loop.simps [simp del]

definition split_payload :: "bytes \<Rightarrow> int \<Rightarrow> bytes list" where
  "split_payload b maxi =
     (let m = (if maxi \<le> 0 then DefaultMaxFramePayload else nat maxi) in
      if b = [] then [] else split_loop m b)"

lemma split_loop_Nil [simp]: "split_loop m [] = []"
  by (simp add: split_loop.simps)

lemma split_loop_short [simp]: "b \<noteq> [] \<Longrightarrow> length b \<le> m \<Longrightarrow> split_loop m b = [b]"
  by (subst split_loop.simps) (cases b, auto simp: Let_def)

lemma split_loop_long: "0 < m \<Longrightarrow> m < length b \<Longrightarrow> split_loop m b = take m b # split_loop m (drop m b)"
  by (subst split_loop.simps) (auto simp: Let_def)

lemma concat_split_loop: "0 < m \<Longrightarrow> concat (split_loop m b) = b"
proof (induction m b rule: split_loop.induct)
  case (1 m b)
  then show ?case
    by (cases "b = []"; cases "length b \<le> m") (simp_all add: split_loop_long Let_def)
qed

lemma split_loop_sizes:
  "0 < m \<Longrightarrow> list_all (\<lambda>c. c \<noteq> [] \<and> length c \<le> m) (split_loop m b)"
proof (induction m b rule: split_loop.induct)
  case (1 m b)
  then show ?case
    by (cases "b = []"; cases "length b \<le> m") (simp_all add: split_loop_long Let_def)
qed

lemma split_loop_full:
  "0 < m \<Longrightarrow> list_all (\<lambda>c. length c = m) (butlast (split_loop m b))"
proof (induction m b rule: split_loop.induct)
  case (1 m b)
  show ?case
  proof (cases "b = [] \<or> length b \<le> m")
    case True
    then show ?thesis by (cases "b = []") simp_all
  next
    case False
    then have "list_all (\<lambda>c. length c = m) (butlast (split_loop m (drop m b)))"
      using 1 by (simp add: Let_def)
    with False "1.prems" show ?thesis
      by (simp add: split_loop_long)
  qed
qed

definition max_payload :: "int \<Rightarrow> nat" where
  "max_payload m = (if m \<le> 0 then DefaultMaxFramePayload else nat m)"

lemma max_payload_pos [simp]: "0 < max_payload m"
  by (simp add: max_payload_def DefaultMaxFramePayload_def MaxFrameLength_def)

lemma split_payload_loop: "split_payload b m = split_loop (max_payload m) b"
  by (simp add: split_payload_def max_payload_def Let_def)

lemma split_payload_one: "b \<noteq> [] \<Longrightarrow> length b \<le> max_payload m \<Longrightarrow> split_payload b m = [b]"
  by (simp add: split_payload_loop)

text \<open>
  splitting loses, reorders and invents nothing, and no chunk is refused further down.
  For every payload and every bound (the 1 MiB default for a non-positive one), the chunks
  concatenate to the payload, none is empty or above the bound, and all but the last are
  exactly the bound long, so there are as few as possible.
\<close>

theorem split_payload_spec:
  "concat (split_payload b m) = b \<and>
   list_all (\<lambda>c. c \<noteq> [] \<and> length c \<le> (if m \<le> 0 then 1048576 else nat m)) (split_payload b m) \<and>
   list_all (\<lambda>c. length c = (if m \<le> 0 then 1048576 else nat m)) (butlast (split_payload b m))"
proof -
  have m: "(if m \<le> 0 then 1048576 else nat m) = max_payload m"
    by (simp add: max_payload_def DefaultMaxFramePayload_def MaxFrameLength_def)
  show ?thesis
    unfolding m split_payload_loop
    by (simp add: concat_split_loop split_loop_sizes split_loop_full)
qed

section \<open>Addresses\<close>

record addr =
  AddrChannelID :: u32
  Purpose :: string

definition addr_network :: "addr \<Rightarrow> string" where
  "addr_network a = ''xqs-channel''"

definition addr_string :: "addr \<Rightarrow> string" where
  "addr_string a = ''xqs-channel:'' @ Purpose a @ ''#'' @ show_nat (unat (AddrChannelID a))"

end
