(* ===== verification/Rfb_Version.thy ===== *)
theory Rfb_Version
  imports Go_IO
begin

text \<open>
  \<open>internal/rfb/version.go\<close>, and the error wrapper of \<open>internal/rfb/errors.go\<close>:
  the 12-byte version line of the RFB handshake, its printing and parsing, the order of
  versions and the 3.8 floor.
\<close>

section \<open>Versions\<close>

datatype version = Version (Major: nat) (Minor: nat)

definition V38 :: version where
  "V38 = Version 3 8"

definition versionLineLen :: nat where
  "versionLineLen = 12"

text \<open>\<open>fmt.Sprintf("%03d")\<close>: at least three digits, padded with zeros.\<close>

definition pad3 :: "nat \<Rightarrow> string" where
  "pad3 n = replicate (3 - length (show_nat n)) (digit_char 0) @ show_nat n"

definition version_string :: "version \<Rightarrow> string" where
  "version_string v = ''RFB '' @ pad3 (Major v) @ ''.'' @ pad3 (Minor v) @ [CHR 0x0A]"

definition version_less :: "version \<Rightarrow> version \<Rightarrow> bool" where
  "version_less v other =
     (if Major v \<noteq> Major other then Major v < Major other else Minor v < Minor other)"

definition version_at_least :: "version \<Rightarrow> version \<Rightarrow> bool" where
  "version_at_least v other \<longleftrightarrow> \<not> version_less v other"

text \<open>\<open>Less\<close> is the strict part of a linear order, which the class instance discharges.\<close>

instantiation version :: linorder
begin

definition less_version :: "version \<Rightarrow> version \<Rightarrow> bool" where
  "less_version v w \<longleftrightarrow> version_less v w"

definition less_eq_version :: "version \<Rightarrow> version \<Rightarrow> bool" where
  "less_eq_version v w \<longleftrightarrow> version_less v w \<or> v = w"

instance
proof
  fix x y z :: version
  show "x < y \<longleftrightarrow> x \<le> y \<and> \<not> y \<le> x"
    by (cases x; cases y) (auto simp: less_version_def less_eq_version_def version_less_def)
  show "x \<le> x"
    by (simp add: less_eq_version_def)
  show "x \<le> y \<Longrightarrow> y \<le> z \<Longrightarrow> x \<le> z"
    by (cases x; cases y; cases z)
      (auto simp: less_eq_version_def version_less_def split: if_splits)
  show "x \<le> y \<Longrightarrow> y \<le> x \<Longrightarrow> x = y"
    by (cases x; cases y) (auto simp: less_eq_version_def version_less_def split: if_splits)
  show "x \<le> y \<or> y \<le> x"
    by (cases x; cases y) (auto simp: less_eq_version_def version_less_def)
qed

end

lemma version_at_least_le: "version_at_least v w \<longleftrightarrow> w \<le> v"
  by (simp add: version_at_least_def less_version_def [symmetric] not_less)

section \<open>The version line\<close>

definition write_version :: "(bytes \<Rightarrow> 's \<Rightarrow> (unit, 's) outcome) \<Rightarrow> version \<Rightarrow> 's \<Rightarrow> (unit, 's) outcome" where
  "write_version wr v s =
     io_wrap (Wrapf ''rfb: write version'') (wr (bytes_of (version_string v)) s)"

definition require_supported_version :: "version \<Rightarrow> go_error + unit" where
  "require_supported_version v =
     (if version_less v V38
      then Inl (ErrUnsupportedVersion (version_string v) ''version below RFB 3.8 minimum'')
      else Inr ())"

text \<open>\<open>parseDigits3\<close>: the loop over the characters, failing at the first non-digit.\<close>

fun parse_digits_from :: "nat \<Rightarrow> string \<Rightarrow> go_error + nat" where
  "parse_digits_from n [] = Inr n"
| "parse_digits_from n (c # s) =
     (if \<not> is_digit c then Inl (Errorf ''not a digit'' [])
      else parse_digits_from (n * 10 + digit_val c) s)"

definition parse_digits3 :: "string \<Rightarrow> go_error + nat" where
  "parse_digits3 s = parse_digits_from 0 s"

definition parse_version :: "bytes \<Rightarrow> go_error + version" where
  "parse_version line =
     (let s = string_of line in
      if length line \<noteq> versionLineLen then Inl (ErrUnsupportedVersion s ''wrong length'')
      else if take 4 s \<noteq> ''RFB '' \<or> s ! 7 \<noteq> CHR ''.'' \<or> s ! 11 \<noteq> CHR 0x0A
      then Inl (ErrUnsupportedVersion s ''malformed version line'')
      else case parse_digits3 (take 3 (drop 4 s)) of
        Inl _ \<Rightarrow> Inl (ErrUnsupportedVersion s ''malformed major version'')
      | Inr major \<Rightarrow>
         (case parse_digits3 (take 3 (drop 8 s)) of
            Inl _ \<Rightarrow> Inl (ErrUnsupportedVersion s ''malformed minor version'')
          | Inr minor \<Rightarrow> Inr (Version major minor)))"

definition wrap_truncated :: "string \<Rightarrow> go_error \<Rightarrow> go_error" where
  "wrap_truncated field err =
     (if errors_is err EOF \<or> errors_is err UnexpectedEOF
      then ErrTruncated field err else ErrTruncated field err)"

lemma wrap_truncated_eq [simp, io_simps]: "wrap_truncated field err = ErrTruncated field err"
  by (simp add: wrap_truncated_def)

definition read_version :: "(nat \<Rightarrow> 's \<Rightarrow> (bytes, 's) outcome) \<Rightarrow> 's \<Rightarrow> (version, 's) outcome" where
  "read_version rd s =
     io_bind (io_wrap (wrap_truncated ''version line'') (rd versionLineLen s)) (\<lambda>buf s.
     io_bind (io_check (parse_version buf) s) (\<lambda>v s.
     io_bind (io_check (require_supported_version v) s) (\<lambda>_ s.
     (Inr v, s))))"

section \<open>Round trip\<close>

definition wf_version :: "version \<Rightarrow> bool" where
  "wf_version v \<longleftrightarrow> Major v < 1000 \<and> Minor v < 1000"

lemma parse_digits_from_app:
  "list_all is_digit s \<Longrightarrow> parse_digits_from n s = Inr (foldl (\<lambda>n c. n * 10 + digit_val c) n s)"
  by (induction s arbitrary: n) auto

lemma pad3_explicit:
  assumes "n < 1000"
  shows "pad3 n = [digit_char (n div 100), digit_char (n div 10 mod 10), digit_char (n mod 10)]"
proof -
  consider "n < 10" | "10 \<le> n" "n < 100" | "100 \<le> n" by linarith
  then show ?thesis
  proof cases
    case 1
    then show ?thesis by (simp add: pad3_def show_nat_small)
  next
    case 2
    then show ?thesis by (simp add: pad3_def show_nat_small show_nat_step)
  next
    case 3
    moreover from this assms have "10 \<le> n div 10" "n div 10 div 10 < 10" by auto
    moreover have "n div 10 div 10 = n div 100" by (simp add: div_mult2_eq [symmetric])
    ultimately show ?thesis by (simp add: pad3_def show_nat_small show_nat_step)
  qed
qed

lemma length_pad3 [simp]: "n < 1000 \<Longrightarrow> length (pad3 n) = 3"
  by (simp add: pad3_explicit)

lemma parse_digits3_pad3 [simp]: "n < 1000 \<Longrightarrow> parse_digits3 (pad3 n) = Inr n"
proof -
  assume n: "n < 1000"
  then have d: "n div 100 < 10" by auto
  have "n div 100 * 100 + n div 10 mod 10 * 10 + n mod 10 = n"
  proof -
    have "n div 10 div 10 = n div 100" by (simp add: div_mult2_eq [symmetric])
    moreover have "n div 10 = n div 10 div 10 * 10 + n div 10 mod 10" by simp
    moreover have "n = n div 10 * 10 + n mod 10" by simp
    ultimately show ?thesis by linarith
  qed
  with n d show ?thesis
    by (simp add: parse_digits3_def pad3_explicit algebra_simps)
qed

lemma length_version_string [simp]: "wf_version v \<Longrightarrow> length (version_string v) = 12"
  by (simp add: version_string_def wf_version_def)

lemma parse_version_string:
  assumes "wf_version v"
  shows "parse_version (bytes_of (version_string v)) = Inr v"
proof -
  obtain ma mi where v: "v = Version ma mi" by (cases v)
  with assms have len: "length (pad3 ma) = 3" "length (pad3 mi) = 3" and "ma < 1000" "mi < 1000"
    by (simp_all add: wf_version_def)
  then obtain a b c d e f where pads: "pad3 ma = [a, b, c]" "pad3 mi = [d, e, f]"
    using len unfolding length_3_conv by blast
  have "parse_digits3 [a, b, c] = Inr ma" "parse_digits3 [d, e, f] = Inr mi"
    using pads parse_digits3_pad3 [OF \<open>ma < 1000\<close>] parse_digits3_pad3 [OF \<open>mi < 1000\<close>] by auto
  then show ?thesis
    using pads v by (simp add: parse_version_def version_string_def versionLineLen_def)
qed

text \<open>Conversely, only the printed form of a version parses.\<close>

lemma parse_digits_from_Inr:
  "parse_digits_from n s = Inr m \<Longrightarrow> list_all is_digit s"
  by (induction s arbitrary: n) (auto split: if_splits)

lemma parse_digits3_Inr:
  assumes "parse_digits3 [a, b, c] = Inr n"
  shows "n < 1000 \<and> pad3 n = [a, b, c]"
proof -
  have dig: "is_digit a" "is_digit b" "is_digit c"
    using parse_digits_from_Inr [of 0 "[a, b, c]" n] assms by (auto simp: parse_digits3_def)
  define x y z where "x = digit_val a" and "y = digit_val b" and "z = digit_val c"
  have lt: "x < 10" "y < 10" "z < 10"
    using dig by (simp_all add: x_def y_def z_def)
  have n: "n = x * 100 + y * 10 + z"
    using assms dig by (simp add: parse_digits3_def x_def y_def z_def algebra_simps)
  have e1: "n = (y * 10 + z) + x * 100" and e2: "n = z + (x * 10 + y) * 10"
    using n by simp_all
  have small: "y * 10 + z < 100"
    using lt by linarith
  have "n < 1000" using n lt by linarith
  moreover have "n div 100 = x"
    unfolding e1 div_mult_self1 [of 100, simplified] using small by simp
  moreover have "n div 10 = x * 10 + y"
    unfolding e2 using lt by (subst div_mult_self1) simp_all
  moreover have "n mod 10 = z"
    unfolding e2 using lt by (subst mod_mult_self1) simp
  moreover have "(x * 10 + y) mod 10 = y"
    using lt by (metis add.commute mod_less mod_mult_self1)
  ultimately show ?thesis
    using dig by (simp add: pad3_explicit x_def y_def z_def)
qed

lemma length_12_conv:
  "length xs = 12 \<longleftrightarrow> (\<exists>a b c d e f g h i j k l. xs = [a, b, c, d, e, f, g, h, i, j, k, l])"
  by (auto simp: eval_nat_numeral length_Suc_conv)

lemma parse_version_Inr:
  assumes "parse_version line = Inr v"
  shows "wf_version v \<and> line = bytes_of (version_string v)"
proof -
  have "length (string_of line) = 12"
    using assms by (auto simp: parse_version_def versionLineLen_def Let_def split: if_splits)
  then obtain a b c d e f g h i j k l where s: "string_of line = [a, b, c, d, e, f, g, h, i, j, k, l]"
    unfolding length_12_conv by blast
  then have len: "length line = 12"
    using length_string_of [of line] by simp
  from assms s len obtain ma mi where lit: "[a, b, c, d] = ''RFB ''" "h = CHR ''.''" "l = CHR 0x0A"
    and ma: "parse_digits3 [e, f, g] = Inr ma" and mi: "parse_digits3 [i, j, k] = Inr mi"
    and v: "v = Version ma mi"
    by (auto simp: parse_version_def versionLineLen_def Let_def split: if_splits sum.splits)
  have "string_of line = version_string v"
    using s lit v parse_digits3_Inr [OF ma] parse_digits3_Inr [OF mi]
    by (simp add: version_string_def)
  then have "line = bytes_of (version_string v)"
    by (metis bytes_of_string_of)
  with v parse_digits3_Inr [OF ma] parse_digits3_Inr [OF mi] show ?thesis
    by (simp add: wf_version_def)
qed

lemma parse_version_iff:
  "parse_version line = Inr v \<longleftrightarrow> wf_version v \<and> line = bytes_of (version_string v)"
  using parse_version_Inr parse_version_string by blast

section \<open>Reading a version off a stream\<close>

definition supported_version :: "version \<Rightarrow> bool" where
  "supported_version v \<longleftrightarrow> wf_version v \<and> V38 \<le> v"

lemma wf_V38 [simp]: "wf_version V38"
  by (simp add: wf_version_def V38_def)

lemma supported_V38 [simp]: "supported_version V38"
  by (simp add: supported_version_def)

lemma require_supported_iff: "require_supported_version v = Inr () \<longleftrightarrow> V38 \<le> v"
  by (auto simp: require_supported_version_def less_version_def [symmetric])

lemma require_supported_Inr [simp]: "V38 \<le> v \<Longrightarrow> require_supported_version v = Inr ()"
  by (simp add: require_supported_iff)

lemma read_version_stream [io_simps]:
  "supported_version v \<Longrightarrow>
   read_version stream_read_full (s\<lparr>avail := bytes_of (version_string v) @ r\<rparr>) =
     (Inr v, s\<lparr>avail := r\<rparr>)"
  by (simp add: read_version_def supported_version_def versionLineLen_def parse_version_string)

lemma read_version_stream_Inr:
  "read_version stream_read_full s = (Inr v, s') \<longleftrightarrow>
   supported_version v \<and> (\<exists>r. avail s = bytes_of (version_string v) @ r \<and> s' = s\<lparr>avail := r\<rparr>)"
  by (auto simp: read_version_def io_iffs stream_read_full_Inr parse_version_iff
      require_supported_iff supported_version_def versionLineLen_def)

text \<open>\<open>ReadVersion\<close> and \<open>WriteVersion\<close> are a codec for the supported versions.\<close>

interpretation version_wire: prefix_codec
  "\<lambda>v. bytes_of (version_string v)" "read_version stream_read_full" supported_version
proof
  fix m r e
  assume "supported_version m"
  then show "read_version stream_read_full \<lparr>avail = bytes_of (version_string m) @ r, fin = e\<rparr> =
      (Inr m, \<lparr>avail = r, fin = e\<rparr>)"
    using read_version_stream [of m r "\<lparr>avail = r, fin = e\<rparr>"] by simp
next
  fix s m s'
  assume "read_version stream_read_full s = (Inr m, s')"
  then show "supported_version m \<and> avail s = bytes_of (version_string m) @ avail s' \<and> fin s' = fin s"
    by (auto simp: read_version_stream_Inr)
next
  fix m
  assume "supported_version m"
  then show "bytes_of (version_string m) \<noteq> []"
    by (metis length_bytes_of length_version_string list.size(3) supported_version_def zero_neq_numeral)
qed

context reader_map
begin

lemma read_version_view: "map_prod id view (read_version rd s) = read_version rd' (view s)"
  unfolding read_version_def
  by (intro io_bind_view io_wrap_view read_view) auto

end

text \<open>\<open>ReadVersionLine\<close>: the same steps over a \<open>bufio.Reader\<close>.\<close>

definition read_version_line :: "(nat \<Rightarrow> 's \<Rightarrow> (bytes, 's) outcome) \<Rightarrow> 's \<Rightarrow> (version, 's) outcome" where
  "read_version_line rd s =
     io_bind (io_wrap (wrap_truncated ''version line'') (rd versionLineLen s)) (\<lambda>buf s.
     io_bind (io_check (parse_version buf) s) (\<lambda>v s.
     io_bind (io_check (require_supported_version v) s) (\<lambda>_ s.
     (Inr v, s))))"

section \<open>Properties of the version line\<close>

text \<open>
  the version parser is the exact inverse of the printer: a line parses to a version if
  and only if both its numbers have at most three digits and the line is that version's
  printed form. Signs, spaces, hexadecimal digits and other lengths never parse.
\<close>

theorem parse_version_inverts_print:
  "parse_version line = Inr v \<longleftrightarrow>
     Major v < 1000 \<and> Minor v < 1000 \<and> line = bytes_of (version_string v)"
  using parse_version_iff [of line v] by (simp add: wf_version_def conj_assoc)

text \<open>
  what \<open>ReadVersion\<close> (and its \<open>bufio\<close> twin) accepts: exactly the printed form of a
  version of at least 3.8, consuming those 12 bytes and no more.
\<close>

theorem read_version_accepts:
  "read_version stream_read_full s = (Inr v, s') \<longleftrightarrow>
     Major v < 1000 \<and> Minor v < 1000 \<and> \<not> version_less v V38 \<and>
     avail s = bytes_of (version_string v) @ avail s' \<and> s' = s\<lparr>avail := avail s'\<rparr> \<and>
     read_version_line stream_read_full s = (Inr v, s')"
proof -
  have line: "read_version_line stream_read_full s = read_version stream_read_full s"
    by (simp add: read_version_line_def read_version_def)
  show ?thesis
    unfolding line
    by (auto simp: read_version_stream_Inr supported_version_def wf_version_def
        less_version_def [symmetric] not_less)
qed

end
