(* ===== verification/Rfb_Security.thy ===== *)
theory Rfb_Security
  imports Rfb_Version
begin

text \<open>
  \<open>internal/rfb/sectypes.go\<close> and \<open>internal/rfb/result.go\<close>: the security-type
  list, the choice of a type, the SecurityResult word and the length-prefixed reason
  string, each with its reader, its writer and the law that they fit together.
\<close>

section \<open>Security types\<close>

type_synonym security_type = byte

definition SecTypeInvalid :: security_type where "SecTypeInvalid = 0"
definition SecTypeNone :: security_type where "SecTypeNone = 1"
definition SecTypeVNCAuth :: security_type where "SecTypeVNCAuth = 2"
definition SecTypeVeNCrypt :: security_type where "SecTypeVeNCrypt = 19"

lemmas sectype_defs [simp] =
  SecTypeInvalid_def SecTypeNone_def SecTypeVNCAuth_def SecTypeVeNCrypt_def

definition security_type_string :: "security_type \<Rightarrow> string" where
  "security_type_string t =
     (if t = SecTypeInvalid then ''Invalid(0)''
      else if t = SecTypeNone then ''None(1)''
      else if t = SecTypeVNCAuth then ''VNCAuth(2)''
      else if t = SecTypeVeNCrypt then ''VeNCrypt(19)''
      else ''Unknown('' @ show_nat (unat t) @ '')'')"

definition SupportedSecurityTypes :: "security_type list" where
  "SupportedSecurityTypes = [SecTypeNone, SecTypeVNCAuth]"

record security_type_list =
  Types :: "security_type list"
  Empty :: bool

definition read_security_type_list ::
    "(nat \<Rightarrow> 's \<Rightarrow> (bytes, 's) outcome) \<Rightarrow> 's \<Rightarrow> (security_type_list, 's) outcome" where
  "read_security_type_list rd s =
     io_bind (io_wrap (wrap_truncated ''security type list count'') (rd 1 s)) (\<lambda>nBuf s.
     let n = unat (hd nBuf) in
     if n = 0 then (Inr \<lparr>Types = [], Empty = True\<rparr>, s)
     else
       io_bind (io_wrap (wrap_truncated ''security type list entries'') (rd n s)) (\<lambda>buf s.
       (Inr \<lparr>Types = buf, Empty = False\<rparr>, s)))"

definition security_type_list_bytes :: "security_type list \<Rightarrow> bytes" where
  "security_type_list_bytes types = word_of_nat (length types) # types"

definition write_security_type_list ::
    "(bytes \<Rightarrow> 's \<Rightarrow> (unit, 's) outcome) \<Rightarrow> security_type list \<Rightarrow> 's \<Rightarrow> (unit, 's) outcome" where
  "write_security_type_list wr types s =
     (if length types > 255
      then (Inl (Errorf ''rfb: too many security types to encode: %d'' [length types]), s)
      else io_wrap (Wrapf ''rfb: write security type list'') (wr (security_type_list_bytes types) s))"

text \<open>
  \<open>SelectSecurityType\<close>: first the preferences that both sides have, then the first
  offered type that is supported. The two sets of the code are the sets of the lists.
\<close>

definition select_security_type ::
    "security_type list \<Rightarrow> security_type list \<Rightarrow> go_error + security_type" where
  "select_security_type offered supported =
     (case List.find (\<lambda>pref. pref \<in> set supported \<and> pref \<in> set offered) [SecTypeVNCAuth, SecTypeNone] of
        Some pref \<Rightarrow> Inr pref
      | None \<Rightarrow>
         (case List.find (\<lambda>t. t \<in> set supported) offered of
            Some t \<Rightarrow> Inr t
          | None \<Rightarrow> Inl (ErrNoSupportedSecurityType offered supported)))"

section \<open>Reason strings and the SecurityResult\<close>

definition maxReasonLen :: nat where
  "maxReasonLen = 2 ^ 20"

definition read_reason_string :: "(nat \<Rightarrow> 's \<Rightarrow> (bytes, 's) outcome) \<Rightarrow> 's \<Rightarrow> (string, 's) outcome" where
  "read_reason_string rd s =
     io_bind (io_wrap (wrap_truncated ''reason string length'') (rd 4 s)) (\<lambda>lenBuf s.
     let len = unat (get_u32 lenBuf) in
     if len > maxReasonLen
     then (Inl (Errorf ''rfb: reason string length %d exceeds sanity limit %d'' [len, maxReasonLen]), s)
     else
       io_bind (io_wrap (wrap_truncated ''reason string body'') (rd len s)) (\<lambda>buf s.
       (Inr (string_of buf), s)))"

definition write_reason_string ::
    "(bytes \<Rightarrow> 's \<Rightarrow> (unit, 's) outcome) \<Rightarrow> string \<Rightarrow> 's \<Rightarrow> (unit, 's) outcome" where
  "write_reason_string wr reason s =
     (let body = bytes_of reason in
      io_bind (io_wrap (Wrapf ''rfb: write reason string length'')
                 (wr (put_u32 (word_of_nat (length body))) s)) (\<lambda>_ s.
      io_wrap (Wrapf ''rfb: write reason string body'') (wr body s)))"

type_synonym security_result = u32

definition SecurityResultOK :: security_result where "SecurityResultOK = 0"
definition SecurityResultFailed :: security_result where "SecurityResultFailed = 1"

definition result_OK :: "security_result \<Rightarrow> bool" where
  "result_OK r \<longleftrightarrow> r = SecurityResultOK"

definition read_security_result ::
    "(nat \<Rightarrow> 's \<Rightarrow> (bytes, 's) outcome) \<Rightarrow> version \<Rightarrow> 's \<Rightarrow> (security_result \<times> string, 's) outcome" where
  "read_security_result rd v s =
     io_bind (io_wrap (wrap_truncated ''security result'') (rd 4 s)) (\<lambda>buf s.
     let result = get_u32 buf in
     if result_OK result then (Inr (result, ''''), s)
     else if \<not> version_at_least v V38 then (Inr (result, ''''), s)
     else io_bind (read_reason_string rd s) (\<lambda>reason s. (Inr (result, reason), s)))"

definition write_security_result ::
    "(bytes \<Rightarrow> 's \<Rightarrow> (unit, 's) outcome) \<Rightarrow> security_result \<Rightarrow> 's \<Rightarrow> (unit, 's) outcome" where
  "write_security_result wr result s =
     io_wrap (Wrapf ''rfb: write security result'') (wr (put_u32 result) s)"

definition write_security_result_ok :: "(bytes \<Rightarrow> 's \<Rightarrow> (unit, 's) outcome) \<Rightarrow> 's \<Rightarrow> (unit, 's) outcome" where
  "write_security_result_ok wr s = write_security_result wr SecurityResultOK s"

definition write_security_result_failed ::
    "(bytes \<Rightarrow> 's \<Rightarrow> (unit, 's) outcome) \<Rightarrow> string \<Rightarrow> 's \<Rightarrow> (unit, 's) outcome" where
  "write_security_result_failed wr reason s =
     io_bind (write_security_result wr SecurityResultFailed s) (\<lambda>_ s.
     write_reason_string wr reason s)"

section \<open>The list is a codec\<close>

definition wf_security_type_list :: "security_type_list \<Rightarrow> bool" where
  "wf_security_type_list l \<longleftrightarrow> length (Types l) \<le> 255 \<and> (Empty l \<longleftrightarrow> Types l = [])"

lemma read_security_type_list_stream [io_simps]:
  "ts \<noteq> [] \<Longrightarrow> length ts \<le> 255 \<Longrightarrow>
   read_security_type_list stream_read_full (s\<lparr>avail := security_type_list_bytes ts @ r\<rparr>) =
     (Inr \<lparr>Types = ts, Empty = False\<rparr>, s\<lparr>avail := r\<rparr>)"
  by (simp add: read_security_type_list_def security_type_list_bytes_def)

lemma read_empty_security_type_list_stream [io_simps]:
  "read_security_type_list stream_read_full (s\<lparr>avail := 0 # r\<rparr>) =
     (Inr \<lparr>Types = [], Empty = True\<rparr>, s\<lparr>avail := r\<rparr>)"
  by (simp add: read_security_type_list_def)

lemma read_security_type_list_Inr:
  "read_security_type_list stream_read_full s = (Inr l, s') \<longleftrightarrow>
   wf_security_type_list l \<and>
   (\<exists>r. avail s = security_type_list_bytes (Types l) @ r \<and> s' = s\<lparr>avail := r\<rparr>)"
  (is "?lhs \<longleftrightarrow> ?rhs")
proof
  assume ?lhs
  then show ?rhs
    by (auto simp: read_security_type_list_def io_iffs stream_read_full_Inr Let_def
        wf_security_type_list_def security_type_list_bytes_def length_Suc_conv unsigned_eq_0_iff
        split: if_splits)
next
  assume r: ?rhs
  then obtain rest where s': "s' = s\<lparr>avail := rest\<rparr>"
    and s: "s = s\<lparr>avail := security_type_list_bytes (Types l) @ rest\<rparr>"
    by (metis stream_with_avail)
  show ?lhs
  proof (cases "Types l")
    case Nil
    then show ?thesis
      using r s' by (subst s) (cases l, simp add: read_empty_security_type_list_stream
        wf_security_type_list_def security_type_list_bytes_def)
  next
    case Cons
    then show ?thesis
      using r s' by (subst s) (cases l, simp add: read_security_type_list_stream
        wf_security_type_list_def)
  qed
qed

interpretation security_type_list_wire: prefix_codec
  "\<lambda>l. security_type_list_bytes (Types l)" "read_security_type_list stream_read_full"
  wf_security_type_list
proof
  fix m r e
  assume "wf_security_type_list m"
  then show "read_security_type_list stream_read_full
      \<lparr>avail = security_type_list_bytes (Types m) @ r, fin = e\<rparr> = (Inr m, \<lparr>avail = r, fin = e\<rparr>)"
    by (simp add: read_security_type_list_Inr)
next
  fix s m s'
  assume "read_security_type_list stream_read_full s = (Inr m, s')"
  then show "wf_security_type_list m \<and> avail s = security_type_list_bytes (Types m) @ avail s' \<and>
      fin s' = fin s"
    by (auto simp: read_security_type_list_Inr)
next
  fix m
  show "security_type_list_bytes (Types m) \<noteq> []"
    by (simp add: security_type_list_bytes_def)
qed

section \<open>Reason strings and results are codecs\<close>

definition reason_bytes :: "string \<Rightarrow> bytes" where
  "reason_bytes reason = put_u32 (word_of_nat (length reason)) @ bytes_of reason"

definition wf_reason :: "string \<Rightarrow> bool" where
  "wf_reason reason \<longleftrightarrow> length reason \<le> maxReasonLen"

lemma read_reason_string_stream [io_simps]:
  "wf_reason reason \<Longrightarrow>
   read_reason_string stream_read_full (s\<lparr>avail := reason_bytes reason @ r\<rparr>) =
     (Inr reason, s\<lparr>avail := r\<rparr>)"
  by (simp add: read_reason_string_def reason_bytes_def wf_reason_def maxReasonLen_def)

lemma read_reason_string_sound:
  assumes "read_reason_string stream_read_full s = (Inr reason, s')"
  shows "wf_reason reason \<and> (\<exists>r. avail s = reason_bytes reason @ r \<and> s' = s\<lparr>avail := r\<rparr>)"
proof -
  from assms obtain l b r where "length l = 4" and "avail s = l @ b @ r" and "length b = unat (get_u32 l)"
    and "length b \<le> maxReasonLen" and "reason = string_of b" and "s' = s\<lparr>avail := r\<rparr>"
    by (auto simp: read_reason_string_def io_iffs stream_read_full_Inr Let_def split: if_splits)
  then show ?thesis
    by (auto simp: wf_reason_def reason_bytes_def put_get_u32)
qed

interpretation reason_wire: prefix_codec reason_bytes "read_reason_string stream_read_full" wf_reason
proof
  fix m r e
  assume "wf_reason m"
  then show "read_reason_string stream_read_full \<lparr>avail = reason_bytes m @ r, fin = e\<rparr> =
      (Inr m, \<lparr>avail = r, fin = e\<rparr>)"
    using read_reason_string_stream [of m r "\<lparr>avail = r, fin = e\<rparr>"] by simp
next
  fix s m s'
  assume "read_reason_string stream_read_full s = (Inr m, s')"
  then show "wf_reason m \<and> avail s = reason_bytes m @ avail s' \<and> fin s' = fin s"
    by (auto dest: read_reason_string_sound)
next
  fix m
  show "reason_bytes m \<noteq> []"
    by (simp add: reason_bytes_def put_u32_def)
qed

text \<open>A SecurityResult with its reason: only a failure is followed by one.\<close>

fun security_result_bytes :: "security_result \<times> string \<Rightarrow> bytes" where
  "security_result_bytes (result, reason) =
     put_u32 result @ (if result_OK result then [] else reason_bytes reason)"

fun wf_security_result :: "security_result \<times> string \<Rightarrow> bool" where
  "wf_security_result (result, reason) \<longleftrightarrow>
     (if result_OK result then reason = '''' else wf_reason reason)"

lemma read_security_result_stream [io_simps]:
  assumes "wf_security_result x" and "V38 \<le> v"
  shows "read_security_result stream_read_full v (s\<lparr>avail := security_result_bytes x @ r\<rparr>) =
     (Inr x, s\<lparr>avail := r\<rparr>)"
proof (cases x)
  case (Pair result reason)
  with assms show ?thesis
    by (cases "result_OK result")
      (simp_all add: read_security_result_def version_at_least_le read_reason_string_stream)
qed

lemma read_security_result_sound:
  assumes "read_security_result stream_read_full v s = (Inr x, s')" and "V38 \<le> v"
  shows "wf_security_result x \<and> (\<exists>r. avail s = security_result_bytes x @ r \<and> s' = s\<lparr>avail := r\<rparr>)"
proof -
  from assms(1) obtain l s1 where rd: "stream_read_full 4 s = (Inr l, s1)"
    unfolding read_security_result_def io_bind_Inr_iff [of "io_wrap _ _"] io_wrap_Inr_iff by blast
  then obtain r where l: "length l = 4" and s: "avail s = l @ r" and s1: "s1 = s\<lparr>avail := r\<rparr>"
    by (auto simp: stream_read_full_Inr)
  have rest: "(if result_OK (get_u32 l) then (Inr (get_u32 l, []), s1)
      else io_bind (read_reason_string stream_read_full s1)
        (\<lambda>reason s. (Inr (get_u32 l, reason), s))) = (Inr x, s')"
    using assms rd
    by (simp add: read_security_result_def Let_def version_at_least_le cong: if_cong)
  show ?thesis
  proof (cases "result_OK (get_u32 l)")
    case True
    with rest l s s1 show ?thesis
      by (auto simp: put_get_u32)
  next
    case False
    with rest obtain reason where x: "x = (get_u32 l, reason)"
      and "read_reason_string stream_read_full s1 = (Inr reason, s')"
      by (auto simp: io_bind_Inr_iff)
    from read_reason_string_sound [OF this(2)] False l s s1 x show ?thesis
      by (auto simp: put_get_u32)
  qed
qed

interpretation security_result_wire: prefix_codec
  security_result_bytes "read_security_result stream_read_full V38" wf_security_result
proof
  fix m r e
  assume "wf_security_result m"
  then show "read_security_result stream_read_full V38
      \<lparr>avail = security_result_bytes m @ r, fin = e\<rparr> = (Inr m, \<lparr>avail = r, fin = e\<rparr>)"
    using read_security_result_stream [of m V38 r "\<lparr>avail = r, fin = e\<rparr>"] by simp
next
  fix s m s'
  assume "read_security_result stream_read_full V38 s = (Inr m, s')"
  then show "wf_security_result m \<and> avail s = security_result_bytes m @ avail s' \<and> fin s' = fin s"
    using read_security_result_sound [of V38 s m s'] by auto
next
  fix m :: "security_result \<times> string"
  show "security_result_bytes m \<noteq> []"
    by (cases m) (simp add: put_u32_def)
qed

section \<open>The readers over any source\<close>

context reader_map
begin

lemma read_security_type_list_view:
  "map_prod id view (read_security_type_list rd s) = read_security_type_list rd' (view s)"
  unfolding read_security_type_list_def Let_def
  by (intro io_bind_view io_wrap_view read_view) (auto intro!: io_bind_view io_wrap_view read_view)

lemma read_reason_string_view:
  "map_prod id view (read_reason_string rd s) = read_reason_string rd' (view s)"
  unfolding read_reason_string_def Let_def
  by (intro io_bind_view io_wrap_view read_view) (auto intro!: io_bind_view io_wrap_view read_view)

lemma read_security_result_view:
  "map_prod id view (read_security_result rd v s) = read_security_result rd' v (view s)"
  unfolding read_security_result_def Let_def
  by (intro io_bind_view io_wrap_view read_view)
    (auto intro!: io_bind_view read_reason_string_view)

end

section \<open>The choice of a type\<close>

lemma select_security_type_Inr:
  "select_security_type offered supported = Inr t \<Longrightarrow> t \<in> set offered \<and> t \<in> set supported"
  by (auto simp: select_security_type_def dest: find_SomeD split: option.splits if_splits)

lemma select_security_type_fails_iff:
  "select_security_type offered supported = Inl (ErrNoSupportedSecurityType offered supported) \<longleftrightarrow>
   set offered \<inter> set supported = {}"
  by (auto simp: select_security_type_def find_None_iff dest!: find_SomeD
      split: option.splits if_splits)

text \<open>With the plugin's own supported list the choice is determined by what is offered.\<close>

lemma select_supported:
  "select_security_type offered SupportedSecurityTypes =
     (if SecTypeVNCAuth \<in> set offered then Inr SecTypeVNCAuth
      else if SecTypeNone \<in> set offered then Inr SecTypeNone
      else Inl (ErrNoSupportedSecurityType offered SupportedSecurityTypes))"
proof -
  have "List.find (\<lambda>t. t = 1 \<or> t = 2) offered = None" if "2 \<notin> set offered" "1 \<notin> set offered"
    using that by (auto simp: find_None_iff)
  then show ?thesis
    by (auto simp: select_security_type_def SupportedSecurityTypes_def)
qed

section \<open>Properties of the security fields\<close>

text \<open>
  the reader of the security-type list accepts exactly what its writer produces: every
  list of at most 255 types is read back as it was written, with its empty flag, and what
  follows is left on the stream.
\<close>

theorem security_type_list_roundtrip:
  assumes "length types \<le> 255" and "wr_left c = None"
  shows "write_security_type_list conn_write types c = (Inr (), c\<lparr>sent := sent c @ security_type_list_bytes types\<rparr>) \<and>
    read_security_type_list stream_read_full \<lparr>avail = security_type_list_bytes types @ r, fin = e\<rparr> =
      (Inr \<lparr>Types = types, Empty = (types = [])\<rparr>, \<lparr>avail = r, fin = e\<rparr>)"
proof
  show "write_security_type_list conn_write types c = (Inr (), c\<lparr>sent := sent c @ security_type_list_bytes types\<rparr>)"
    using assms by (simp add: write_security_type_list_def)
  show "read_security_type_list stream_read_full \<lparr>avail = security_type_list_bytes types @ r, fin = e\<rparr> =
      (Inr \<lparr>Types = types, Empty = (types = [])\<rparr>, \<lparr>avail = r, fin = e\<rparr>)"
    using security_type_list_wire.dec_enc [of "\<lparr>Types = types, Empty = (types = [])\<rparr>" r e] assms(1)
    by (simp add: wf_security_type_list_def)
qed

definition idle_conn :: conn where
  "idle_conn = \<lparr>avail = [], fin = EOF, sent = [], wr_left = None, wr_err = ErrClosed\<rparr>"

theorem security_type_list_roundtrip_witness:
  "write_security_type_list conn_write [1, 2] idle_conn = (Inr (), idle_conn\<lparr>sent := [2, 1, 2]\<rparr>) \<and>
   read_security_type_list stream_read_full \<lparr>avail = [2, 1, 2, 9], fin = EOF\<rparr> =
     (Inr \<lparr>Types = [1, 2], Empty = False\<rparr>, \<lparr>avail = [9], fin = EOF\<rparr>)"
  using security_type_list_roundtrip [of "[1, 2]" idle_conn "[9]" EOF]
  by (simp add: security_type_list_bytes_def idle_conn_def)

text \<open>
  what a failing SecurityResult writes is what its reader reads, reason included, for
  every reason within the sanity limit; and nothing else on the wire reads as that result.
\<close>

theorem security_result_failed_roundtrip:
  assumes "length reason \<le> maxReasonLen" and "wr_left c = None"
  shows "\<exists>b. write_security_result_failed conn_write reason c = (Inr (), c\<lparr>sent := sent c @ b\<rparr>) \<and>
    (\<forall>(s :: stream) s'. read_security_result stream_read_full V38 s = (Inr (SecurityResultFailed, reason), s') \<longleftrightarrow>
       avail s = b @ avail s' \<and> s' = s\<lparr>avail := avail s'\<rparr>)"
proof (intro exI conjI allI)
  let ?b = "security_result_bytes (SecurityResultFailed, reason)"
  have wf: "wf_security_result (SecurityResultFailed, reason)"
    using assms(1) by (simp add: wf_reason_def result_OK_def SecurityResultOK_def SecurityResultFailed_def)
  show "write_security_result_failed conn_write reason c = (Inr (), c\<lparr>sent := sent c @ ?b\<rparr>)"
    using assms(2)
    by (simp add: write_security_result_failed_def write_security_result_def write_reason_string_def
        reason_bytes_def result_OK_def SecurityResultOK_def SecurityResultFailed_def)
  fix s s' :: stream
  show "read_security_result stream_read_full V38 s = (Inr (SecurityResultFailed, reason), s') \<longleftrightarrow>
      avail s = ?b @ avail s' \<and> s' = s\<lparr>avail := avail s'\<rparr>" (is "?l \<longleftrightarrow> ?r")
  proof
    assume ?l
    then show ?r
      using read_security_result_sound [of V38 s "(SecurityResultFailed, reason)" s'] by auto
  next
    assume r: ?r
    then have eq: "s\<lparr>avail := ?b @ avail s'\<rparr> = s" by (metis stream_with_avail)
    from read_security_result_stream [OF wf order_refl, of "avail s'" s] r show ?l
      unfolding eq by simp
  qed
qed

theorem security_result_failed_roundtrip_witness:
  "\<exists>b. write_security_result_failed conn_write ''no'' idle_conn = (Inr (), idle_conn\<lparr>sent := [] @ b\<rparr>) \<and>
    (\<forall>s s'. read_security_result stream_read_full V38 s = (Inr (SecurityResultFailed, ''no''), s') \<longleftrightarrow>
       avail (s :: stream) = b @ avail s' \<and> s' = s\<lparr>avail := avail s'\<rparr>)"
  using security_result_failed_roundtrip [of "''no''" idle_conn]
  by (simp add: idle_conn_def maxReasonLen_def)

text \<open>
  the choice of a security type: VNCAuth if offered, else None if offered, else an
  error naming what was offered; for any other supported list, the choice is offered and
  supported, and there is an error only if no offered type is supported.
\<close>

theorem select_security_type_spec:
  "select_security_type offered SupportedSecurityTypes =
     (if SecTypeVNCAuth \<in> set offered then Inr SecTypeVNCAuth
      else if SecTypeNone \<in> set offered then Inr SecTypeNone
      else Inl (ErrNoSupportedSecurityType offered SupportedSecurityTypes)) \<and>
   (case select_security_type offered supported of
      Inr t \<Rightarrow> t \<in> set offered \<inter> set supported
    | Inl _ \<Rightarrow> set offered \<inter> set supported = {})"
proof
  show "case select_security_type offered supported of
      Inr t \<Rightarrow> t \<in> set offered \<inter> set supported
    | Inl _ \<Rightarrow> set offered \<inter> set supported = {}"
    by (auto simp: select_security_type_def find_None_iff dest!: find_SomeD
        split: sum.splits option.splits if_splits)
qed (rule select_supported)

end
