(* ===== verification/DES.thy ===== *)
theory DES
  imports Prelude
begin

text \<open>
  The block cipher of Go's \<open>crypto/des\<close>, which \<open>VNCAuthResponse\<close> calls: FIPS 46-3
  DES on one 8-byte block under an 8-byte key, on lists of bits, most significant bit
  first. The tables are those of the standard, with its 1-based bit numbers.
\<close>

section \<open>Tables\<close>

definition initial_permutation :: "nat list" where
  "initial_permutation =
   [58, 50, 42, 34, 26, 18, 10, 2, 60, 52, 44, 36, 28, 20, 12, 4,
    62, 54, 46, 38, 30, 22, 14, 6, 64, 56, 48, 40, 32, 24, 16, 8,
    57, 49, 41, 33, 25, 17, 9, 1, 59, 51, 43, 35, 27, 19, 11, 3,
    61, 53, 45, 37, 29, 21, 13, 5, 63, 55, 47, 39, 31, 23, 15, 7]"

definition final_permutation :: "nat list" where
  "final_permutation =
   [40, 8, 48, 16, 56, 24, 64, 32, 39, 7, 47, 15, 55, 23, 63, 31,
    38, 6, 46, 14, 54, 22, 62, 30, 37, 5, 45, 13, 53, 21, 61, 29,
    36, 4, 44, 12, 52, 20, 60, 28, 35, 3, 43, 11, 51, 19, 59, 27,
    34, 2, 42, 10, 50, 18, 58, 26, 33, 1, 41, 9, 49, 17, 57, 25]"

definition expansion :: "nat list" where
  "expansion =
   [32, 1, 2, 3, 4, 5, 4, 5, 6, 7, 8, 9, 8, 9, 10, 11,
    12, 13, 12, 13, 14, 15, 16, 17, 16, 17, 18, 19, 20, 21, 20, 21,
    22, 23, 24, 25, 24, 25, 26, 27, 28, 29, 28, 29, 30, 31, 32, 1]"

definition round_permutation :: "nat list" where
  "round_permutation =
   [16, 7, 20, 21, 29, 12, 28, 17, 1, 15, 23, 26, 5, 18, 31, 10,
    2, 8, 24, 14, 32, 27, 3, 9, 19, 13, 30, 6, 22, 11, 4, 25]"

definition permuted_choice1 :: "nat list" where
  "permuted_choice1 =
   [57, 49, 41, 33, 25, 17, 9, 1, 58, 50, 42, 34, 26, 18, 10, 2,
    59, 51, 43, 35, 27, 19, 11, 3, 60, 52, 44, 36, 63, 55, 47, 39,
    31, 23, 15, 7, 62, 54, 46, 38, 30, 22, 14, 6, 61, 53, 45, 37,
    29, 21, 13, 5, 28, 20, 12, 4]"

definition permuted_choice2 :: "nat list" where
  "permuted_choice2 =
   [14, 17, 11, 24, 1, 5, 3, 28, 15, 6, 21, 10, 23, 19, 12, 4,
    26, 8, 16, 7, 27, 20, 13, 2, 41, 52, 31, 37, 47, 55, 30, 40,
    51, 45, 33, 48, 44, 49, 39, 56, 34, 53, 46, 42, 50, 36, 29, 32]"

definition key_shifts :: "nat list" where
  "key_shifts =
   [1, 1, 2, 2, 2, 2, 2, 2, 1, 2, 2, 2, 2, 2, 2, 1]"

definition s_boxes :: "nat list list" where
  "s_boxes =
   [[14, 4, 13, 1, 2, 15, 11, 8, 3, 10, 6, 12, 5, 9, 0, 7,
     0, 15, 7, 4, 14, 2, 13, 1, 10, 6, 12, 11, 9, 5, 3, 8,
     4, 1, 14, 8, 13, 6, 2, 11, 15, 12, 9, 7, 3, 10, 5, 0,
     15, 12, 8, 2, 4, 9, 1, 7, 5, 11, 3, 14, 10, 0, 6, 13],
    [15, 1, 8, 14, 6, 11, 3, 4, 9, 7, 2, 13, 12, 0, 5, 10,
     3, 13, 4, 7, 15, 2, 8, 14, 12, 0, 1, 10, 6, 9, 11, 5,
     0, 14, 7, 11, 10, 4, 13, 1, 5, 8, 12, 6, 9, 3, 2, 15,
     13, 8, 10, 1, 3, 15, 4, 2, 11, 6, 7, 12, 0, 5, 14, 9],
    [10, 0, 9, 14, 6, 3, 15, 5, 1, 13, 12, 7, 11, 4, 2, 8,
     13, 7, 0, 9, 3, 4, 6, 10, 2, 8, 5, 14, 12, 11, 15, 1,
     13, 6, 4, 9, 8, 15, 3, 0, 11, 1, 2, 12, 5, 10, 14, 7,
     1, 10, 13, 0, 6, 9, 8, 7, 4, 15, 14, 3, 11, 5, 2, 12],
    [7, 13, 14, 3, 0, 6, 9, 10, 1, 2, 8, 5, 11, 12, 4, 15,
     13, 8, 11, 5, 6, 15, 0, 3, 4, 7, 2, 12, 1, 10, 14, 9,
     10, 6, 9, 0, 12, 11, 7, 13, 15, 1, 3, 14, 5, 2, 8, 4,
     3, 15, 0, 6, 10, 1, 13, 8, 9, 4, 5, 11, 12, 7, 2, 14],
    [2, 12, 4, 1, 7, 10, 11, 6, 8, 5, 3, 15, 13, 0, 14, 9,
     14, 11, 2, 12, 4, 7, 13, 1, 5, 0, 15, 10, 3, 9, 8, 6,
     4, 2, 1, 11, 10, 13, 7, 8, 15, 9, 12, 5, 6, 3, 0, 14,
     11, 8, 12, 7, 1, 14, 2, 13, 6, 15, 0, 9, 10, 4, 5, 3],
    [12, 1, 10, 15, 9, 2, 6, 8, 0, 13, 3, 4, 14, 7, 5, 11,
     10, 15, 4, 2, 7, 12, 9, 5, 6, 1, 13, 14, 0, 11, 3, 8,
     9, 14, 15, 5, 2, 8, 12, 3, 7, 0, 4, 10, 1, 13, 11, 6,
     4, 3, 2, 12, 9, 5, 15, 10, 11, 14, 1, 7, 6, 0, 8, 13],
    [4, 11, 2, 14, 15, 0, 8, 13, 3, 12, 9, 7, 5, 10, 6, 1,
     13, 0, 11, 7, 4, 9, 1, 10, 14, 3, 5, 12, 2, 15, 8, 6,
     1, 4, 11, 13, 12, 3, 7, 14, 10, 15, 6, 8, 0, 5, 9, 2,
     6, 11, 13, 8, 1, 4, 10, 7, 9, 5, 0, 15, 14, 2, 3, 12],
    [13, 2, 8, 4, 6, 15, 11, 1, 10, 9, 3, 14, 5, 0, 12, 7,
     1, 15, 13, 8, 10, 3, 7, 4, 12, 5, 6, 11, 0, 14, 9, 2,
     7, 11, 4, 1, 9, 12, 14, 2, 0, 6, 10, 13, 15, 3, 5, 8,
     2, 1, 14, 7, 4, 10, 8, 13, 15, 12, 9, 0, 3, 5, 6, 11]]"

section \<open>The cipher\<close>

text \<open>Bit \<open>i\<close> of the result is bit \<open>t!i\<close> of the argument, counted from 1.\<close>

definition permute :: "nat list \<Rightarrow> bool list \<Rightarrow> bool list" where
  "permute t b = map (\<lambda>i. b ! (i - 1)) t"

definition xor_bits :: "bool list \<Rightarrow> bool list \<Rightarrow> bool list" where
  "xor_bits a b = map2 (\<noteq>) a b"

definition bits_nat :: "bool list \<Rightarrow> nat" where
  "bits_nat bs = horner_sum of_bool 2 (rev bs)"

definition nibble_bits :: "nat \<Rightarrow> bool list" where
  "nibble_bits n = [n div 8 mod 2 = 1, n div 4 mod 2 = 1, n div 2 mod 2 = 1, n mod 2 = 1]"

text \<open>One S-box: the outer two bits choose the row, the inner four the column.\<close>

fun s_box :: "nat list \<Rightarrow> bool list \<Rightarrow> bool list" where
  "s_box box [a, b, c, d, e, f] = nibble_bits (box ! (bits_nat [a, f] * 16 + bits_nat [b, c, d, e]))"
| "s_box box _ = nibble_bits 0"

fun s_layer :: "nat list list \<Rightarrow> bool list \<Rightarrow> bool list" where
  "s_layer [] bs = []"
| "s_layer (box # boxes) bs = s_box box (take 6 bs) @ s_layer boxes (drop 6 bs)"

definition feistel :: "bool list \<Rightarrow> bool list \<Rightarrow> bool list" where
  "feistel k r = permute round_permutation (s_layer s_boxes (xor_bits (permute expansion r) k))"

text \<open>The sixteen round keys: the two key halves rotated and sampled.\<close>

fun key_schedule :: "nat list \<Rightarrow> bool list \<Rightarrow> bool list \<Rightarrow> bool list list" where
  "key_schedule [] c d = []"
| "key_schedule (n # ns) c d =
     (let c' = rotate n c; d' = rotate n d
      in permute permuted_choice2 (c' @ d') # key_schedule ns c' d')"

definition round_keys :: "bool list \<Rightarrow> bool list list" where
  "round_keys key =
     (let k = permute permuted_choice1 key in key_schedule key_shifts (take 28 k) (drop 28 k))"

fun rounds :: "bool list list \<Rightarrow> bool list \<times> bool list \<Rightarrow> bool list \<times> bool list" where
  "rounds [] lr = lr"
| "rounds (k # ks) (l, r) = rounds ks (r, xor_bits l (feistel k r))"

definition crypt_block :: "bool list list \<Rightarrow> bool list \<Rightarrow> bool list" where
  "crypt_block ks b =
     (let p = permute initial_permutation b; lr = rounds ks (take 32 p, drop 32 p)
      in permute final_permutation (snd lr @ fst lr))"

section \<open>Blocks of bytes\<close>

definition byte_bits :: "byte \<Rightarrow> bool list" where
  "byte_bits b = map (bit b) [7, 6, 5, 4, 3, 2, 1, 0]"

definition bits_byte :: "bool list \<Rightarrow> byte" where
  "bits_byte bs = horner_sum of_bool 2 (rev bs)"

definition block_bits :: "bytes \<Rightarrow> bool list" where
  "block_bits bs = concat (map byte_bits bs)"

fun bits_block :: "bool list \<Rightarrow> bytes" where
  "bits_block [] = []"
| "bits_block (a # b # c # d # e # f # g # h # bs) = bits_byte [a, b, c, d, e, f, g, h] # bits_block bs"
| "bits_block bs = [bits_byte bs]"

definition des_encrypt :: "bytes \<Rightarrow> bytes \<Rightarrow> bytes" where
  "des_encrypt key block = bits_block (crypt_block (round_keys (block_bits key)) (block_bits block))"

definition des_decrypt :: "bytes \<Rightarrow> bytes \<Rightarrow> bytes" where
  "des_decrypt key block = bits_block (crypt_block (rev (round_keys (block_bits key))) (block_bits block))"

section \<open>Bits and bytes\<close>

lemma length_permute [simp]: "length (permute t b) = length t"
  by (simp add: permute_def)

lemma length_xor_bits [simp]: "length (xor_bits a b) = min (length a) (length b)"
  by (simp add: xor_bits_def)

lemma length_byte_bits [simp]: "length (byte_bits b) = 8"
  by (simp add: byte_bits_def)

lemma length_block_bits [simp]: "length (block_bits bs) = 8 * length bs"
  by (induction bs) (simp_all add: block_bits_def)

lemma byte_bits_rev: "byte_bits b = rev (map (bit b) [0..<8])"
  by (simp add: byte_bits_def upt_rec eval_nat_numeral)

lemma bits_byte_byte_bits [simp]: "bits_byte (byte_bits b) = b"
  by (simp add: bits_byte_def byte_bits_rev horner_sum_bit_eq_take_bit)
    (metis len_num1 take_bit_length_eq len_bit0 mult_2 numeral_Bit0 one_add_one)

lemma byte_bits_bits_byte:
  assumes "length bs = 8"
  shows "byte_bits (bits_byte bs) = bs"
proof (rule nth_equalityI)
  show "length (byte_bits (bits_byte bs)) = length bs"
    using assms by simp
  fix i
  assume "i < length (byte_bits (bits_byte bs))"
  then have "i < 8" by simp
  with assms show "byte_bits (bits_byte bs) ! i = bs ! i"
    by (auto simp: byte_bits_rev bits_byte_def rev_nth bit_simps)
qed

lemma bits_block_byte_bits [simp]: "bits_block (byte_bits b @ bs) = b # bits_block bs"
  by (simp add: byte_bits_def bits_byte_byte_bits [unfolded byte_bits_def, simplified])

lemma bits_block_block_bits [simp]: "bits_block (block_bits bs) = bs"
  by (induction bs) (simp_all add: block_bits_def)

lemma length_8_conv: "length xs = 8 \<longleftrightarrow> (\<exists>a b c d e f g h. xs = [a, b, c, d, e, f, g, h])"
  by (auto simp: eval_nat_numeral length_Suc_conv)

lemma block_bits_bits_block:
  "length bs = 8 * n \<Longrightarrow> block_bits (bits_block bs) = bs \<and> length (bits_block bs) = n"
proof (induction n arbitrary: bs)
  case 0
  then show ?case by (simp add: block_bits_def)
next
  case (Suc n)
  then have "length (take 8 bs) = 8" by simp
  then obtain a b c d e f g h where t: "take 8 bs = [a, b, c, d, e, f, g, h]"
    unfolding length_8_conv by blast
  define rest where "rest = drop 8 bs"
  have bs: "bs = [a, b, c, d, e, f, g, h] @ rest"
    unfolding rest_def t [symmetric] by simp
  with Suc.prems have "length rest = 8 * n" by simp
  then have "block_bits (bits_block rest) = rest \<and> length (bits_block rest) = n"
    by (rule Suc.IH)
  moreover have "byte_bits (bits_byte [a, b, c, d, e, f, g, h]) = [a, b, c, d, e, f, g, h]"
    by (rule byte_bits_bits_byte) simp
  ultimately show ?case
    by (simp add: bs block_bits_def)
qed

section \<open>Decryption inverts encryption\<close>

text \<open>Two tables are inverse when the indices compose to the identity.\<close>

lemma permute_inverse:
  assumes "map (\<lambda>i. u ! (i - 1) - 1) t = [0..<n]" and "list_all (\<lambda>i. i - 1 < length u) t"
    and "length b = n"
  shows "permute t (permute u b) = b"
proof -
  have "permute t (permute u b) = map (\<lambda>i. b ! (u ! (i - 1) - 1)) t"
    using assms(2) by (auto simp: permute_def list_all_iff)
  also have "\<dots> = map (\<lambda>i. b ! i) (map (\<lambda>i. u ! (i - 1) - 1) t)"
    by simp
  also have "\<dots> = b"
    unfolding assms(1) using assms(3) map_nth [of b] by simp
  finally show ?thesis .
qed

lemma permutation_lengths [simp]:
  "length initial_permutation = 64" "length final_permutation = 64" "length round_permutation = 32"
  by (simp_all add: initial_permutation_def final_permutation_def round_permutation_def)

lemma final_initial [simp]:
  "length b = 64 \<Longrightarrow> permute final_permutation (permute initial_permutation b) = b"
  by (rule permute_inverse [where n = 64], code_simp, code_simp, assumption)

lemma initial_final [simp]:
  "length b = 64 \<Longrightarrow> permute initial_permutation (permute final_permutation b) = b"
  by (rule permute_inverse [where n = 64], code_simp, code_simp, assumption)

lemma xor_bits_cancel [simp]: "length l = length f \<Longrightarrow> xor_bits (xor_bits l f) f = l"
  by (induction l f rule: list_induct2) (auto simp: xor_bits_def)

lemma length_feistel [simp]: "length (feistel k r) = 32"
  by (simp add: feistel_def)

lemma rounds_append: "rounds (ks @ ks') lr = rounds ks' (rounds ks lr)"
  by (induction ks lr rule: rounds.induct) simp_all

lemma length_rounds:
  "length (fst lr) = 32 \<Longrightarrow> length (snd lr) = 32 \<Longrightarrow>
   length (fst (rounds ks lr)) = 32 \<and> length (snd (rounds ks lr)) = 32"
  by (induction ks lr rule: rounds.induct) simp_all

text \<open>A Feistel network run with the keys reversed undoes itself, up to the swap of the halves.\<close>

lemma rounds_rev:
  "length (fst lr) = 32 \<Longrightarrow> length (snd lr) = 32 \<Longrightarrow>
   rounds (rev ks) (prod.swap (rounds ks lr)) = prod.swap lr"
  by (induction ks lr rule: rounds.induct) (simp_all add: rounds_append)

lemma length_crypt_block [simp]: "length (crypt_block ks b) = 64"
  by (simp add: crypt_block_def Let_def)

lemma crypt_block_rev:
  assumes "length b = 64"
  shows "crypt_block (rev ks) (crypt_block ks b) = b"
proof -
  define p where "p = permute initial_permutation b"
  define lr where "lr = rounds ks (take 32 p, drop 32 p)"
  have p: "length p = 64" by (simp add: p_def)
  have len: "length (fst lr) = 32" "length (snd lr) = 32"
    using length_rounds [of "(take 32 p, drop 32 p)" ks] p by (simp_all add: lr_def)
  have enc: "permute initial_permutation (crypt_block ks b) = snd lr @ fst lr"
    using len by (simp add: crypt_block_def Let_def p_def lr_def)
  have "rounds (rev ks) (prod.swap lr) = prod.swap (take 32 p, drop 32 p)"
    unfolding lr_def using p by (intro rounds_rev) simp_all
  then have "crypt_block (rev ks) (crypt_block ks b) = permute final_permutation p"
    using enc len by (simp add: crypt_block_def [of "rev ks"] Let_def prod.swap_def)
  then show ?thesis
    using assms by (simp add: p_def)
qed

lemma length_des_encrypt [simp]: "length (des_encrypt key b) = 8"
  using block_bits_bits_block [of "crypt_block (round_keys (block_bits key)) (block_bits b)" 8]
  by (simp add: des_encrypt_def)

theorem des_decrypt_encrypt: "length b = 8 \<Longrightarrow> des_decrypt key (des_encrypt key b) = b"
  using block_bits_bits_block [of "crypt_block (round_keys (block_bits key)) (block_bits b)" 8]
  by (simp add: des_encrypt_def des_decrypt_def crypt_block_rev)

lemma des_encrypt_inject:
  "length b = 8 \<Longrightarrow> length b' = 8 \<Longrightarrow> des_encrypt key b = des_encrypt key b' \<Longrightarrow> b = b'"
  by (metis des_decrypt_encrypt)

section \<open>The parity bits of a key\<close>

text \<open>The key schedule never reads the last bit of a key byte.\<close>

lemma permuted_choice1_skips_parity:
  "list_all (\<lambda>i. (i - 1) mod 8 \<noteq> 7 \<and> i - 1 < 64) permuted_choice1"
  by code_simp

lemma round_keys_parity:
  assumes "\<And>i. i < 64 \<Longrightarrow> i mod 8 \<noteq> 7 \<Longrightarrow> k ! i = k' ! i"
  shows "round_keys k = round_keys k'"
proof -
  have "permute permuted_choice1 k = permute permuted_choice1 k'"
    using permuted_choice1_skips_parity assms by (auto simp: permute_def list_all_iff)
  then show ?thesis
    by (simp add: round_keys_def)
qed

end
