(* ===== verification/Rfb_Auth.thy ===== *)
theory Rfb_Auth
  imports Go_IO DES
begin

text \<open>
  \<open>internal/rfb/auth_vnc.go\<close>: the answer to a VNC Authentication challenge. The block
  cipher is the DES of theory \<open>DES\<close>.
\<close>

section \<open>The response\<close>

definition vncChallengeLen :: nat where
  "vncChallengeLen = 16"

text \<open>\<open>for i := 0; i < 8; i++ { if b&(1<<i) != 0 { r |= 1 << (7-i) } }\<close>\<close>

definition reverse_byte_bits :: "byte \<Rightarrow> byte" where
  "reverse_byte_bits b =
     fold (\<lambda>i r. if b AND push_bit i 1 \<noteq> 0 then r OR push_bit (7 - i) 1 else r) [0..<8] 0"

text \<open>\<open>copy\<close> into a zeroed \<open>[8]byte\<close>: truncated to 8 bytes or padded with zeros.\<close>

definition padded8 :: "bytes \<Rightarrow> bytes" where
  "padded8 password = take 8 password @ replicate (8 - length password) 0"

definition derive_des_key :: "bytes \<Rightarrow> bytes" where
  "derive_des_key password = map reverse_byte_bits (padded8 password)"

text \<open>\<open>des.NewCipher\<close> fails on a key that is not 8 bytes long; the block is its \<open>Encrypt\<close>.\<close>

definition des_new_cipher :: "bytes \<Rightarrow> go_error + (bytes \<Rightarrow> bytes)" where
  "des_new_cipher key =
     (if length key \<noteq> 8 then Inl (Errorf ''crypto/des: invalid key size %d'' [length key])
      else Inr (des_encrypt key))"

definition vnc_auth_response :: "bytes \<Rightarrow> bytes \<Rightarrow> go_error + bytes" where
  "vnc_auth_response password challenge =
     (if length challenge \<noteq> vncChallengeLen
      then Inl (Errorf ''rfb: VNC auth challenge must be %d bytes, got %d''
                  [vncChallengeLen, length challenge])
      else case des_new_cipher (derive_des_key password) of
        Inl err \<Rightarrow> Inl (Wrapf ''rfb: VNC auth'' err)
      | Inr encrypt \<Rightarrow> Inr (encrypt (take 8 challenge) @ encrypt (take 8 (drop 8 challenge))))"

section \<open>The key\<close>

lemma and_exp_zero_iff: "(b :: byte) AND 2 ^ i = 0 \<longleftrightarrow> \<not> bit b i"
  by (rule and_exp_eq_0_iff_not_bit)

lemma bit_reverse_fold:
  "bit (fold (\<lambda>i r. if (b :: byte) AND push_bit i 1 \<noteq> 0 then r OR push_bit (7 - i) 1 else r) xs (r :: byte)) n
     \<longleftrightarrow> bit r n \<or> (n < 8 \<and> (\<exists>i \<in> set xs. bit b i \<and> n = 7 - i))"
proof (induction xs arbitrary: r)
  case Nil
  then show ?case by simp
next
  case (Cons x xs)
  have "bit (if b AND push_bit x 1 \<noteq> 0 then r OR push_bit (7 - x) 1 else r) n
      \<longleftrightarrow> bit r n \<or> (n < 8 \<and> bit b x \<and> n = 7 - x)"
    by (cases "bit b x") (auto simp: and_exp_zero_iff bit_or_iff bit_exp_iff)
  then show ?case
    unfolding fold_simps Cons.IH by auto
qed

lemma bit_reverse_byte_bits [simp]:
  "bit (reverse_byte_bits b) n \<longleftrightarrow> n < 8 \<and> bit b (7 - n)"
proof -
  have "(\<exists>i \<in> set [0..<8]. bit b i \<and> n = 7 - i) \<longleftrightarrow> bit b (7 - n)" if n: "n < 8"
  proof
    assume "\<exists>i \<in> set [0..<8]. bit b i \<and> n = 7 - i"
    then obtain i where "i < 8" "bit b i" "n = 7 - i" by auto
    then show "bit b (7 - n)" by simp
  next
    assume "bit b (7 - n)"
    moreover have "7 - n \<in> set [0..<8]" "n = 7 - (7 - n)" using n by auto
    ultimately show "\<exists>i \<in> set [0..<8]. bit b i \<and> n = 7 - i" by blast
  qed
  then show ?thesis
    unfolding reverse_byte_bits_def bit_reverse_fold by auto
qed

lemma reverse_byte_bits_involutory [simp]: "reverse_byte_bits (reverse_byte_bits b) = b"
  by (rule bit_word_eqI) auto

lemma length_padded8 [simp]: "length (padded8 p) = 8"
  by (simp add: padded8_def)

lemma length_derive_des_key [simp]: "length (derive_des_key p) = 8"
  by (simp add: derive_des_key_def)

lemma vnc_auth_response_eq:
  "length challenge = 16 \<Longrightarrow>
   vnc_auth_response p challenge =
     Inr (des_encrypt (derive_des_key p) (take 8 challenge) @
          des_encrypt (derive_des_key p) (drop 8 challenge))"
  by (simp add: vnc_auth_response_def vncChallengeLen_def des_new_cipher_def)

lemma vnc_auth_response_Inr_iff:
  "vnc_auth_response p challenge = Inr r \<longleftrightarrow>
   length challenge = 16 \<and>
   r = des_encrypt (derive_des_key p) (take 8 challenge) @ des_encrypt (derive_des_key p) (drop 8 challenge)"
  by (cases "length challenge = 16")
    (auto simp: vnc_auth_response_eq, simp_all add: vnc_auth_response_def vncChallengeLen_def)

lemma length_vnc_auth_response: "vnc_auth_response p challenge = Inr r \<Longrightarrow> length r = 16"
  by (auto simp: vnc_auth_response_Inr_iff)

lemma block_bits_nth:
  "i < 8 * length bs \<Longrightarrow> block_bits bs ! i \<longleftrightarrow> bit (bs ! (i div 8)) (7 - i mod 8)"
proof (induction bs arbitrary: i)
  case Nil
  then show ?case by simp
next
  case (Cons b bs)
  show ?case
  proof (cases "i < 8")
    case True
    then show ?thesis
      by (simp add: block_bits_def nth_append byte_bits_rev rev_nth)
  next
    case False
    then obtain j where i: "i = 8 + j" by (metis le_Suc_ex not_less)
    with Cons.prems have "j < 8 * length bs" by simp
    moreover have "(8 + j) div 8 = Suc (j div 8)" by simp
    ultimately show ?thesis
      using Cons.IH [of j] i by (simp add: block_bits_def nth_append)
  qed
qed

text \<open>DES ignores the top bit of every password character, and everything after the eighth.\<close>

lemma des_encrypt_low7:
  assumes "map (take_bit 7) (padded8 p) = map (take_bit 7) (padded8 q)"
  shows "des_encrypt (derive_des_key p) = des_encrypt (derive_des_key q)"
proof -
  have "block_bits (derive_des_key p) ! i = block_bits (derive_des_key q) ! i"
    if i: "i < 64" "i mod 8 \<noteq> 7" for i
  proof -
    have d: "i div 8 < 8" using i by simp
    have m: "i mod 8 < 7" using i(2) by presburger
    have "(map (take_bit 7) (padded8 p)) ! (i div 8) = (map (take_bit 7) (padded8 q)) ! (i div 8)"
      using assms by simp
    then have "take_bit 7 (padded8 p ! (i div 8)) = take_bit 7 (padded8 q ! (i div 8))"
      using d by simp
    then have "bit (padded8 p ! (i div 8)) (i mod 8) = bit (padded8 q ! (i div 8)) (i mod 8)"
      using m by (metis bit_take_bit_iff)
    then show ?thesis
      using i(1) d m by (simp add: block_bits_nth derive_des_key_def)
  qed
  then have "round_keys (block_bits (derive_des_key p)) = round_keys (block_bits (derive_des_key q))"
    by (rule round_keys_parity)
  then show ?thesis
    by (simp add: des_encrypt_def fun_eq_iff)
qed

end
