(* ===== verification/Rfb_Handshake.thy ===== *)
theory Rfb_Handshake
  imports Rfb_Security Rfb_Auth
begin

text \<open>
  \<open>internal/rfb/handshake.go\<close> and \<open>internal/rfb/frontshake.go\<close>: the real handshake
  with the VNC server and the synthetic one towards the browser, over any
  \<open>io.ReadWriter\<close> (locale \<open>duplex\<close>). Their specifications say exactly which
  scripts of the peer succeed, what is sent, and where the relay takes over.
\<close>

section \<open>The handshake with the server\<close>

record handshake_result =
  ServerVersion :: version
  SecurityType :: security_type

text \<open>The VNCAuth branch: read the challenge, write the response.\<close>

definition vnc_auth ::
    "(nat \<Rightarrow> 's \<Rightarrow> (bytes, 's) outcome) \<Rightarrow> (bytes \<Rightarrow> 's \<Rightarrow> (unit, 's) outcome) \<Rightarrow>
     bytes \<Rightarrow> 's \<Rightarrow> (unit, 's) outcome" where
  "vnc_auth rd wr password s =
     io_bind (io_wrap (wrap_truncated ''VNC auth challenge'') (rd vncChallengeLen s)) (\<lambda>challenge s.
     io_bind (io_check (vnc_auth_response password challenge) s) (\<lambda>response s.
     io_wrap (Wrapf ''rfb: write VNC auth response'') (wr response s)))"

definition handshake ::
    "(nat \<Rightarrow> 's \<Rightarrow> (bytes, 's) outcome) \<Rightarrow> (bytes \<Rightarrow> 's \<Rightarrow> (unit, 's) outcome) \<Rightarrow>
     bytes \<Rightarrow> 's \<Rightarrow> (handshake_result, 's) outcome" where
  "handshake rd wr password s =
     io_bind (read_version rd s) (\<lambda>serverVersion s.
     io_bind (write_version wr V38 s) (\<lambda>_ s.
     io_bind (read_security_type_list rd s) (\<lambda>list s.
     if Empty list
     then io_bind (read_reason_string rd s) (\<lambda>reason s. (Inl (ErrSecurityRejected reason), s))
     else
       io_bind (io_check (select_security_type (Types list) SupportedSecurityTypes) s) (\<lambda>secType s.
       io_bind (io_wrap (Wrapf ''rfb: write security type selection'') (wr [secType] s)) (\<lambda>_ s.
       io_bind (if secType = SecTypeVNCAuth then vnc_auth rd wr password s else (Inr (), s)) (\<lambda>_ s.
       io_bind (read_security_result rd serverVersion s) (\<lambda>r s.
       if \<not> result_OK (fst r) then (Inl (ErrSecurityRejected (snd r)), s)
       else (Inr \<lparr>ServerVersion = serverVersion, SecurityType = secType\<rparr>, s))))))))"

section \<open>The handshake towards the browser\<close>

definition frontshake ::
    "(nat \<Rightarrow> 's \<Rightarrow> (bytes, 's) outcome) \<Rightarrow> (bytes \<Rightarrow> 's \<Rightarrow> (unit, 's) outcome) \<Rightarrow>
     's \<Rightarrow> (unit, 's) outcome" where
  "frontshake rd wr s =
     io_bind (write_version wr V38 s) (\<lambda>_ s.
     io_bind (read_version rd s) (\<lambda>clientVersion s.
     if clientVersion \<noteq> V38
     then (Inl (ErrUnsupportedVersion (version_string clientVersion)
             ''browser must reply with exactly RFB 3.8 (untrusted iframe boundary)''), s)
     else
       io_bind (write_security_type_list wr [SecTypeNone] s) (\<lambda>_ s.
       io_bind (io_wrap (wrap_truncated ''browser security type selection'') (rd 1 s)) (\<lambda>selBuf s.
       let selected = hd selBuf in
       if selected \<noteq> SecTypeNone
       then (Inl (Errorf ''rfb: browser selected security type %s but only None was offered (synthetic handshake)''
               [unat selected]), s)
       else io_bind (write_security_result_ok wr s) (\<lambda>_ s. (Inr (), s))))))"

section \<open>The server's script\<close>

text \<open>
  What a server that accepts the client sends: its version, the types it offers, the
  challenge when VNCAuth is chosen, and a SecurityResult of 0.
\<close>

definition chosen_type :: "security_type list \<Rightarrow> security_type" where
  "chosen_type types = (if SecTypeVNCAuth \<in> set types then SecTypeVNCAuth else SecTypeNone)"

definition offers_supported :: "security_type list \<Rightarrow> bool" where
  "offers_supported types \<longleftrightarrow> types \<noteq> [] \<and> length types \<le> 255 \<and> chosen_type types \<in> set types"

definition wf_challenge :: "security_type list \<Rightarrow> bytes \<Rightarrow> bool" where
  "wf_challenge types challenge \<longleftrightarrow>
     length challenge = (if chosen_type types = SecTypeVNCAuth then 16 else 0)"

definition server_script :: "version \<Rightarrow> security_type list \<Rightarrow> bytes \<Rightarrow> security_result \<times> string \<Rightarrow> bytes" where
  "server_script v types challenge r =
     bytes_of (version_string v) @ security_type_list_bytes types @ challenge @ security_result_bytes r"

text \<open>What the plugin sends to it.\<close>

definition client_script :: "bytes \<Rightarrow> security_type list \<Rightarrow> bytes \<Rightarrow> bytes" where
  "client_script password types challenge =
     bytes_of (version_string V38) @ [chosen_type types] @
     (if chosen_type types = SecTypeVNCAuth
      then des_encrypt (derive_des_key password) (take 8 challenge) @
           des_encrypt (derive_des_key password) (drop 8 challenge)
      else [])"

lemma select_offered:
  "offers_supported types \<Longrightarrow> select_security_type types SupportedSecurityTypes = Inr (chosen_type types)"
  by (auto simp: offers_supported_def chosen_type_def select_supported split: if_splits)

lemma select_offered_iff:
  "types \<noteq> [] \<Longrightarrow> length types \<le> 255 \<Longrightarrow>
   select_security_type types SupportedSecurityTypes = Inr t \<longleftrightarrow> offers_supported types \<and> t = chosen_type types"
  by (auto simp: offers_supported_def chosen_type_def select_supported split: if_splits)

text \<open>
  The steps on a healthy connection, as evaluation rules: each consumes its field of the
  script and appends what it writes.
\<close>

lemma write_version_healthy [io_simps]:
  "wr_left c = None \<Longrightarrow>
   write_version conn_write v c = (Inr (), c\<lparr>sent := sent c @ bytes_of (version_string v)\<rparr>)"
  by (simp add: write_version_def)

text \<open>
  The readers again, with the bytes at the front of the connection as a premise: the form
  that evaluates whatever else has been updated.
\<close>

lemma read_version_at:
  "avail s = bytes_of (version_string v) @ r \<Longrightarrow> supported_version v \<Longrightarrow>
   read_version stream_read_full s = (Inr v, s\<lparr>avail := r\<rparr>)"
  using read_version_stream [of v r s] by (simp add: stream_with_avail)

lemma read_security_type_list_at:
  "avail s = security_type_list_bytes ts @ r \<Longrightarrow> ts \<noteq> [] \<Longrightarrow> length ts \<le> 255 \<Longrightarrow>
   read_security_type_list stream_read_full s = (Inr \<lparr>Types = ts, Empty = False\<rparr>, s\<lparr>avail := r\<rparr>)"
  using read_security_type_list_stream [of ts r s] by (simp add: stream_with_avail)

lemma read_security_result_at:
  "avail s = security_result_bytes x @ r \<Longrightarrow> wf_security_result x \<Longrightarrow> V38 \<le> v \<Longrightarrow>
   read_security_result stream_read_full v s = (Inr x, s\<lparr>avail := r\<rparr>)"
  using read_security_result_stream [of x v r s] by (simp add: stream_with_avail)

lemma vnc_auth_at:
  "avail c = challenge @ r \<Longrightarrow> length challenge = 16 \<Longrightarrow> wr_left c = None \<Longrightarrow>
   vnc_auth stream_read_full conn_write password c =
     (Inr (), c\<lparr>avail := r, sent := sent c @ des_encrypt (derive_des_key password) (take 8 challenge) @
        des_encrypt (derive_des_key password) (drop 8 challenge)\<rparr>)"
  by (simp add: vnc_auth_def vncChallengeLen_def vnc_auth_response_eq stream_read_full_def)

lemmas handshake_eval = read_version_at read_security_type_list_at read_security_result_at
  vnc_auth_at write_version_healthy select_offered

text \<open>A connection after the client has read up to \<open>rest\<close> and sent \<open>out\<close> in addition.\<close>

definition advanced :: "conn \<Rightarrow> bytes \<Rightarrow> bytes \<Rightarrow> conn" where
  "advanced c rest out = c\<lparr>avail := rest, sent := sent c @ out\<rparr>"

lemma handshake_script:
  assumes "healthy c" and "supported_version v" and "offers_supported types"
    and "wf_challenge types challenge" and "wf_security_result r"
    and "avail c = server_script v types challenge r @ rest"
  shows "handshake stream_read_full conn_write password c =
     ((if result_OK (fst r)
       then Inr \<lparr>ServerVersion = v, SecurityType = chosen_type types\<rparr>
       else Inl (ErrSecurityRejected (snd r))),
      advanced c rest (client_script password types challenge))"
proof -
  have w: "wr_left c = None" using assms(1) by (simp add: healthy_def)
  have v: "V38 \<le> v" using assms(2) by (simp add: supported_version_def)
  have t: "types \<noteq> []" "length types \<le> 255" using assms(3) by (auto simp: offers_supported_def)
  show ?thesis
  proof (cases "chosen_type types = SecTypeVNCAuth")
    case True
    then have ch: "length challenge = 16" using assms(4) by (simp add: wf_challenge_def)
    show ?thesis
      using True ch w assms(2,3,5,6) v t
      by (simp add: handshake_def handshake_eval advanced_def client_script_def server_script_def)
  next
    case False
    then have ch: "challenge = []" using assms(4) by (simp add: wf_challenge_def)
    show ?thesis
      using False ch w assms(2,3,5,6) v t
      by (simp add: handshake_def handshake_eval advanced_def client_script_def server_script_def)
  qed
qed

section \<open>Only such scripts succeed\<close>

lemma vnc_auth_Inr:
  assumes "vnc_auth stream_read_full conn_write password c = (Inr (), c')" and "wr_left c = None"
  shows "\<exists>challenge r. length challenge = 16 \<and> avail c = challenge @ r \<and>
    c' = c\<lparr>avail := r, sent := sent c @ des_encrypt (derive_des_key password) (take 8 challenge) @
        des_encrypt (derive_des_key password) (drop 8 challenge)\<rparr>"
  using assms
  by (auto simp: vnc_auth_def vncChallengeLen_def vnc_auth_response_Inr_iff io_iffs stream_read_full_Inr)

text \<open>
  What is left of a successful handshake once the version and the list are behind it:
  the choice, the authentication and the result.
\<close>

lemma handshake_Inr_steps:
  assumes "handshake stream_read_full conn_write password c = (Inr h, c')" and "healthy c"
  obtains v s1 types s2 s3 r where
    "read_version stream_read_full c = (Inr v, s1)"
    "read_security_type_list stream_read_full
       (s1\<lparr>sent := sent s1 @ bytes_of (version_string V38)\<rparr>) = (Inr \<lparr>Types = types, Empty = False\<rparr>, s2)"
    "offers_supported types"
    "(if chosen_type types = SecTypeVNCAuth
      then vnc_auth stream_read_full conn_write password (s2\<lparr>sent := sent s2 @ [chosen_type types]\<rparr>)
      else (Inr (), s2\<lparr>sent := sent s2 @ [chosen_type types]\<rparr>)) = (Inr (), s3)"
    "read_security_result stream_read_full v s3 = (Inr r, c')"
    "result_OK (fst r)"
    "h = \<lparr>ServerVersion = v, SecurityType = chosen_type types\<rparr>"
proof -
  from assms(1) obtain v s1 where v: "read_version stream_read_full c = (Inr v, s1)"
    unfolding handshake_def by (auto simp: io_bind_Inr_iff)
  then have w1: "wr_left s1 = None"
    using assms(2) by (auto simp: read_version_stream_Inr healthy_def)
  from assms(1) v w1 obtain l s2 where
    l: "read_security_type_list stream_read_full
       (s1\<lparr>sent := sent s1 @ bytes_of (version_string V38)\<rparr>) = (Inr l, s2)"
    unfolding handshake_def by (auto simp: write_version_healthy io_bind_Inr_iff)
  then have w2: "wr_left s2 = None" and wf: "wf_security_type_list l"
    using w1 by (auto simp: read_security_type_list_Inr)
  from assms(1) v w1 l have ne: "\<not> Empty l"
    unfolding handshake_def by (auto simp: write_version_healthy io_bind_Inr_iff)
  define types where "types = Types l"
  have len: "types \<noteq> []" "length types \<le> 255" and lt: "l = \<lparr>Types = types, Empty = False\<rparr>"
    using wf ne by (auto simp: types_def wf_security_type_list_def)
  from assms(1) v w1 l ne obtain t where t: "select_security_type types SupportedSecurityTypes = Inr t"
    unfolding handshake_def types_def by (auto simp: write_version_healthy io_bind_Inr_iff)
  then have t': "t = chosen_type types" and off: "offers_supported types"
    using len select_offered_iff by auto
  from assms(1) v w1 l ne t w2 obtain s3 where
    s3: "(if chosen_type types = SecTypeVNCAuth
      then vnc_auth stream_read_full conn_write password (s2\<lparr>sent := sent s2 @ [chosen_type types]\<rparr>)
      else (Inr (), s2\<lparr>sent := sent s2 @ [chosen_type types]\<rparr>)) = (Inr (), s3)"
    and rest: "io_bind (read_security_result stream_read_full v s3) (\<lambda>r s.
       if \<not> result_OK (fst r) then (Inl (ErrSecurityRejected (snd r)), s)
       else (Inr \<lparr>ServerVersion = v, SecurityType = chosen_type types\<rparr>, s)) = (Inr h, c')"
    unfolding handshake_def types_def [symmetric] t'
    by (simp add: write_version_healthy types_def [symmetric] t' io_bind_Inr_iff
        del: sectype_defs) blast
  from rest obtain r where "read_security_result stream_read_full v s3 = (Inr r, c')"
    "result_OK (fst r)" "h = \<lparr>ServerVersion = v, SecurityType = chosen_type types\<rparr>"
    by (auto simp: io_bind_Inr_iff split: if_splits)
  with that v l lt off s3 show thesis by metis
qed

lemma handshake_success_script:
  assumes "handshake stream_read_full conn_write password c = (Inr h, c')" and "healthy c"
  shows "\<exists>v types challenge rest.
    supported_version v \<and> offers_supported types \<and> wf_challenge types challenge \<and>
    avail c = server_script v types challenge (SecurityResultOK, []) @ rest \<and>
    h = \<lparr>ServerVersion = v, SecurityType = chosen_type types\<rparr> \<and>
    c' = advanced c rest (client_script password types challenge)"
proof -
  from assms obtain v s1 types s2 s3 r where
    v: "read_version stream_read_full c = (Inr v, s1)" and
    l: "read_security_type_list stream_read_full
       (s1\<lparr>sent := sent s1 @ bytes_of (version_string V38)\<rparr>) = (Inr \<lparr>Types = types, Empty = False\<rparr>, s2)" and
    off: "offers_supported types" and
    auth: "(if chosen_type types = SecTypeVNCAuth
      then vnc_auth stream_read_full conn_write password (s2\<lparr>sent := sent s2 @ [chosen_type types]\<rparr>)
      else (Inr (), s2\<lparr>sent := sent s2 @ [chosen_type types]\<rparr>)) = (Inr (), s3)" and
    res: "read_security_result stream_read_full v s3 = (Inr r, c')" and
    ok: "result_OK (fst r)" and
    h: "h = \<lparr>ServerVersion = v, SecurityType = chosen_type types\<rparr>"
    by (rule handshake_Inr_steps)
  from v obtain r1 where sv: "supported_version v" and a1: "avail c = bytes_of (version_string v) @ r1"
    and s1: "s1 = c\<lparr>avail := r1\<rparr>"
    by (auto simp: read_version_stream_Inr)
  from l s1 obtain r2 where a2: "r1 = security_type_list_bytes types @ r2"
    and s2: "s2 = c\<lparr>avail := r2, sent := sent c @ bytes_of (version_string V38)\<rparr>"
    by (auto simp: read_security_type_list_Inr)
  have w: "wr_left c = None" using assms(2) by (simp add: healthy_def)
  from sv have ge: "V38 \<le> v" by (simp add: supported_version_def)
  from read_security_result_sound [OF res ge] obtain rest where
    wr: "wf_security_result r" and a3: "avail s3 = security_result_bytes r @ rest"
    and c': "c' = s3\<lparr>avail := rest\<rparr>" by blast
  from wr ok have r: "r = (SecurityResultOK, [])"
    by (cases r) (auto simp: result_OK_def)
  show ?thesis
  proof (cases "chosen_type types = SecTypeVNCAuth")
    case True
    with auth have "vnc_auth stream_read_full conn_write password (s2\<lparr>sent := sent s2 @ [chosen_type types]\<rparr>)
        = (Inr (), s3)" by simp
    from vnc_auth_Inr [OF this] s2 w obtain ch r3 where ch: "length ch = 16" "r2 = ch @ r3"
      and s3: "s3 = c\<lparr>avail := r3, sent := sent c @ bytes_of (version_string V38) @ [chosen_type types] @
        des_encrypt (derive_des_key password) (take 8 ch) @ des_encrypt (derive_des_key password) (drop 8 ch)\<rparr>"
      by auto
    have "wf_challenge types ch" using True ch by (simp add: wf_challenge_def)
    moreover have "avail c = server_script v types ch (SecurityResultOK, []) @ rest"
      using a1 a2 a3 ch s3 r by (simp add: server_script_def)
    moreover have "c' = advanced c rest (client_script password types ch)"
      using c' s3 True by (simp add: advanced_def client_script_def)
    ultimately show ?thesis using sv off h by blast
  next
    case False
    with auth s2 have s3: "s3 = c\<lparr>avail := r2, sent := sent c @ bytes_of (version_string V38) @ [chosen_type types]\<rparr>"
      by auto
    have "wf_challenge types []" using False by (simp add: wf_challenge_def)
    moreover have "avail c = server_script v types [] (SecurityResultOK, []) @ rest"
      using a1 a2 a3 s3 r by (simp add: server_script_def)
    moreover have "c' = advanced c rest (client_script password types [])"
      using c' s3 False by (simp add: advanced_def client_script_def)
    ultimately show ?thesis using sv off h by blast
  qed
qed

section \<open>Scripts the handshake refuses\<close>

text \<open>The script of an accepting server has no other accepting script as a prefix.\<close>

lemma server_script_prefix_free:
  assumes "supported_version v" "supported_version v'"
    and "offers_supported types" "offers_supported types'"
    and "wf_challenge types ch" "wf_challenge types' ch'"
    and "wf_security_result r" "wf_security_result r'"
    and "server_script v types ch r @ x = server_script v' types' ch' r' @ x'"
  shows "v = v' \<and> types = types' \<and> ch = ch' \<and> r = r' \<and> x = x'"
proof -
  have "v = v' \<and> security_type_list_bytes types @ (ch @ security_result_bytes r @ x) =
      security_type_list_bytes types' @ (ch' @ security_result_bytes r' @ x')"
    using assms(9) unfolding server_script_def append_assoc
    by (rule version_wire.enc_prefix_free [OF assms(1,2)])
  moreover have "wf_security_type_list \<lparr>Types = types, Empty = False\<rparr>"
    "wf_security_type_list \<lparr>Types = types', Empty = False\<rparr>"
    using assms(3,4) by (auto simp: wf_security_type_list_def offers_supported_def)
  ultimately have l: "v = v'" "types = types'" and
    c: "ch @ security_result_bytes r @ x = ch' @ security_result_bytes r' @ x'"
    using security_type_list_wire.enc_prefix_free [of "\<lparr>Types = types, Empty = False\<rparr>"
        "\<lparr>Types = types', Empty = False\<rparr>"] by auto
  have "length ch = length ch'"
    using assms(5,6) l by (simp add: wf_challenge_def)
  with c have "ch = ch'" and "security_result_bytes r @ x = security_result_bytes r' @ x'"
    by simp_all
  moreover from this(2) have "r = r' \<and> x = x'"
    by (rule security_result_wire.enc_prefix_free [OF assms(7,8)])
  ultimately show ?thesis using l by blast
qed

text \<open>A server that stops in the middle of its script never completes the handshake.\<close>

lemma handshake_truncated:
  assumes "healthy (c :: conn)" and "supported_version v" and "offers_supported types"
    and "wf_challenge types ch" and "wf_security_result r"
    and "server_script v types ch r = avail c @ missing" and "missing \<noteq> []"
  shows "\<exists>e. fst (handshake stream_read_full conn_write password c) = Inl e"
proof (rule ccontr)
  assume "\<nexists>e. fst (handshake stream_read_full conn_write password c) = Inl e"
  then obtain h c' where "handshake stream_read_full conn_write password c = (Inr h, c')"
    by (metis prod.collapse sum.exhaust)
  from handshake_success_script [OF this assms(1)] obtain v' types' ch' rest where
    wf: "supported_version v'" "offers_supported types'" "wf_challenge types' ch'"
    and a: "avail c = server_script v' types' ch' (SecurityResultOK, []) @ rest"
    by blast
  have "server_script v types ch r @ [] =
      server_script v' types' ch' (SecurityResultOK, []) @ (rest @ missing)"
    using assms(6) a by simp
  then have "[] = rest @ missing"
    using server_script_prefix_free [of v v' types types' ch ch' r "(SecurityResultOK, [])"]
      assms(2-5) wf by (auto simp: result_OK_def)
  with assms(7) show False by simp
qed

lemma handshake_old_version:
  assumes "avail c = bytes_of (version_string v) @ r" and "wf_version v" and "v < V38"
  shows "handshake stream_read_full conn_write password c =
    (Inl (ErrUnsupportedVersion (version_string v) ''version below RFB 3.8 minimum''), c\<lparr>avail := r\<rparr>)"
  using assms
  by (simp add: handshake_def read_version_def versionLineLen_def stream_read_full_def
      parse_version_string require_supported_version_def less_version_def)

lemma read_empty_security_type_list_at:
  "avail s = 0 # r \<Longrightarrow>
   read_security_type_list stream_read_full s = (Inr \<lparr>Types = [], Empty = True\<rparr>, s\<lparr>avail := r\<rparr>)"
  using read_empty_security_type_list_stream [of r s] by (simp add: stream_with_avail)

lemma read_reason_string_at:
  "avail s = reason_bytes reason @ r \<Longrightarrow> wf_reason reason \<Longrightarrow>
   read_reason_string stream_read_full s = (Inr reason, s\<lparr>avail := r\<rparr>)"
  using read_reason_string_stream [of reason r s] by (simp add: stream_with_avail)

lemma handshake_refused_list:
  assumes "healthy c" and "supported_version v" and "wf_reason reason"
    and "avail c = bytes_of (version_string v) @ [0] @ reason_bytes reason @ r"
  shows "handshake stream_read_full conn_write password c =
    (Inl (ErrSecurityRejected reason), advanced c r (bytes_of (version_string V38)))"
  using assms
  by (simp add: handshake_def handshake_eval read_empty_security_type_list_at read_reason_string_at
      healthy_def advanced_def)

lemma handshake_unsupported_types:
  assumes "healthy c" and "supported_version v" and "types \<noteq> []" and "length types \<le> 255"
    and "SecTypeNone \<notin> set types" and "SecTypeVNCAuth \<notin> set types"
    and "avail c = bytes_of (version_string v) @ security_type_list_bytes types @ r"
  shows "handshake stream_read_full conn_write password c =
    (Inl (ErrNoSupportedSecurityType types SupportedSecurityTypes),
     advanced c r (bytes_of (version_string V38)))"
  using assms
  by (simp add: handshake_def handshake_eval healthy_def advanced_def select_supported)

section \<open>The password\<close>

text \<open>
  The password enters through the DES key only: two passwords whose first eight bytes
  agree in their low seven bits give the same handshake, whatever the peer does.
\<close>

lemma vnc_auth_response_low7:
  "map (take_bit 7) (padded8 p) = map (take_bit 7) (padded8 q) \<Longrightarrow>
   vnc_auth_response p = vnc_auth_response q"
proof -
  assume "map (take_bit 7) (padded8 p) = map (take_bit 7) (padded8 q)"
  then have "des_encrypt (derive_des_key p) = des_encrypt (derive_des_key q)"
    by (rule des_encrypt_low7)
  then show ?thesis
    by (simp add: fun_eq_iff [of "vnc_auth_response p"] vnc_auth_response_def des_new_cipher_def)
qed

lemma handshake_low7:
  "map (take_bit 7) (padded8 p) = map (take_bit 7) (padded8 q) \<Longrightarrow>
   handshake rd wr p s = handshake rd wr q s"
proof -
  assume "map (take_bit 7) (padded8 p) = map (take_bit 7) (padded8 q)"
  then have "vnc_auth rd wr p = vnc_auth rd wr q"
    using vnc_auth_response_low7 [of p q] by (simp add: fun_eq_iff vnc_auth_def)
  then show ?thesis
    by (simp only: handshake_def)
qed

text \<open>Without VNCAuth among the offers the password is not consulted at all.\<close>

lemma client_script_no_auth:
  "SecTypeVNCAuth \<notin> set types \<Longrightarrow> client_script p types ch = client_script q types ch"
  by (simp add: client_script_def chosen_type_def)

section \<open>The browser's script\<close>

definition browser_script :: bytes where
  "browser_script = bytes_of (version_string V38) @ [SecTypeNone]"

definition synthetic_script :: bytes where
  "synthetic_script =
     bytes_of (version_string V38) @ security_type_list_bytes [SecTypeNone] @ put_u32 SecurityResultOK"

lemma frontshake_iff:
  assumes "healthy c"
  shows "frontshake stream_read_full conn_write c = (Inr (), c') \<longleftrightarrow>
    (\<exists>rest. avail c = browser_script @ rest \<and> c' = advanced c rest synthetic_script)"
proof -
  define c1 where "c1 = c\<lparr>sent := sent c @ bytes_of (version_string V38)\<rparr>"
  have w: "wr_left c = None" and w1: "wr_left c1 = None"
    using assms by (simp_all add: healthy_def c1_def)
  show ?thesis
  proof
    assume f: "frontshake stream_read_full conn_write c = (Inr (), c')"
    then obtain v s1 where v: "read_version stream_read_full c1 = (Inr v, s1)"
      unfolding frontshake_def by (auto simp: write_version_healthy w c1_def io_bind_Inr_iff)
    with f have v38: "v = V38"
      unfolding frontshake_def by (auto simp: write_version_healthy w c1_def split: if_splits)
    from v obtain r1 where a1: "avail c = bytes_of (version_string V38) @ r1"
      and s1: "s1 = c1\<lparr>avail := r1\<rparr>"
      using v38 by (auto simp: read_version_stream_Inr c1_def)
    from f v v38 s1 w1 show "\<exists>rest. avail c = browser_script @ rest \<and> c' = advanced c rest synthetic_script"
      unfolding frontshake_def
      by (auto simp: write_version_healthy w c1_def [symmetric] write_security_type_list_def
          security_type_list_bytes_def write_security_result_ok_def write_security_result_def
          io_iffs stream_read_full_Inr Let_def length_Suc_conv a1 browser_script_def
          synthetic_script_def advanced_def split: if_splits) (simp add: c1_def)
  next
    assume "\<exists>rest. avail c = browser_script @ rest \<and> c' = advanced c rest synthetic_script"
    then show "frontshake stream_read_full conn_write c = (Inr (), c')"
      using w
      by (auto simp: frontshake_def handshake_eval browser_script_def synthetic_script_def
          advanced_def write_security_type_list_def write_security_result_ok_def
          write_security_result_def stream_read_full_def)
  qed
qed

section \<open>Over any connection\<close>

context duplex_map
begin

lemma write_version_view:
  "12 \<le> wmax \<Longrightarrow> map_prod id view (write_version wr V38 s) = write_version wr' V38 (view s)"
proof -
  assume "12 \<le> wmax"
  then have "length (bytes_of (version_string V38)) \<le> wmax" by simp
  moreover have "length (bytes_of (version_string V38)) \<noteq> 0" by simp
  then have "bytes_of (version_string V38) \<noteq> []" by force
  ultimately show ?thesis
    unfolding write_version_def by (intro io_wrap_view write_view)
qed

lemma vnc_auth_view:
  "16 \<le> wmax \<Longrightarrow>
   map_prod id view (vnc_auth rd wr password s) = vnc_auth rd' wr' password (view s)"
  unfolding vnc_auth_def
  by (intro io_bind_view io_wrap_view read_view write_view)
    (auto dest!: length_vnc_auth_response)

lemma handshake_view:
  "16 \<le> wmax \<Longrightarrow>
   map_prod id view (handshake rd wr password s) = handshake rd' wr' password (view s)"
  unfolding handshake_def
  by (intro io_bind_view io_wrap_view read_version_view write_version_view read_security_type_list_view)
    (auto intro!: io_bind_view io_wrap_view read_reason_string_view write_view vnc_auth_view
      read_security_result_view)

lemma frontshake_view:
  "12 \<le> wmax \<Longrightarrow>
   map_prod id view (frontshake rd wr s) = frontshake rd' wr' (view s)"
  unfolding frontshake_def Let_def
  by (intro io_bind_view io_wrap_view read_version_view write_version_view)
    (auto intro!: io_bind_view io_wrap_view read_view write_view
      simp: write_security_type_list_def security_type_list_bytes_def
        write_security_result_ok_def write_security_result_def put_u32_def)

end

section \<open>Properties of the two handshakes\<close>

text \<open>A server and a password for concrete runs: VNCAuth is offered after None.\<close>

definition demo_challenge :: bytes where
  "demo_challenge = [0, 1, 2, 3, 4, 5, 6, 7, 8, 9, 10, 11, 12, 13, 14, 15]"

definition demo_server :: "bytes \<Rightarrow> conn" where
  "demo_server b = \<lparr>avail = b, fin = EOF, sent = [], wr_left = None, wr_err = ErrClosed\<rparr>"

lemma demo_server_simps [simp]:
  "avail (demo_server b) = b" "healthy (demo_server b)" "wr_left (demo_server b) = None"
  by (simp_all add: demo_server_def healthy_def)

lemma demo_offers [simp]: "offers_supported [1, 2]" "chosen_type [1, 2] = 2" "offers_supported [1]"
  by (simp_all add: offers_supported_def chosen_type_def)

lemma demo_wf_challenge [simp]: "wf_challenge [1, 2] demo_challenge"
  by (simp add: wf_challenge_def demo_challenge_def)

text \<open>
  C1: exact success condition of the server handshake. On a connection whose writes
  succeed, \<open>Handshake\<close> returns a result if and only if the server's bytes start with a
  supported version line, a non-empty list of types with one the plugin supports, the 16-byte
  challenge exactly when VNCAuth is chosen, and a zero SecurityResult. The result names that
  version and the chosen type (VNCAuth whenever offered), what was sent is the 3.8 version
  line, the type byte and the DES response, and not one byte beyond the SecurityResult has
  been consumed.
\<close>

theorem handshake_succeeds_iff:
  assumes "healthy c"
  shows "handshake stream_read_full conn_write password c = (Inr h, c') \<longleftrightarrow>
    (\<exists>v types challenge rest.
       supported_version v \<and> offers_supported types \<and> wf_challenge types challenge \<and>
       avail c = server_script v types challenge (SecurityResultOK, []) @ rest \<and>
       h = \<lparr>ServerVersion = v, SecurityType = chosen_type types\<rparr> \<and>
       c' = advanced c rest (client_script password types challenge))"
proof
  assume "handshake stream_read_full conn_write password c = (Inr h, c')"
  then show "\<exists>v types challenge rest.
       supported_version v \<and> offers_supported types \<and> wf_challenge types challenge \<and>
       avail c = server_script v types challenge (SecurityResultOK, []) @ rest \<and>
       h = \<lparr>ServerVersion = v, SecurityType = chosen_type types\<rparr> \<and>
       c' = advanced c rest (client_script password types challenge)"
    using assms by (rule handshake_success_script)
next
  assume "\<exists>v types challenge rest.
       supported_version v \<and> offers_supported types \<and> wf_challenge types challenge \<and>
       avail c = server_script v types challenge (SecurityResultOK, []) @ rest \<and>
       h = \<lparr>ServerVersion = v, SecurityType = chosen_type types\<rparr> \<and>
       c' = advanced c rest (client_script password types challenge)"
  then show "handshake stream_read_full conn_write password c = (Inr h, c')"
    using handshake_script [OF assms, of _ _ _ "(SecurityResultOK, [])"]
    by (auto simp: result_OK_def)
qed

theorem handshake_succeeds_iff_witness:
  "handshake stream_read_full conn_write [112, 119]
     (demo_server (server_script V38 [1, 2] demo_challenge (0, []) @ [7])) =
     (Inr \<lparr>ServerVersion = V38, SecurityType = 2\<rparr>,
      (demo_server [7])\<lparr>sent := client_script [112, 119] [1, 2] demo_challenge\<rparr>)"
  by (subst handshake_succeeds_iff, simp, intro exI [of _ V38] exI [of _ "[1, 2]"]
      exI [of _ demo_challenge] exI [of _ "[7]"])
    (simp add: advanced_def demo_server_def SecurityResultOK_def)

text \<open>
  a server that closes early never passes the handshake. If what arrives is a proper
  prefix of any complete server script, successful or not, the handshake returns an
  error, wherever the cut falls.
\<close>

theorem truncated_handshake_fails:
  assumes "healthy (c :: conn)" and "supported_version v" and "offers_supported types"
    and "wf_challenge types ch" and "wf_security_result r"
    and "server_script v types ch r = avail c @ missing" and "missing \<noteq> []"
  shows "\<exists>e. fst (handshake stream_read_full conn_write password c) = Inl e"
  using assms by (rule handshake_truncated)

theorem truncated_handshake_fails_witness:
  "\<exists>e. fst (handshake stream_read_full conn_write []
     (demo_server (butlast (server_script V38 [1, 2] demo_challenge (0, []))))) = Inl e"
  by (rule truncated_handshake_fails
      [of _ V38 "[1, 2]" demo_challenge "(0, [])" "[last (server_script V38 [1, 2] demo_challenge (0, []))]"])
    (simp_all add: server_script_def butlast_append result_OK_def SecurityResultOK_def put_u32_def)

text \<open>
  a server that refuses after authentication. A complete script that ends in a
  non-zero SecurityResult makes the handshake fail with a rejection carrying the server's
  own reason, after the whole script has been consumed.
\<close>

theorem handshake_rejected_by_result:
  assumes "healthy c" and "supported_version v" and "offers_supported types"
    and "wf_challenge types challenge" and "result \<noteq> SecurityResultOK" and "length reason \<le> maxReasonLen"
    and "avail c = server_script v types challenge (result, reason) @ rest"
  shows "handshake stream_read_full conn_write password c =
    (Inl (ErrSecurityRejected reason), advanced c rest (client_script password types challenge))"
  using handshake_script [OF assms(1-4) _ assms(7)] assms(5,6) by (simp add: result_OK_def wf_reason_def)

theorem handshake_rejected_by_result_witness:
  "handshake stream_read_full conn_write [] (demo_server (server_script V38 [1] [] (1, ''no'') @ [])) =
     (Inl (ErrSecurityRejected ''no''),
      advanced (demo_server (server_script V38 [1] [] (1, ''no'') @ [])) [] (client_script [] [1] []))"
  by (rule handshake_rejected_by_result)
    (simp_all add: wf_challenge_def chosen_type_def SecurityResultOK_def maxReasonLen_def)

text \<open>
  versions below 3.8 are refused before the plugin sends a byte; the error carries the
  version line that was received.
\<close>

theorem handshake_refuses_old_version:
  assumes "avail c = bytes_of (version_string v) @ r" and "Major v < 1000" and "Minor v < 1000"
    and "v < V38"
  shows "handshake stream_read_full conn_write password c =
    (Inl (ErrUnsupportedVersion (version_string v) ''version below RFB 3.8 minimum''), c\<lparr>avail := r\<rparr>)"
  using assms by (intro handshake_old_version) (simp_all add: wf_version_def)

theorem handshake_refuses_old_version_witness:
  "handshake stream_read_full conn_write [] (demo_server (bytes_of (version_string (Version 3 7)) @ [1])) =
     (Inl (ErrUnsupportedVersion (version_string (Version 3 7)) ''version below RFB 3.8 minimum''),
      (demo_server (bytes_of (version_string (Version 3 7)) @ [1]))\<lparr>avail := [1]\<rparr>)"
  by (rule handshake_refuses_old_version)
    (simp_all add: less_version_def version_less_def V38_def)

text \<open>
  a server that refuses with an empty type list and a reason makes the handshake fail
  with exactly that reason.
\<close>

theorem handshake_refused_with_reason:
  assumes "healthy c" and "supported_version v" and "length reason \<le> maxReasonLen"
    and "avail c = bytes_of (version_string v) @ [0] @ reason_bytes reason @ r"
  shows "handshake stream_read_full conn_write password c =
    (Inl (ErrSecurityRejected reason), advanced c r (bytes_of (version_string V38)))"
  using assms by (intro handshake_refused_list) (simp_all add: wf_reason_def)

theorem handshake_refused_with_reason_witness:
  "handshake stream_read_full conn_write []
     (demo_server (bytes_of (version_string V38) @ [0] @ reason_bytes ''full'' @ [])) =
     (Inl (ErrSecurityRejected ''full''),
      advanced (demo_server (bytes_of (version_string V38) @ [0] @ reason_bytes ''full'' @ [])) []
        (bytes_of (version_string V38)))"
  by (rule handshake_refused_with_reason) (simp_all add: maxReasonLen_def)

text \<open>
  the password goes nowhere unless the server asks for VNCAuth. When the type list
  received has no VNCAuth entry, the whole run of the handshake, its result, its errors and
  every byte it sends, is the same for any two passwords.
\<close>

theorem password_unused_without_vnc_auth:
  assumes "healthy c" and "supported_version v" and "types \<noteq> []" and "length types \<le> 255"
    and "SecTypeVNCAuth \<notin> set types"
    and "avail c = bytes_of (version_string v) @ security_type_list_bytes types @ r"
  shows "handshake stream_read_full conn_write p c = handshake stream_read_full conn_write q c"
  using assms by (simp add: handshake_def handshake_eval healthy_def select_supported)

theorem password_unused_without_vnc_auth_witness:
  "handshake stream_read_full conn_write [1]
      (demo_server (bytes_of (version_string V38) @ security_type_list_bytes [16, 1] @ [])) =
   handshake stream_read_full conn_write [2]
      (demo_server (bytes_of (version_string V38) @ security_type_list_bytes [16, 1] @ []))"
  by (rule password_unused_without_vnc_auth [where types = "[16, 1]" and v = V38 and r = "[]"]) simp_all

text \<open>
  only the low seven bits of the first eight password bytes matter, whatever the
  connection does: passwords that agree on them give identical handshakes.
\<close>

theorem handshake_password_low7:
  assumes "map (take_bit 7) (padded8 p) = map (take_bit 7) (padded8 q)"
  shows "handshake rd wr p s = handshake rd wr q s"
  using assms by (rule handshake_low7)

theorem handshake_password_low7_witness:
  "handshake stream_read_full conn_write [225, 98, 99, 100, 101, 102, 103, 104, 1] (demo_server [7]) =
   handshake stream_read_full conn_write [97, 98, 99, 100, 101, 102, 103, 104] (demo_server [7])"
  by (rule handshake_password_low7) (simp add: padded8_def)

text \<open>
  the response to a challenge is the challenge under DES. Any 16-byte challenge gets a
  16-byte response whose halves decrypt, under the key derived from the password, to the
  halves of the challenge.
\<close>

theorem vnc_auth_response_decrypts:
  assumes "length challenge = 16"
  shows "\<exists>response. vnc_auth_response password challenge = Inr response \<and> length response = 16 \<and>
    des_decrypt (derive_des_key password) (take 8 response) @
    des_decrypt (derive_des_key password) (drop 8 response) = challenge"
  using assms by (simp add: vnc_auth_response_eq des_decrypt_encrypt)

theorem vnc_auth_response_decrypts_witness:
  "\<exists>response. vnc_auth_response [112] demo_challenge = Inr response \<and> length response = 16 \<and>
    des_decrypt (derive_des_key [112]) (take 8 response) @
    des_decrypt (derive_des_key [112]) (drop 8 response) = demo_challenge"
  by (rule vnc_auth_response_decrypts) (simp add: demo_challenge_def)

text \<open>
  C28: exact success condition of the browser handshake. It succeeds if and only if the
  browser sends exactly the 3.8 version line and selects type None, and then the browser
  has been sent the 3.8 line, the one-entry list and a zero SecurityResult.
\<close>

theorem frontshake_succeeds_iff:
  assumes "healthy c"
  shows "frontshake stream_read_full conn_write c = (Inr (), c') \<longleftrightarrow>
    (\<exists>rest. avail c = bytes_of (version_string V38) @ [SecTypeNone] @ rest \<and>
       c' = advanced c rest (bytes_of (version_string V38) @ [1, SecTypeNone] @ put_u32 SecurityResultOK))"
  using frontshake_iff [OF assms]
  by (simp add: browser_script_def synthetic_script_def security_type_list_bytes_def)

theorem frontshake_succeeds_iff_witness:
  "frontshake stream_read_full conn_write (demo_server (bytes_of (version_string V38) @ [1, 0, 1])) =
     (Inr (), advanced (demo_server (bytes_of (version_string V38) @ [1, 0, 1])) [0, 1]
        (bytes_of (version_string V38) @ [1, 1] @ put_u32 0))"
  by (subst frontshake_succeeds_iff) (simp_all add: SecurityResultOK_def)

end
