(* ===== verification/Rfb_ClientMsg.thy ===== *)
theory Rfb_ClientMsg
  imports Rfb_Version
begin

text \<open>
  \<open>internal/rfb/clientmsg.go\<close>: the boundaries of client-to-server messages. A message is
  read off any byte source; its type byte and body are the exact bytes that were consumed.
\<close>

section \<open>Messages\<close>

type_synonym client_message_type = byte

definition MsgSetPixelFormat :: client_message_type where "MsgSetPixelFormat = 0"
definition MsgSetEncodings :: client_message_type where "MsgSetEncodings = 2"
definition MsgFramebufferUpdateRequest :: client_message_type where "MsgFramebufferUpdateRequest = 3"
definition MsgKeyEvent :: client_message_type where "MsgKeyEvent = 4"
definition MsgPointerEvent :: client_message_type where "MsgPointerEvent = 5"
definition MsgClientCutText :: client_message_type where "MsgClientCutText = 6"

lemmas msg_type_defs [simp] =
  MsgSetPixelFormat_def MsgSetEncodings_def MsgFramebufferUpdateRequest_def MsgKeyEvent_def
  MsgPointerEvent_def MsgClientCutText_def

definition setPixelFormatBodyLen :: nat where "setPixelFormatBodyLen = 20 - 1"
definition framebufferUpdateRequestBodyLen :: nat where "framebufferUpdateRequestBodyLen = 10 - 1"
definition keyEventBodyLen :: nat where "keyEventBodyLen = 8 - 1"
definition pointerEventBodyLen :: nat where "pointerEventBodyLen = 6 - 1"
definition maxClientCutTextLen :: nat where "maxClientCutTextLen = 16 * 2 ^ 20"

lemmas body_len_defs =
  setPixelFormatBodyLen_def framebufferUpdateRequestBodyLen_def keyEventBodyLen_def
  pointerEventBodyLen_def maxClientCutTextLen_def

record client_message =
  MType :: client_message_type
  Body :: bytes

text \<open>The message as it was on the wire: \<open>append([]byte{byte(m.Type)}, m.Body...)\<close>.\<close>

definition message_bytes :: "client_message \<Rightarrow> bytes" where
  "message_bytes m = MType m # Body m"

section \<open>Reading one message\<close>

text \<open>The type-dependent body: \<open>switch t\<close>.\<close>

definition read_message_body ::
    "(nat \<Rightarrow> 's \<Rightarrow> (bytes, 's) outcome) \<Rightarrow> client_message_type \<Rightarrow> 's \<Rightarrow> (client_message, 's) outcome" where
  "read_message_body rd t s =
     (if t = MsgSetPixelFormat then
        io_bind (io_wrap (wrap_truncated ''SetPixelFormat body'') (rd setPixelFormatBodyLen s))
          (\<lambda>body s. (Inr \<lparr>MType = t, Body = body\<rparr>, s))
      else if t = MsgFramebufferUpdateRequest then
        io_bind (io_wrap (wrap_truncated ''FramebufferUpdateRequest body'')
                   (rd framebufferUpdateRequestBodyLen s))
          (\<lambda>body s. (Inr \<lparr>MType = t, Body = body\<rparr>, s))
      else if t = MsgKeyEvent then
        io_bind (io_wrap (wrap_truncated ''KeyEvent body'') (rd keyEventBodyLen s))
          (\<lambda>body s. (Inr \<lparr>MType = t, Body = body\<rparr>, s))
      else if t = MsgPointerEvent then
        io_bind (io_wrap (wrap_truncated ''PointerEvent body'') (rd pointerEventBodyLen s))
          (\<lambda>body s. (Inr \<lparr>MType = t, Body = body\<rparr>, s))
      else if t = MsgSetEncodings then
        io_bind (io_wrap (wrap_truncated ''SetEncodings header'') (rd 3 s)) (\<lambda>header s.
        let n = unat (get_u16 (take 2 (drop 1 header))) in
        io_bind (io_wrap (wrap_truncated ''SetEncodings encoding list'') (rd (n * 4) s))
          (\<lambda>encodings s. (Inr \<lparr>MType = t, Body = header @ encodings\<rparr>, s)))
      else if t = MsgClientCutText then
        io_bind (io_wrap (wrap_truncated ''ClientCutText header'') (rd 7 s)) (\<lambda>header s.
        let len = unat (get_u32 (take 4 (drop 3 header))) in
        if len > maxClientCutTextLen
        then (Inl (Errorf ''rfb: ClientCutText length %d exceeds sanity limit %d''
                [len, maxClientCutTextLen]), s)
        else
          io_bind (io_wrap (wrap_truncated ''ClientCutText body'') (rd len s))
            (\<lambda>text s. (Inr \<lparr>MType = t, Body = header @ text\<rparr>, s)))
      else (Inl (ErrUnknownClientMessageType t), s))"

definition read_client_message ::
    "(nat \<Rightarrow> 's \<Rightarrow> (bytes, 's) outcome) \<Rightarrow> 's \<Rightarrow> (client_message, 's) outcome" where
  "read_client_message rd s =
     io_bind (io_wrap (wrap_truncated ''client message type'') (rd 1 s)) (\<lambda>typeBuf s.
     read_message_body rd (hd typeBuf) s)"

section \<open>The messages of the protocol\<close>

text \<open>The body length each type prescribes, with the two self-describing types.\<close>

definition wf_body :: "client_message_type \<Rightarrow> bytes \<Rightarrow> bool" where
  "wf_body t b \<longleftrightarrow>
     (if t = MsgSetPixelFormat then length b = 19
      else if t = MsgFramebufferUpdateRequest then length b = 9
      else if t = MsgKeyEvent then length b = 7
      else if t = MsgPointerEvent then length b = 5
      else if t = MsgSetEncodings then
        3 \<le> length b \<and> length b = 3 + unat (get_u16 (take 2 (drop 1 b))) * 4
      else if t = MsgClientCutText then
        7 \<le> length b \<and> length b = 7 + unat (get_u32 (take 4 (drop 3 b))) \<and>
        length b - 7 \<le> maxClientCutTextLen
      else False)"

definition wf_client_message :: "client_message \<Rightarrow> bool" where
  "wf_client_message m \<longleftrightarrow> wf_body (MType m) (Body m)"

lemma wf_body_types:
  "wf_body t b \<Longrightarrow> t = 0 \<or> t = 2 \<or> t = 3 \<or> t = 4 \<or> t = 5 \<or> t = 6"
  by (auto simp: wf_body_def split: if_splits)

lemma read_fixed_body:
  "wf_body t b \<Longrightarrow> avail s = b @ r \<Longrightarrow> t = 0 \<or> t = 3 \<or> t = 4 \<or> t = 5 \<Longrightarrow>
   read_message_body stream_read_full t s = (Inr \<lparr>MType = t, Body = b\<rparr>, s\<lparr>avail := r\<rparr>)"
  by (elim disjE) (simp_all add: wf_body_def read_message_body_def body_len_defs stream_read_full_def)

lemma read_set_encodings_body:
  "avail s = h @ e @ r \<Longrightarrow> length h = 3 \<Longrightarrow> length e = unat (get_u16 (take 2 (drop 1 h))) * 4 \<Longrightarrow>
   read_message_body stream_read_full 2 s = (Inr \<lparr>MType = 2, Body = h @ e\<rparr>, s\<lparr>avail := r\<rparr>)"
  by (simp add: read_message_body_def stream_read_full_def)

lemma read_cut_text_body:
  "avail s = h @ e @ r \<Longrightarrow> length h = 7 \<Longrightarrow> length e = unat (get_u32 (take 4 (drop 3 h))) \<Longrightarrow>
   length e \<le> maxClientCutTextLen \<Longrightarrow>
   read_message_body stream_read_full 6 s = (Inr \<lparr>MType = 6, Body = h @ e\<rparr>, s\<lparr>avail := r\<rparr>)"
  by (simp add: read_message_body_def stream_read_full_def)

text \<open>The two self-describing bodies, split into header and payload.\<close>

lemma header_fields:
  "take 2 (drop 1 (take 3 b)) = take 2 (drop 1 b)" "take 4 (drop 3 (take 7 b)) = take 4 (drop 3 b)"
  by (simp_all only: drop_take) simp_all

lemma wf_set_encodings_split:
  "wf_body 2 b \<longleftrightarrow> (\<exists>h e. b = h @ e \<and> length h = 3 \<and> length e = unat (get_u16 (take 2 (drop 1 h))) * 4)"
  (is "_ \<longleftrightarrow> ?split")
proof
  assume w: "wf_body 2 b"
  then have "b = take 3 b @ drop 3 b \<and> length (take 3 b) = 3 \<and>
      length (drop 3 b) = unat (get_u16 (take 2 (drop 1 (take 3 b)))) * 4"
    unfolding header_fields by (simp add: wf_body_def del: take_all drop_all)
  then show ?split by blast
next
  assume ?split
  then show "wf_body 2 b" by (elim exE conjE) (simp add: wf_body_def)
qed

lemma wf_cut_text_split:
  "wf_body 6 b \<longleftrightarrow> (\<exists>h e. b = h @ e \<and> length h = 7 \<and> length e = unat (get_u32 (take 4 (drop 3 h))) \<and>
     length e \<le> maxClientCutTextLen)"
  (is "_ \<longleftrightarrow> ?split")
proof
  assume w: "wf_body 6 b"
  then have "b = take 7 b @ drop 7 b \<and> length (take 7 b) = 7 \<and>
      length (drop 7 b) = unat (get_u32 (take 4 (drop 3 (take 7 b)))) \<and>
      length (drop 7 b) \<le> maxClientCutTextLen"
    unfolding header_fields by (simp add: wf_body_def del: take_all drop_all) linarith
  then show ?split by blast
next
  assume ?split
  then show "wf_body 6 b" by (elim exE conjE) (simp add: wf_body_def)
qed

lemma read_message_body_wf:
  assumes "wf_body t b" and "avail s = b @ r"
  shows "read_message_body stream_read_full t s = (Inr \<lparr>MType = t, Body = b\<rparr>, s\<lparr>avail := r\<rparr>)"
proof -
  consider "t = 0 \<or> t = 3 \<or> t = 4 \<or> t = 5" | "t = 2" | "t = 6"
    using wf_body_types [OF assms(1)] by blast
  then show ?thesis
  proof cases
    case 1
    with assms show ?thesis by (rule read_fixed_body)
  next
    case 2
    then obtain h e where "b = h @ e" "length h = 3"
      "length e = unat (get_u16 (take 2 (drop 1 h))) * 4"
      using assms(1) wf_set_encodings_split by blast
    then show ?thesis
      using 2 assms(2) read_set_encodings_body [of s h e r] by simp
  next
    case 3
    then obtain h e where "b = h @ e" "length h = 7"
      "length e = unat (get_u32 (take 4 (drop 3 h)))" "length e \<le> maxClientCutTextLen"
      using assms(1) wf_cut_text_split by blast
    then show ?thesis
      using 3 assms(2) read_cut_text_body [of s h e r] by simp
  qed
qed

lemma read_message_body_sound:
  assumes "read_message_body stream_read_full t s = (Inr m, s')"
  shows "MType m = t \<and> wf_body t (Body m) \<and> (\<exists>r. avail s = Body m @ r \<and> s' = s\<lparr>avail := r\<rparr>)"
proof -
  consider "t = 0 \<or> t = 3 \<or> t = 4 \<or> t = 5" | "t = 2" | "t = 6" | "t \<notin> {0, 2, 3, 4, 5, 6}"
    by blast
  then show ?thesis
  proof cases
    case 1
    then show ?thesis
      using assms
      by (elim disjE)
        (auto simp: wf_body_def read_message_body_def body_len_defs io_iffs stream_read_full_Inr)
  next
    case 2
    then obtain h e r where "length h = 3" and "avail s = h @ e @ r"
      and "length e = unat (get_u16 (take 2 (drop 1 h))) * 4"
      and "m = \<lparr>MType = t, Body = h @ e\<rparr>" "s' = s\<lparr>avail := r\<rparr>"
      using assms by (auto simp: read_message_body_def io_iffs stream_read_full_Inr Let_def)
    moreover from this have "wf_body 2 (h @ e)"
      unfolding wf_set_encodings_split by blast
    ultimately show ?thesis
      using 2 by simp
  next
    case 3
    then obtain h e r where "length h = 7" and "avail s = h @ e @ r"
      and "length e = unat (get_u32 (take 4 (drop 3 h)))" "length e \<le> maxClientCutTextLen"
      and "m = \<lparr>MType = t, Body = h @ e\<rparr>" "s' = s\<lparr>avail := r\<rparr>"
      using assms
      by (auto simp: read_message_body_def io_iffs stream_read_full_Inr Let_def split: if_splits)
    moreover from this have "wf_body 6 (h @ e)"
      unfolding wf_cut_text_split by blast
    ultimately show ?thesis
      using 3 by simp
  next
    case 4
    then show ?thesis
      using assms by (simp add: read_message_body_def)
  qed
qed

lemma read_client_message_at:
  assumes "avail s = message_bytes m @ r" and "wf_client_message m"
  shows "read_client_message stream_read_full s = (Inr m, s\<lparr>avail := r\<rparr>)"
proof -
  have "stream_read_full 1 s = (Inr [MType m], s\<lparr>avail := Body m @ r\<rparr>)"
    using assms(1) by (simp add: stream_read_full_def message_bytes_def)
  moreover have "read_message_body stream_read_full (MType m) (s\<lparr>avail := Body m @ r\<rparr>) =
      (Inr \<lparr>MType = MType m, Body = Body m\<rparr>, s\<lparr>avail := r\<rparr>)"
    using assms(2) read_message_body_wf [of "MType m" "Body m" "s\<lparr>avail := Body m @ r\<rparr>" r]
    by (simp add: wf_client_message_def)
  ultimately show ?thesis
    by (simp add: read_client_message_def)
qed

lemma read_client_message_sound:
  assumes "read_client_message stream_read_full s = (Inr m, s')"
  shows "wf_client_message m \<and> (\<exists>r. avail s = message_bytes m @ r \<and> s' = s\<lparr>avail := r\<rparr>)"
proof -
  from assms obtain b s1 where b: "stream_read_full 1 s = (Inr b, s1)"
    and m: "read_message_body stream_read_full (hd b) s1 = (Inr m, s')"
    unfolding read_client_message_def io_bind_Inr_iff io_wrap_Inr_iff by blast
  from b obtain t r1 where "b = [t]" "avail s = t # r1" "s1 = s\<lparr>avail := r1\<rparr>"
    by (auto simp: stream_read_full_Inr length_Suc_conv)
  with read_message_body_sound [OF m] show ?thesis
    by (auto simp: wf_client_message_def message_bytes_def)
qed

interpretation client_message_wire: prefix_codec
  message_bytes "read_client_message stream_read_full" wf_client_message
proof
  fix m r e
  assume "wf_client_message m"
  then show "read_client_message stream_read_full \<lparr>avail = message_bytes m @ r, fin = e\<rparr> =
      (Inr m, \<lparr>avail = r, fin = e\<rparr>)"
    using read_client_message_at [of "\<lparr>avail = message_bytes m @ r, fin = e\<rparr>" m r] by simp
next
  fix s m s'
  assume "read_client_message stream_read_full s = (Inr m, s')"
  then show "wf_client_message m \<and> avail s = message_bytes m @ avail s' \<and> fin s' = fin s"
    by (auto dest: read_client_message_sound)
next
  fix m
  show "message_bytes m \<noteq> []"
    by (simp add: message_bytes_def)
qed

text \<open>An unknown type byte is reported as such, with only that byte consumed.\<close>

lemma read_client_message_unknown:
  "avail s = t # r \<Longrightarrow> t \<notin> {0, 2, 3, 4, 5, 6} \<Longrightarrow>
   read_client_message stream_read_full s = (Inl (ErrUnknownClientMessageType t), s\<lparr>avail := r\<rparr>)"
  by (simp add: read_client_message_def read_message_body_def stream_read_full_def)

text \<open>A failed read touches nothing but the stream.\<close>

lemma read_message_body_Inl_more:
  "read_message_body stream_read_full t s = (Inl e, s') \<Longrightarrow> \<exists>r. s' = s\<lparr>avail := r\<rparr>"
  unfolding read_message_body_def Let_def
  by (auto simp: io_iffs stream_read_full_Inl stream_read_full_Inr split: if_splits)
    (metis stream.surjective stream.update_convs(1))+

lemma read_client_message_Inl_more:
  assumes "read_client_message stream_read_full s = (Inl e, s')"
  shows "\<exists>r. s' = s\<lparr>avail := r\<rparr>"
proof -
  consider "s' = s\<lparr>avail := []\<rparr>"
    | b r where "read_message_body stream_read_full (hd b) (s\<lparr>avail := r\<rparr>) = (Inl e, s')"
    using assms
    unfolding read_client_message_def io_bind_Inl_iff io_wrap_Inl_iff io_wrap_Inr_iff
      stream_read_full_Inr stream_read_full_Inl by blast
  then show ?thesis
    by cases (auto dest!: read_message_body_Inl_more)
qed

context reader_map
begin

lemma read_message_body_view:
  "map_prod id view (read_message_body rd t s) = read_message_body rd' t (view s)"
  unfolding read_message_body_def Let_def
  by (auto intro!: io_bind_view io_wrap_view read_view)

lemma read_client_message_view:
  "map_prod id view (read_client_message rd s) = read_client_message rd' (view s)"
  unfolding read_client_message_def
  by (intro io_bind_view io_wrap_view read_view) (simp add: read_message_body_view)

end

text \<open>The name of a message type, for logs.\<close>

definition client_message_type_string :: "client_message_type \<Rightarrow> string" where
  "client_message_type_string t =
     (if t = MsgSetPixelFormat then ''SetPixelFormat(0)''
      else if t = MsgSetEncodings then ''SetEncodings(2)''
      else if t = MsgFramebufferUpdateRequest then ''FramebufferUpdateRequest(3)''
      else if t = MsgKeyEvent then ''KeyEvent(4)''
      else if t = MsgPointerEvent then ''PointerEvent(5)''
      else if t = MsgClientCutText then ''ClientCutText(6)''
      else ''Unknown('' @ show_nat (unat t) @ '')'')"

section \<open>Properties of the message reader\<close>

text \<open>
  C39: the message reader is exact. It returns a message if and only if the stream starts
  with that message's encoding, the type byte and a body of the length its type (and, for
  the two self-describing types, its header) prescribes, a cut text being at most 16 MiB;
  it consumes that encoding and nothing after it.
\<close>

theorem read_client_message_iff:
  "read_client_message stream_read_full s = (Inr m, s') \<longleftrightarrow>
     wf_client_message m \<and> avail s = message_bytes m @ avail s' \<and> s' = s\<lparr>avail := avail s'\<rparr>"
proof
  assume "read_client_message stream_read_full s = (Inr m, s')"
  then show "wf_client_message m \<and> avail s = message_bytes m @ avail s' \<and> s' = s\<lparr>avail := avail s'\<rparr>"
    using read_client_message_sound [of s m s'] by auto
next
  assume "wf_client_message m \<and> avail s = message_bytes m @ avail s' \<and> s' = s\<lparr>avail := avail s'\<rparr>"
  then show "read_client_message stream_read_full s = (Inr m, s')"
    using read_client_message_at [of s m "avail s'"] by simp
qed

text \<open>
  a sequence of client messages has one reading: two lists of well-formed messages with
  the same bytes are the same list, so the filter cannot mistake message boundaries.
\<close>

theorem client_messages_unique:
  assumes "list_all wf_client_message ms" and "list_all wf_client_message ns"
    and "concat (map message_bytes ms) = concat (map message_bytes ns)"
  shows "ms = ns"
  using assms by (rule client_message_wire.stream_unique)

theorem client_messages_unique_witness:
  "[\<lparr>MType = 5, Body = [0, 0, 0, 0, 0]\<rparr>] = [\<lparr>MType = 5, Body = replicate 5 0\<rparr>]"
proof (rule client_messages_unique)
  have "replicate 5 (0 :: byte) = [0, 0, 0, 0, 0]" by (simp add: numeral_eq_Suc)
  then show "concat (map message_bytes [\<lparr>MType = 5, Body = [0, 0, 0, 0, 0]\<rparr>]) =
      concat (map message_bytes [\<lparr>MType = 5, Body = replicate 5 0\<rparr>])" by simp
qed (simp_all add: wf_client_message_def wf_body_def)

end
