(* ===== verification/Transport_Channel.thy ===== *)
theory Transport_Channel
  imports Transport_Frame Rfb_Handshake Rfb_ClientMsg "HOL-Library.Sublist"
begin

text \<open>
  \<open>internal/transport/channel.go\<close>: a \<open>net.Conn\<close> over a \<open>FrameSink\<close> and a
  \<open>FrameSource\<close>. The sink is the locale \<open>frame_sink\<close>; the channel itself is a
  \<open>duplex\<close> connection, so every lemma about the handshakes applies to it however the
  host cuts the byte stream into frames.
\<close>

section \<open>Writing through a sink\<close>

text \<open>
  \<open>Write\<close>: each chunk is handed to the write pump in order; an error of the sink, a
  deadline or a close ends the call with the count of the bytes handed off. \<open>send\<close> is the
  outcome of one chunk as \<open>Write\<close> sees it.
\<close>

fun write_chunks ::
    "(bytes \<Rightarrow> 's \<Rightarrow> (unit, 's) outcome) \<Rightarrow> nat \<Rightarrow> bytes list \<Rightarrow> 's \<Rightarrow> (nat \<times> go_error option) \<times> 's" where
  "write_chunks send sofar [] s = ((sofar, None), s)"
| "write_chunks send sofar (c # cs) s =
     (case send c s of
        (Inl e, s) \<Rightarrow> ((sofar, Some e), s)
      | (Inr _, s) \<Rightarrow> write_chunks send (sofar + length c) cs s)"

definition channel_write ::
    "(bytes \<Rightarrow> 's \<Rightarrow> (unit, 's) outcome) \<Rightarrow> int \<Rightarrow> bytes \<Rightarrow> 's \<Rightarrow> (nat \<times> go_error option) \<times> 's" where
  "channel_write send maxPayload b s = write_chunks send 0 (split_payload b maxPayload) s"

text \<open>
  The interface \<open>FrameSink\<close>: a payload whose \<open>Send\<close> succeeds is appended to what the peer
  gets; one whose \<open>Send\<close> fails leaves no trace.
\<close>

locale frame_sink =
  fixes send :: "bytes \<Rightarrow> 's \<Rightarrow> (unit, 's) outcome"
    and payloads :: "'s \<Rightarrow> bytes list"
    and ok :: "'s \<Rightarrow> bool"
  assumes send_Inr: "ok s \<Longrightarrow> send p s = (Inr u, s') \<Longrightarrow> ok s' \<and> payloads s' = payloads s @ [p]"
    and send_Inl: "ok s \<Longrightarrow> send p s = (Inl e, s') \<Longrightarrow> ok s' \<and> payloads s' = payloads s"
begin

lemma write_chunks_spec:
  assumes "write_chunks send sofar cs s = ((n, err), s')" and "ok s"
  shows "ok s' \<and> (\<exists>handed rest. cs = handed @ rest \<and> payloads s' = payloads s @ handed \<and>
    n = sofar + length (concat handed) \<and> (err = None \<longleftrightarrow> rest = []))"
  using assms
proof (induction cs arbitrary: sofar s)
  case Nil
  then show ?case by auto
next
  case (Cons c cs)
  obtain r s1 where send: "send c s = (r, s1)" by (cases "send c s")
  show ?case
  proof (cases r)
    case (Inl e)
    with Cons.prems send have "n = sofar" "err = Some e" "payloads s' = payloads s" "ok s'"
      by (auto dest: send_Inl)
    then have "ok s' \<and> c # cs = [] @ c # cs \<and> payloads s' = payloads s @ [] \<and>
        n = sofar + length (concat []) \<and> (err = None \<longleftrightarrow> c # cs = [])" by simp
    then show ?thesis by blast
  next
    case (Inr u)
    with Cons.prems send have w: "write_chunks send (sofar + length c) cs s1 = ((n, err), s')"
      and s1: "ok s1" "payloads s1 = payloads s @ [c]" by (auto dest: send_Inr)
    from Cons.IH [OF w s1(1)] obtain handed rest where ih: "ok s'" "cs = handed @ rest"
      "payloads s' = payloads s1 @ handed" "n = sofar + length c + length (concat handed)"
      "err = None \<longleftrightarrow> rest = []" by blast
    with s1 have "ok s' \<and> c # cs = (c # handed) @ rest \<and> payloads s' = payloads s @ c # handed \<and>
        n = sofar + length (concat (c # handed)) \<and> (err = None \<longleftrightarrow> rest = [])" by simp
    then show ?thesis by blast
  qed
qed

text \<open>
  What reaches the peer is a prefix of the buffer, cut into the frames of its split, and
  the returned count is the length of that prefix; without an error it is all of it.
\<close>

lemma channel_write_prefix:
  assumes "channel_write send m b s = ((n, err), s')" and "ok s"
  shows "\<exists>frames. payloads s' = payloads s @ frames \<and> concat frames = take n b \<and> n \<le> length b \<and>
    list_all (\<lambda>c. c \<noteq> [] \<and> length c \<le> max_payload m) frames \<and> (err = None \<longrightarrow> n = length b)"
proof -
  have whole: "concat (split_payload b m) = b"
    by (simp add: split_payload_loop concat_split_loop)
  from write_chunks_spec [OF assms(1) [unfolded channel_write_def] assms(2)] obtain handed rest where
    split: "split_payload b m = handed @ rest" and "payloads s' = payloads s @ handed"
    and n: "n = length (concat handed)" and err: "err = None \<longleftrightarrow> rest = []"
    by auto
  moreover have b: "b = concat handed @ concat rest"
    using whole split by simp
  moreover have "list_all (\<lambda>c. c \<noteq> [] \<and> length c \<le> max_payload m) handed"
    using split_loop_sizes [of "max_payload m" b] split by (simp add: split_payload_loop)
  ultimately show ?thesis by auto
qed

end

section \<open>The channel\<close>

text \<open>
  A channel as its user sees it: the unread rest of the last payload, the payloads the read
  pump will still hand over, the error \<open>Read\<close> returns after them (\<open>io.EOF\<close> when the
  source ends, a timeout, a closed channel), and, for writing, the payloads sent so far, how many
  more sends succeed (\<open>None\<close>: all) and the error after that.
\<close>

record channel =
  readBuf :: bytes
  readCh :: "bytes list"
  readEnd :: go_error
  sunk :: "bytes list"
  sinkLeft :: "nat option"
  sinkErr :: go_error

definition sink_send :: "bytes \<Rightarrow> channel \<Rightarrow> (unit, channel) outcome" where
  "sink_send p c =
     (case sinkLeft c of
        None \<Rightarrow> (Inr (), c\<lparr>sunk := sunk c @ [p]\<rparr>)
      | Some 0 \<Rightarrow> (Inl (sinkErr c), c)
      | Some (Suc k) \<Rightarrow> (Inr (), c\<lparr>sunk := sunk c @ [p], sinkLeft := Some k\<rparr>))"

interpretation mem_sink: frame_sink sink_send sunk "\<lambda>_. True"
  by unfold_locales (auto simp: sink_send_def split: option.splits nat.splits)

text \<open>The read pump skips empty payloads.\<close>

definition read_pump :: "bytes list \<Rightarrow> bytes list" where
  "read_pump ps = dropWhile (\<lambda>p. p = []) ps"

text \<open>\<open>Read\<close> into a buffer of \<open>n\<close> bytes: from the rest of a payload, else from the next one.\<close>

definition channel_read :: "nat \<Rightarrow> channel \<Rightarrow> (bytes, channel) outcome" where
  "channel_read n c =
     (if readBuf c = []
      then (case read_pump (readCh c) of
              [] \<Rightarrow> (Inl (readEnd c), c\<lparr>readCh := []\<rparr>)
            | p # ps \<Rightarrow> (Inr (take n p), c\<lparr>readBuf := drop n p, readCh := ps\<rparr>))
      else (Inr (take n (readBuf c)), c\<lparr>readBuf := drop n (readBuf c)\<rparr>))"

lemma read_pump_Cons: "read_pump ps = p # qs \<Longrightarrow> p \<noteq> []"
  using hd_dropWhile [of "\<lambda>p. p = []" ps] by (auto simp: read_pump_def)

lemma concat_read_pump [simp]: "concat (read_pump ps) = concat ps"
  by (induction ps) (auto simp: read_pump_def)

lemma channel_read_progress:
  "channel_read n c = (Inr b, c') \<Longrightarrow> 0 < n \<Longrightarrow> b \<noteq> [] \<and> length b \<le> n"
  by (auto simp: channel_read_def split: if_splits list.splits dest: read_pump_Cons)

text \<open>\<open>io.ReadFull\<close>: \<open>Read\<close> until the buffer is full or an error.\<close>

function read_full_loop :: "nat \<Rightarrow> bytes \<Rightarrow> channel \<Rightarrow> (bytes, channel) outcome" where
  "read_full_loop n got c =
     (if n \<le> length got then (Inr got, c)
      else case channel_read (n - length got) c of
             (Inl e, c') \<Rightarrow> (Inl (short_read got e), c')
           | (Inr b, c') \<Rightarrow> read_full_loop n (got @ b) c')"
  by pat_completeness auto
termination
  by (relation "measure (\<lambda>(n, got, c). n - length got)")
    (auto dest!: channel_read_progress [OF sym] simp: diff_less_mono2)

declare read_full_loop.simps [simp del]

definition channel_read_full :: "nat \<Rightarrow> channel \<Rightarrow> (bytes, channel) outcome" where
  "channel_read_full n c = read_full_loop n [] c"

text \<open>
  \<open>Write\<close> as its callers use it, the count dropped; the frame size \<open>m\<close> is fixed when the
  channel is built.
\<close>

definition channel_write_unit :: "int \<Rightarrow> bytes \<Rightarrow> channel \<Rightarrow> (unit, channel) outcome" where
  "channel_write_unit m b c =
     (case channel_write sink_send m b c of
        ((n, Some e), c') \<Rightarrow> (Inl e, c')
      | ((n, None), c') \<Rightarrow> (Inr (), c'))"

section \<open>A channel is a connection\<close>

definition channel_view :: "channel \<Rightarrow> conn" where
  "channel_view c =
     \<lparr>avail = readBuf c @ concat (readCh c), fin = readEnd c, sent = concat (sunk c),
      wr_left = sinkLeft c, wr_err = sinkErr c\<rparr>"

lemma channel_read_view:
  "channel_read n c = (Inr b, c') \<Longrightarrow>
     avail (channel_view c) = b @ avail (channel_view c') \<and>
     channel_view c' = (channel_view c)\<lparr>avail := avail (channel_view c')\<rparr>"
proof -
  assume r: "channel_read n c = (Inr b, c')"
  show ?thesis
  proof (cases "readBuf c = []")
    case False
    with r show ?thesis by (auto simp: channel_read_def channel_view_def)
  next
    case True
    with r obtain p ps where p: "read_pump (readCh c) = p # ps" "b = take n p"
      "c' = c\<lparr>readBuf := drop n p, readCh := ps\<rparr>"
      by (auto simp: channel_read_def split: list.splits)
    have "concat (readCh c) = p @ concat ps"
      using concat_read_pump [of "readCh c"] p(1) by simp
    with True p show ?thesis by (simp add: channel_view_def)
  qed
qed

lemma channel_read_fails:
  "channel_read n c = (Inl e, c') \<Longrightarrow>
     avail (channel_view c) = [] \<and> e = readEnd c \<and> channel_view c' = channel_view c"
proof -
  assume r: "channel_read n c = (Inl e, c')"
  have "concat (readCh c) = []" if "read_pump (readCh c) = []"
    using that concat_read_pump [of "readCh c"] by (metis concat.simps(1))
  with r show ?thesis
    by (auto simp del: concat_eq_Nil_conv simp: channel_read_def channel_view_def
        split: if_splits list.splits)
qed

lemma read_full_loop_view:
  "map_prod id channel_view (read_full_loop n got c) =
     (if n \<le> length got then (Inr got, channel_view c)
      else if n \<le> length got + length (avail (channel_view c))
      then (Inr (got @ take (n - length got) (avail (channel_view c))),
            (channel_view c)\<lparr>avail := drop (n - length got) (avail (channel_view c))\<rparr>)
      else (Inl (short_read (got @ avail (channel_view c)) (readEnd c)),
            (channel_view c)\<lparr>avail := []\<rparr>))"
proof (induction n got c rule: read_full_loop.induct)
  case (1 n got c)
  show ?case
  proof (cases "n \<le> length got")
    case True
    then show ?thesis by (simp add: read_full_loop.simps)
  next
    case False
    obtain r c' where rd: "channel_read (n - length got) c = (r, c')"
      by (cases "channel_read (n - length got) c")
    show ?thesis
    proof (cases r)
      case (Inl e)
      with rd channel_read_fails have
        "avail (channel_view c) = [] \<and> e = readEnd c \<and> channel_view c' = channel_view c" by blast
      with False rd Inl show ?thesis
        by (subst read_full_loop.simps) (simp add: stream_with_avail)
    next
      case (Inr b)
      then have b: "b \<noteq> []" "length b \<le> n - length got"
        using rd False channel_read_progress [of "n - length got" c b c'] by auto
      obtain a where a: "avail (channel_view c) = b @ a" "channel_view c' = (channel_view c)\<lparr>avail := a\<rparr>"
        using channel_read_view [of "n - length got" c b c'] rd Inr by auto
      have fin: "readEnd c' = readEnd c"
        using a(2) by (simp add: channel_view_def)
      have step: "read_full_loop n got c = read_full_loop n (got @ b) c'"
        using False rd Inr by (subst read_full_loop.simps) simp
      show ?thesis
        unfolding step using "1.IH" [OF False] rd Inr a b fin False by auto
    qed
  qed
qed

lemma channel_write_unit_view:
  "b \<noteq> [] \<Longrightarrow> length b \<le> max_payload m \<Longrightarrow>
   map_prod id channel_view (channel_write_unit m b c) = conn_write b (channel_view c)"
  by (auto simp: channel_write_unit_def channel_write_def split_payload_one sink_send_def conn_write_def
      channel_view_def split: option.splits nat.splits)

interpretation channel: byte_source channel_read_full channel_view
proof
  fix n c
  show "map_prod id channel_view (channel_read_full n c) = stream_read_full n (channel_view c)"
    unfolding channel_read_full_def read_full_loop_view [of n "[]" c]
    by (auto simp: stream_read_full_def channel_view_def)
qed

interpretation channel: duplex channel_read_full channel_view "channel_write_unit m" "max_payload m" for m
  by unfold_locales (rule channel_write_unit_view)

text \<open>Reading touches only the unread bytes: the rest of the channel is as before.\<close>

definition drained :: "channel \<Rightarrow> channel" where
  "drained c = c\<lparr>readBuf := [], readCh := []\<rparr>"

lemma channel_read_drained: "drained (snd (channel_read n c)) = drained c"
  by (auto simp: channel_read_def drained_def split: list.splits)

lemma read_full_loop_drained: "drained (snd (read_full_loop n got c)) = drained c"
proof (induction n got c rule: read_full_loop.induct)
  case (1 n got c)
  obtain r c' where rd: "channel_read (n - length got) c = (r, c')"
    by (cases "channel_read (n - length got) c")
  then have "drained c' = drained c"
    using channel_read_drained [of "n - length got" c] by simp
  then show ?case
    using "1.IH" rd by (subst read_full_loop.simps) (auto split: sum.splits)
qed

lemma channel_read_full_drained: "drained (snd (channel_read_full n c)) = drained c"
  by (simp add: channel_read_full_def read_full_loop_drained)

text \<open>
  Writing touches only what has been sent; what has been sent grows by the prefix written, and a
  sink that never fails takes everything.
\<close>

definition unsent :: "channel \<Rightarrow> channel" where
  "unsent c = c\<lparr>sunk := [], sinkLeft := None\<rparr>"

lemma write_chunks_unsent:
  "write_chunks sink_send k cs c = (r, c') \<Longrightarrow> unsent c' = unsent c \<and>
     (sinkLeft c = None \<longrightarrow> sinkLeft c' = None \<and> snd r = None)"
proof (induction cs arbitrary: k c)
  case (Cons b bs)
  obtain x c1 where send: "sink_send b c = (x, c1)" by (cases "sink_send b c")
  then have "unsent c1 = unsent c" "sinkLeft c = None \<longrightarrow> sinkLeft c1 = None \<and> x = Inr ()"
    by (auto simp: sink_send_def unsent_def split: option.splits nat.splits)
  with Cons send show ?case by (cases x) auto
qed auto

lemma channel_write_unit_sent:
  assumes "channel_write_unit m b c = (r, c')"
  shows "unsent c' = unsent c \<and> (sinkLeft c = None \<longrightarrow> sinkLeft c' = None \<and> r = Inr ()) \<and>
    (\<exists>sent_part. concat (sunk c') = concat (sunk c) @ sent_part \<and> prefix sent_part b \<and> (r = Inr () \<longrightarrow> sent_part = b))"
proof -
  obtain n err d where w: "channel_write sink_send m b c = ((n, err), d)"
    by (metis surj_pair)
  then have r: "r = (case err of None \<Rightarrow> Inr () | Some e \<Rightarrow> Inl e)" "d = c'"
    using assms by (auto simp: channel_write_unit_def split: option.splits)
  obtain frames where "sunk c' = sunk c @ frames" "concat frames = take n b" "err = None \<longrightarrow> n = length b"
    using mem_sink.channel_write_prefix [OF w] r(2) by auto
  moreover have "prefix (take n b) b" by (rule take_is_prefix)
  ultimately show ?thesis
    using write_chunks_unsent [OF w [unfolded channel_write_def]] r by (auto split: option.splits)
qed

section \<open>Properties of the channel\<close>

text \<open>
  \<open>Write\<close> reports exactly what the peer was sent. Whatever the sink does, the payloads
  handed to it are a prefix of the buffer, in order, each non-empty and at most the frame
  size; the returned count is the length of that prefix, and it is the whole buffer
  exactly when no error is returned.
\<close>

theorem channel_write_reports_prefix:
  assumes "channel_write sink_send m b c = ((n, err), c')"
  shows "\<exists>frames. sunk c' = sunk c @ frames \<and> concat frames = take n b \<and> n \<le> length b \<and>
    list_all (\<lambda>f. f \<noteq> [] \<and> length f \<le> max_payload m) frames \<and> (err = None \<longrightarrow> n = length b)"
  using mem_sink.channel_write_prefix [OF assms] by simp

definition demo_channel :: "bytes list \<Rightarrow> nat option \<Rightarrow> channel" where
  "demo_channel ps k = \<lparr>readBuf = [], readCh = ps, readEnd = EOF, sunk = [],
     sinkLeft = k, sinkErr = ErrClosed\<rparr>"

theorem channel_write_reports_prefix_witness:
  "\<exists>frames. sunk ((demo_channel [] (Some 0))\<lparr>sunk := [[1, 2]]\<rparr>) = sunk (demo_channel [] (Some 1)) @ frames \<and>
    concat frames = take 2 [1, 2, 3] \<and> 2 \<le> length [1 :: byte, 2, 3] \<and>
    list_all (\<lambda>f. f \<noteq> [] \<and> length f \<le> max_payload 2) frames"
proof -
  have "channel_write sink_send 2 [1, 2, 3] (demo_channel [] (Some 1)) =
      ((2, Some ErrClosed), (demo_channel [] (Some 0))\<lparr>sunk := [[1, 2]]\<rparr>)"
    by (simp add: channel_write_def split_payload_loop max_payload_def split_loop_long sink_send_def
        demo_channel_def)
  from channel_write_reports_prefix [OF this] show ?thesis by simp
qed

text \<open>
  \<open>io.ReadFull\<close> over a channel does not see frames. However the incoming bytes are cut
  into payloads, empty ones included, it returns the next \<open>n\<close> bytes of their concatenation,
  keeping the rest for the next call, or, when fewer arrive before the end, the reader's
  error (\<open>io.ErrUnexpectedEOF\<close> for \<open>io.EOF\<close> after a partial read).
\<close>

theorem channel_read_full_spec:
  "map_prod id (\<lambda>c'. readBuf c' @ concat (readCh c')) (channel_read_full n c) =
     (let b = readBuf c @ concat (readCh c) in
      if n \<le> length b then (Inr (take n b), drop n b)
      else (Inl (if b \<noteq> [] \<and> readEnd c = EOF then UnexpectedEOF else readEnd c), []))"
proof -
  have "map_prod id avail (map_prod id channel_view (channel_read_full n c)) =
      map_prod id avail (stream_read_full n (channel_view c))"
    by (simp only: channel.read_view)
  moreover have "map_prod id avail (map_prod id channel_view r) =
      map_prod id (\<lambda>c'. readBuf c' @ concat (readCh c')) r" for r :: "(bytes, channel) outcome"
    by (cases r) (simp add: channel_view_def)
  ultimately show ?thesis
    by (simp add: stream_read_full_def channel_view_def short_read_def Let_def)
qed

text \<open>
  C10: the server handshake over a channel is the server handshake over its byte stream:
  same result, same error, same bytes sent, same bytes left for the relay. Two channels
  whose payloads differ only in where frames are cut cannot be told apart by it. The
  frame size only has to hold the 16-byte response.
\<close>

theorem handshake_over_channel:
  assumes "16 \<le> max_payload m"
  shows "map_prod id channel_view (handshake channel_read_full (channel_write_unit m) password c) =
    handshake stream_read_full conn_write password (channel_view c)"
  using assms by (rule channel.handshake_view)

theorem handshake_over_channel_witness:
  "map_prod id channel_view
     (handshake channel_read_full (channel_write_unit 1048576) [1]
        (demo_channel [[82, 70], [], [66, 32, 48], server_script V38 [1] [] (0, [])] None)) =
   handshake stream_read_full conn_write [1]
     (channel_view (demo_channel [[82, 70], [], [66, 32, 48], server_script V38 [1] [] (0, [])] None))"
  by (rule handshake_over_channel) (simp add: max_payload_def)

text \<open>
  the browser handshake and the reader of client messages over a channel are likewise
  those over its byte stream.
\<close>

theorem browser_side_over_channel:
  assumes "12 \<le> max_payload m"
  shows "map_prod id channel_view (frontshake channel_read_full (channel_write_unit m) c) =
      frontshake stream_read_full conn_write (channel_view c) \<and>
    map_prod id channel_view (read_client_message channel_read_full c) =
      read_client_message stream_read_full (channel_view c)"
  using channel.frontshake_view [OF assms] channel.read_client_message_view by blast

theorem browser_side_over_channel_witness:
  "map_prod id channel_view
     (frontshake channel_read_full (channel_write_unit 65536) (demo_channel [[82], browser_script] None)) =
   frontshake stream_read_full conn_write (channel_view (demo_channel [[82], browser_script] None))"
  using browser_side_over_channel [of 65536 "demo_channel [[82], browser_script] None"]
  by (simp add: max_payload_def)

end
