(* ===== verification/Transport_Pumps.thy ===== *)
theory Transport_Pumps
  imports Transport_Channel
begin

text \<open>
  \<open>internal/transport/channel.go\<close> as it runs: \<open>Write\<close> and the write pump, \<open>Read\<close> and the read
  pump, with deadlines that may expire and a \<open>Close\<close> that may happen at any point. A Go channel
  without buffer is a step of both sides.
\<close>

section \<open>Writing\<close>

text \<open>
  Where a \<open>Write\<close> is: at the first \<open>select\<close> of the loop with the chunks that are left, or at the
  second, waiting for the answer to the request of a number. Where the pump is: at its \<open>select\<close>, in
  \<open>Send\<close> with the chunk of a request of a call, or returned.
\<close>

datatype writing = NotWriting | Offering "bytes list" | Awaiting nat bytes "bytes list"

datatype write_pump = WaitingRequest | Sending nat nat bytes | PumpReturned

text \<open>
  \<open>buffers\<close> are the arguments of the calls of \<open>Write\<close> so far, \<open>outcomes\<close> what the finished ones
  returned; \<open>wire\<close> are the chunks that \<open>Send\<close> took, with the call they are of. \<open>answers\<close> are the
  \<open>done\<close> channels (of capacity one) by request.
\<close>

record writer =
  limit :: int
  wshut :: bool
  writing :: writing
  total :: nat
  pump_at :: write_pump
  answers :: "nat \<rightharpoonup> go_error option"
  requests :: nat
  buffers :: "bytes list"
  outcomes :: "(nat \<times> go_error option) list"
  wire :: "(nat \<times> bytes) list"

definition new_writer :: "int \<Rightarrow> writer" where
  "new_writer m = \<lparr>limit = m, wshut = False, writing = NotWriting, total = 0, pump_at = WaitingRequest,
     answers = Map.empty, requests = 0, buffers = [], outcomes = [], wire = []\<rparr>"

definition returns :: "go_error option \<Rightarrow> writer \<Rightarrow> writer" where
  "returns err s = s\<lparr>writing := NotWriting, outcomes := outcomes s @ [(total s, err)]\<rparr>"

definition hand_over :: "bytes \<Rightarrow> bytes list \<Rightarrow> writer \<Rightarrow> writer" where
  "hand_over c cs s =
     s\<lparr>writing := Awaiting (requests s) c cs, pump_at := Sending (length (outcomes s)) (requests s) c,
       requests := requests s + 1\<rparr>"

definition sent_by_pump :: "nat \<Rightarrow> nat \<Rightarrow> bytes \<Rightarrow> go_error option \<Rightarrow> writer \<Rightarrow> writer" where
  "sent_by_pump k i c err s =
     s\<lparr>pump_at := WaitingRequest, answers := (answers s)(i \<mapsto> err),
       wire := (case err of None \<Rightarrow> wire s @ [(k, c)] | Some _ \<Rightarrow> wire s)\<rparr>"

inductive write_step :: "writer \<Rightarrow> writer \<Rightarrow> bool" where
  call: "writing s = NotWriting \<Longrightarrow>
    write_step s (s\<lparr>writing := Offering (split_payload b (limit s)), total := 0, buffers := buffers s @ [b]\<rparr>)"
| finish: "writing s = Offering [] \<Longrightarrow> write_step s (returns None s)"
| hand: "writing s = Offering (c # cs) \<Longrightarrow> pump_at s = WaitingRequest \<Longrightarrow> write_step s (hand_over c cs s)"
| send: "pump_at s = Sending k i c \<Longrightarrow> write_step s (sent_by_pump k i c err s)"
| answer: "writing s = Awaiting i c cs \<Longrightarrow> answers s i = Some None \<Longrightarrow>
    write_step s (s\<lparr>writing := Offering cs, total := total s + length c\<rparr>)"
| failure: "writing s = Awaiting i c cs \<Longrightarrow> answers s i = Some (Some err) \<Longrightarrow> write_step s (returns (Some err) s)"
| expires: "writing s = Offering (c # cs) \<or> writing s = Awaiting i c cs \<Longrightarrow>
    write_step s (returns (Some (TimeoutError ''write'')) s)"
| refused: "wshut s \<Longrightarrow> writing s = Offering (c # cs) \<or> writing s = Awaiting i c cs \<Longrightarrow>
    write_step s (returns (Some ErrClosed) s)"
| pump_returns: "wshut s \<Longrightarrow> pump_at s = WaitingRequest \<Longrightarrow> write_step s (s\<lparr>pump_at := PumpReturned\<rparr>)"
| shut: "write_step s (s\<lparr>wshut := True\<rparr>)"

text \<open>What the peer has of a call, and what the pump is sending of it.\<close>

definition on_wire :: "nat \<Rightarrow> writer \<Rightarrow> bytes" where
  "on_wire k s = concat (map snd (filter (\<lambda>f. fst f = k) (wire s)))"

definition in_flight :: "nat \<Rightarrow> writer \<Rightarrow> bytes" where
  "in_flight k s = (case pump_at s of Sending k' i c \<Rightarrow> if k' = k then c else [] | _ \<Rightarrow> [])"

text \<open>
  A finished call: what is on the wire and what is being sent of it make a prefix of its buffer;
  the count it returned is on the wire, and at most one chunk more. The call under way: what the
  count says is on the wire, except for the chunk whose answer it awaits.
\<close>

definition outcome_ok :: "writer \<Rightarrow> nat \<Rightarrow> bool" where
  "outcome_ok s k \<longleftrightarrow> (case outcomes s ! k of (n, err) \<Rightarrow>
     prefix (on_wire k s @ in_flight k s) (buffers s ! k) \<and> n \<le> length (on_wire k s) \<and>
     length (on_wire k s @ in_flight k s) \<le> n + max_payload (limit s) \<and>
     (err = None \<longrightarrow> on_wire k s = buffers s ! k \<and> n = length (buffers s ! k) \<and> in_flight k s = []))"

abbreviation current :: "writer \<Rightarrow> nat" where
  "current s \<equiv> length (outcomes s)"

definition call_ok :: "writer \<Rightarrow> bool" where
  "call_ok s \<longleftrightarrow> (case writing s of
       NotWriting \<Rightarrow> length (buffers s) = current s
     | Offering cs \<Rightarrow> length (buffers s) = Suc (current s) \<and> total s = length (on_wire (current s) s) \<and>
         in_flight (current s) s = [] \<and> on_wire (current s) s @ concat cs = buffers s ! current s \<and>
         list_all (\<lambda>c. c \<noteq> [] \<and> length c \<le> max_payload (limit s)) cs
     | Awaiting i c cs \<Rightarrow> length (buffers s) = Suc (current s) \<and> i < requests s \<and>
         list_all (\<lambda>c. c \<noteq> [] \<and> length c \<le> max_payload (limit s)) (c # cs) \<and>
         (case answers s i of
            None \<Rightarrow> pump_at s = Sending (current s) i c \<and> total s = length (on_wire (current s) s) \<and>
              on_wire (current s) s @ c @ concat cs = buffers s ! current s
          | Some None \<Rightarrow> in_flight (current s) s = [] \<and> total s + length c = length (on_wire (current s) s) \<and>
              on_wire (current s) s @ concat cs = buffers s ! current s
          | Some (Some e) \<Rightarrow> in_flight (current s) s = [] \<and> total s = length (on_wire (current s) s) \<and>
              prefix (on_wire (current s) s) (buffers s ! current s)))"

text \<open>The wire has the calls in their order, the chunk under way last.\<close>

definition wire_ok :: "writer \<Rightarrow> bool" where
  "wire_ok s \<longleftrightarrow> sorted (map fst (wire s) @ (case pump_at s of Sending k i c \<Rightarrow> [k] | _ \<Rightarrow> [])) \<and>
     list_all (\<lambda>f. fst f < length (buffers s) \<and> snd f \<noteq> [] \<and> length (snd f) \<le> max_payload (limit s)) (wire s) \<and>
     (\<forall>k i c. pump_at s = Sending k i c \<longrightarrow> k < length (buffers s) \<and> i < requests s \<and> answers s i = None \<and>
        c \<noteq> [] \<and> length c \<le> max_payload (limit s)) \<and>
     dom (answers s) \<subseteq> {..<requests s}"

definition writer_ok :: "writer \<Rightarrow> bool" where
  "writer_ok s \<longleftrightarrow> wire_ok s \<and> call_ok s \<and> (\<forall>k < length (outcomes s). outcome_ok s k)"

lemma writer_ok_new: "writer_ok (new_writer m)"
  by (simp add: writer_ok_def wire_ok_def call_ok_def new_writer_def)

lemma prefix_front: "xs @ ys = zs \<Longrightarrow> prefix xs zs" "xs @ ys @ us = zs \<Longrightarrow> prefix (xs @ ys) zs"
  by (metis prefixI, metis append_assoc prefixI)

lemma returns_ok:
  assumes "writer_ok s" and "writing s = Offering [] \<and> err = None \<or> err \<noteq> None \<and> writing s \<noteq> NotWriting"
  shows "writer_ok (returns err s)"
proof -
  let ?k = "length (outcomes s)" and ?s = "returns err s"
  have same: "on_wire k ?s = on_wire k s" "in_flight k ?s = in_flight k s" for k
    by (simp_all add: on_wire_def in_flight_def returns_def)
  have "outcome_ok ?s k" if "k < ?k" for k
    using assms(1) that unfolding writer_ok_def outcome_ok_def same by (simp add: returns_def nth_append)
  moreover have "outcome_ok ?s ?k"
    using assms unfolding writer_ok_def call_ok_def outcome_ok_def same
    by (auto simp: returns_def in_flight_def split: writing.splits option.splits write_pump.splits
        dest: prefix_front)
  moreover have "length (outcomes ?s) = Suc ?k" by (simp add: returns_def)
  ultimately have "\<forall>k < length (outcomes ?s). outcome_ok ?s k" by (simp add: less_Suc_eq)
  moreover have "wire_ok ?s" using assms(1) by (simp add: writer_ok_def wire_ok_def returns_def)
  moreover have "call_ok ?s"
    using assms by (auto simp: writer_ok_def call_ok_def returns_def split: writing.splits)
  ultimately show ?thesis by (simp add: writer_ok_def)
qed

lemma unsent_call: "wire_ok s \<Longrightarrow> length (buffers s) \<le> k \<Longrightarrow> on_wire k s = [] \<and> in_flight k s = []"
  by (auto simp: wire_ok_def on_wire_def in_flight_def list_all_iff filter_empty_conv split: write_pump.splits)

lemma call_begins:
  assumes "writer_ok s" and "writing s = NotWriting"
  shows "writer_ok (s\<lparr>writing := Offering (split_payload b (limit s)), total := 0, buffers := buffers s @ [b]\<rparr>)"
proof -
  let ?s = "s\<lparr>writing := Offering (split_payload b (limit s)), total := 0, buffers := buffers s @ [b]\<rparr>"
  have same: "on_wire k ?s = on_wire k s" "in_flight k ?s = in_flight k s" for k
    by (simp_all add: on_wire_def in_flight_def)
  have len: "length (buffers s) = length (outcomes s)" using assms by (simp add: writer_ok_def call_ok_def)
  then have "on_wire (length (outcomes s)) s = []" "in_flight (length (outcomes s)) s = []"
    using assms(1) unsent_call [of s "length (outcomes s)"] by (simp_all add: writer_ok_def)
  moreover have "(buffers s @ [b]) ! current s = b" by (simp add: len [symmetric])
  ultimately have "call_ok ?s"
    using split_loop_sizes [of "max_payload (limit s)" b] len
    unfolding call_ok_def same by (simp add: split_payload_loop concat_split_loop)
  moreover have "wire_ok ?s" using assms(1) by (auto simp: writer_ok_def wire_ok_def list_all_iff)
  moreover have "outcome_ok ?s k" if "k < length (outcomes s)" for k
    using assms(1) that len unfolding writer_ok_def outcome_ok_def same by (simp add: nth_append)
  ultimately show ?thesis by (simp add: writer_ok_def)
qed

lemma hand_over_ok:
  assumes "writer_ok s" and "writing s = Offering (c # cs)" and "pump_at s = WaitingRequest"
  shows "writer_ok (hand_over c cs s)"
proof -
  let ?s = "hand_over c cs s" and ?k = "length (outcomes s)"
  have same: "on_wire k ?s = on_wire k s" "in_flight k ?s = (if k = ?k then c else [])" "in_flight k s = []" for k
    using assms(3) by (auto simp: on_wire_def in_flight_def hand_over_def)
  have fresh: "answers s (requests s) = None" "length (buffers s) = Suc ?k"
    using assms by (auto simp: writer_ok_def wire_ok_def call_ok_def)
  have "call_ok ?s"
    using assms fresh unfolding call_ok_def writer_ok_def same by (simp add: hand_over_def on_wire_def)
  moreover have "wire_ok ?s"
    using assms fresh
    by (fastforce simp: writer_ok_def wire_ok_def call_ok_def hand_over_def sorted_append list_all_iff less_Suc_eq_le)
  moreover have "outcome_ok ?s k" if "k < ?k" for k
    using assms(1) that unfolding writer_ok_def outcome_ok_def same by (simp add: hand_over_def)
  ultimately show ?thesis by (simp add: writer_ok_def hand_over_def)
qed

lemma sent_by_pump_ok:
  assumes "writer_ok s" and "pump_at s = Sending k i c"
  shows "writer_ok (sent_by_pump k i c err s)"
proof -
  let ?s = "sent_by_pump k i c err s" and ?c = "if err = None then c else []" and ?n = "length (outcomes s)"
  have same: "on_wire q ?s = on_wire q s @ (if q = k then ?c else [])" "in_flight q ?s = []"
    "in_flight q s = (if q = k then c else [])" for q
    using assms(2) by (auto simp: on_wire_def in_flight_def sent_by_pump_def split: option.splits)
  have w: "wire_ok s" "call_ok s" using assms(1) by (simp_all add: writer_ok_def)
  then have k: "k < length (buffers s)" "i < requests s" "answers s i = None" "c \<noteq> []" "length c \<le> max_payload (limit s)"
    using assms(2) by (simp_all add: wire_ok_def)
  have "wire_ok ?s"
    using w(1) k assms(2)
    by (auto simp: wire_ok_def sent_by_pump_def sorted_append list_all_iff split: option.splits)
  moreover have "call_ok ?s"
  proof (cases "writing s")
    case NotWriting
    with w(2) show ?thesis by (simp add: call_ok_def sent_by_pump_def)
  next
    case (Offering cs)
    with w(2) k(4) have "k \<noteq> ?n" by (auto simp: call_ok_def same)
    with Offering w(2) show ?thesis unfolding call_ok_def same by (simp add: sent_by_pump_def same)
  next
    case (Awaiting j d ds)
    show ?thesis
    proof (cases "answers s j")
      case None
      then have "k = ?n" "j = i" "d = c" using w(2) Awaiting assms(2) by (auto simp: call_ok_def)
      with Awaiting None w(2) show ?thesis
        unfolding call_ok_def same by (cases err) (auto simp: sent_by_pump_def same dest: prefix_front)
    next
      case (Some a)
      then have "j \<noteq> i" using k(3) by auto
      moreover have "k \<noteq> ?n" using Some w(2) Awaiting k(4) by (cases a) (auto simp: call_ok_def same)
      ultimately show ?thesis
        using Some Awaiting w(2) unfolding call_ok_def same by (cases a) (auto simp: sent_by_pump_def same)
    qed
  qed
  moreover have "outcome_ok ?s q" if "q < ?n" for q
  proof -
    have "outcome_ok s q" using assms(1) that by (simp add: writer_ok_def)
    then show ?thesis
      using k(4) unfolding outcome_ok_def same
      by (cases "q = k"; cases err) (auto simp: sent_by_pump_def dest: append_prefixD)
  qed
  ultimately show ?thesis by (simp add: writer_ok_def sent_by_pump_def)
qed

lemma answered_ok:
  assumes "writer_ok s" and "writing s = Awaiting i c cs" and "answers s i = Some None"
  shows "writer_ok (s\<lparr>writing := Offering cs, total := total s + length c\<rparr>)"
proof -
  let ?s = "s\<lparr>writing := Offering cs, total := total s + length c\<rparr>"
  have same: "on_wire k (s\<lparr>writing := x, total := n\<rparr>) = on_wire k s"
    "in_flight k (s\<lparr>writing := x, total := n\<rparr>) = in_flight k s" for k x n
    by (simp_all add: on_wire_def in_flight_def)
  have "wire_ok ?s" using assms(1) by (simp add: writer_ok_def wire_ok_def)
  moreover have "call_ok ?s" using assms by (simp add: writer_ok_def call_ok_def same)
  moreover have "outcome_ok ?s k" if "k < current s" for k
    using assms(1) that unfolding writer_ok_def outcome_ok_def same by simp
  ultimately show ?thesis by (simp add: writer_ok_def)
qed

lemma idle_changes:
  assumes "writer_ok s" and "pump_at s = WaitingRequest"
  shows "writer_ok (s\<lparr>pump_at := PumpReturned\<rparr>)"
proof -
  let ?s = "s\<lparr>pump_at := PumpReturned\<rparr>"
  have same: "on_wire k ?s = on_wire k s" "in_flight k ?s = in_flight k s" for k
    using assms(2) by (simp_all add: on_wire_def in_flight_def)
  have "wire_ok ?s" using assms by (simp add: writer_ok_def wire_ok_def)
  moreover have "call_ok ?s"
    using assms by (cases "writing s") (auto simp: writer_ok_def call_ok_def same split: option.splits)
  moreover have "outcome_ok ?s k" if "k < current s" for k
    using assms(1) that unfolding writer_ok_def outcome_ok_def same by simp
  ultimately show ?thesis by (simp add: writer_ok_def)
qed

lemma shut_changes: "writer_ok s \<Longrightarrow> writer_ok (s\<lparr>wshut := True\<rparr>)"
proof -
  let ?s = "s\<lparr>wshut := True\<rparr>"
  assume ok: "writer_ok s"
  have same: "on_wire k ?s = on_wire k s" "in_flight k ?s = in_flight k s" for k
    by (simp_all add: on_wire_def in_flight_def)
  have "call_ok ?s"
    using ok by (cases "writing s") (auto simp: writer_ok_def call_ok_def same split: option.splits)
  moreover have "outcome_ok ?s k" if "k < current s" for k
    using ok that unfolding writer_ok_def outcome_ok_def same by simp
  ultimately show ?thesis using ok by (simp add: writer_ok_def wire_ok_def)
qed

lemma write_step_ok: "write_step s s' \<Longrightarrow> writer_ok s \<Longrightarrow> writer_ok s'"
  by (induction rule: write_step.induct)
    (auto intro: call_begins hand_over_ok sent_by_pump_ok answered_ok returns_ok idle_changes shut_changes)

lemma write_step_limit: "write_step s s' \<Longrightarrow> limit s' = limit s"
  by (induction rule: write_step.induct) (simp_all add: returns_def hand_over_def sent_by_pump_def)

lemma write_returns:
  assumes "wshut s" and "writing s \<noteq> NotWriting"
  shows "\<exists>s' r. write_step s s' \<and> writing s' = NotWriting \<and> outcomes s' = outcomes s @ [r]"
proof -
  have "write_step s (returns None s) \<or> write_step s (returns (Some ErrClosed) s)"
  proof (cases "writing s")
    case (Offering cs)
    then show ?thesis using assms(1) by (cases cs) (auto intro: write_step.finish write_step.refused)
  qed (use assms in \<open>auto intro: write_step.refused\<close>)
  then show ?thesis by (auto simp: returns_def)
qed

interpretation writer: transition_invariant write_step "\<lambda>s. s = new_writer m" "\<lambda>s. writer_ok s \<and> limit s = m" for m
  by unfold_locales (auto simp: writer_ok_new write_step_limit intro: write_step_ok, simp add: new_writer_def)

text \<open>
  C19: what \<open>Write\<close> reports and what the peer gets. Whatever expires, fails or is closed when, the
  frames on the wire are of the calls in their order, none empty and none above the channel's
  frame size; of each call they make a prefix of its buffer. A call that returns \<open>(n, nil)\<close> has
  all of it on the wire. After an error the first \<open>n\<close> bytes are on the wire, and possibly one
  frame more: a chunk whose \<open>Send\<close> was under way when the deadline expired or the channel was
  closed is still sent, though it is not counted. Once the channel is closed, a call under way
  can return at once, wherever it is.
\<close>

theorem writes_in_order:
  assumes "write_step\<^sup>*\<^sup>* (new_writer m) s"
  shows "sorted (map fst (wire s)) \<and>
    list_all (\<lambda>f. fst f < length (buffers s) \<and> snd f \<noteq> [] \<and> length (snd f) \<le> max_payload m) (wire s) \<and>
    (\<forall>k < length (outcomes s). case outcomes s ! k of (n, err) \<Rightarrow>
       prefix (on_wire k s) (buffers s ! k) \<and> n \<le> length (on_wire k s) \<and> length (on_wire k s) \<le> n + max_payload m \<and>
       (err = None \<longrightarrow> n = length (buffers s ! k) \<and> on_wire k s = buffers s ! k)) \<and>
    (wshut s \<longrightarrow> writing s \<noteq> NotWriting \<longrightarrow> (\<exists>s' r. write_step s s' \<and> writing s' = NotWriting \<and> outcomes s' = outcomes s @ [r]))"
proof -
  have ok: "writer_ok s" "limit s = m"
    using writer.reachable_inv [OF refl assms] by simp_all
  have "outcome_ok s k" if "k < length (outcomes s)" for k
    using ok(1) that by (simp add: writer_ok_def)
  moreover have "\<exists>s' r. write_step s s' \<and> writing s' = NotWriting \<and> outcomes s' = outcomes s @ [r]"
    if "wshut s" "writing s \<noteq> NotWriting"
    using write_returns [OF that] .
  ultimately show ?thesis
    using ok by (fastforce simp: writer_ok_def wire_ok_def outcome_ok_def sorted_append dest: append_prefixD)
qed

text \<open>A run in which \<open>Write\<close> reports a timeout and no byte, and the byte is sent all the same.\<close>

theorem writes_in_order_witness:
  "\<exists>s. write_step\<^sup>*\<^sup>* (new_writer 4) s \<and> sorted (map fst (wire s)) \<and>
     outcomes s = [(0, Some (TimeoutError ''write''))] \<and> on_wire 0 s = [9] \<and> buffers s = [[9]]"
proof -
  let ?a = "(new_writer 4)\<lparr>writing := Offering [[9]], total := 0, buffers := [[9]]\<rparr>"
  let ?b = "hand_over [9] [] ?a"
  let ?c = "returns (Some (TimeoutError ''write'')) ?b"
  let ?d = "sent_by_pump 0 0 [9] None ?c"
  have "write_step (new_writer 4) ?a"
    using write_step.call [of "new_writer 4" "[9]"] by (simp add: new_writer_def split_payload_loop max_payload_def)
  moreover have "write_step ?a ?b" by (rule write_step.hand) (simp_all add: new_writer_def)
  moreover have "write_step ?b ?c" by (rule write_step.expires) (simp add: hand_over_def)
  moreover have "write_step ?c ?d"
    by (rule write_step.send) (simp add: returns_def hand_over_def new_writer_def)
  ultimately have "write_step\<^sup>*\<^sup>* (new_writer 4) ?d" by (meson converse_rtranclp_into_rtranclp rtranclp.rtrancl_refl)
  then show ?thesis
    using writes_in_order [of 4 ?d]
    by (intro exI [of _ ?d]) (simp add: sent_by_pump_def returns_def hand_over_def new_writer_def on_wire_def)
qed

section \<open>Reading\<close>

datatype read_pump_at = Receiving | Holding bytes | ReadPumpReturned

text \<open>
  \<open>parked\<close> is the buffer size of a \<open>Read\<close> at its second \<open>select\<close>; \<open>rest\<close> is \<open>readBuf\<close>; \<open>queued\<close>
  are the frames the source has, \<open>arrived\<close> all that it ever had, \<open>results\<close> what the calls of
  \<open>Read\<close> returned.
\<close>

record reader =
  rshut :: bool
  queued :: "bytes list"
  source_ended :: bool
  rpump :: read_pump_at
  rest :: bytes
  parked_read :: "nat option"
  arrived :: "bytes list"
  results :: "(go_error + bytes) list"

definition new_reader :: reader where
  "new_reader = \<lparr>rshut = False, queued = [], source_ended = False, rpump = Receiving, rest = [], parked_read = None,
     arrived = [], results = []\<rparr>"

text \<open>The copy at the end of \<open>Read\<close>, and a return with an error.\<close>

definition read_returns :: "nat \<Rightarrow> bytes \<Rightarrow> reader \<Rightarrow> reader" where
  "read_returns n buf s = s\<lparr>rest := drop n buf, parked_read := None, results := results s @ [Inr (take n buf)]\<rparr>"

definition read_fails :: "go_error \<Rightarrow> reader \<Rightarrow> reader" where
  "read_fails err s = s\<lparr>parked_read := None, results := results s @ [Inl err]\<rparr>"

inductive read_step :: "reader \<Rightarrow> reader \<Rightarrow> bool" where
  frame: "\<not> source_ended s \<Longrightarrow> read_step s (s\<lparr>queued := queued s @ [p], arrived := arrived s @ [p]\<rparr>)"
| source_ends: "read_step s (s\<lparr>source_ended := True\<rparr>)"
| recv: "rpump s = Receiving \<Longrightarrow> queued s = p # ps \<Longrightarrow>
    read_step s (s\<lparr>queued := ps, rpump := (if p = [] then Receiving else Holding p)\<rparr>)"
| recv_ends: "rpump s = Receiving \<Longrightarrow> queued s = [] \<Longrightarrow> source_ended s \<Longrightarrow> read_step s (s\<lparr>rpump := ReadPumpReturned\<rparr>)"
| drops: "rpump s = Holding p \<Longrightarrow> rshut s \<Longrightarrow> read_step s (s\<lparr>rpump := ReadPumpReturned\<rparr>)"
| read_rest: "parked_read s = None \<Longrightarrow> rest s \<noteq> [] \<Longrightarrow> read_step s (read_returns n (rest s) s)"
| read_shut: "parked_read s = None \<Longrightarrow> rest s = [] \<Longrightarrow> rshut s \<Longrightarrow> read_step s (read_fails ErrClosed s)"
| read_parks: "parked_read s = None \<Longrightarrow> rest s = [] \<Longrightarrow> \<not> rshut s \<Longrightarrow> read_step s (s\<lparr>parked_read := Some n\<rparr>)"
| payload: "parked_read s = Some n \<Longrightarrow> rpump s = Holding p \<Longrightarrow> read_step s (read_returns n p (s\<lparr>rpump := Receiving\<rparr>))"
| no_more: "parked_read s = Some n \<Longrightarrow> rpump s = ReadPumpReturned \<Longrightarrow> read_step s (read_fails EOF s)"
| read_expires: "parked_read s = Some n \<Longrightarrow> read_step s (read_fails (TimeoutError ''read'') s)"
| read_closed: "parked_read s = Some n \<Longrightarrow> rshut s \<Longrightarrow> read_step s (read_fails ErrClosed s)"
| close: "read_step s (s\<lparr>rshut := True\<rparr>)"

definition read_data :: "reader \<Rightarrow> bytes" where
  "read_data s = concat (map (\<lambda>r. case r of Inl _ \<Rightarrow> [] | Inr b \<Rightarrow> b) (results s))"

definition held :: "reader \<Rightarrow> bytes" where
  "held s = (case rpump s of Holding p \<Rightarrow> p | _ \<Rightarrow> [])"

definition reader_ok :: "reader \<Rightarrow> bool" where
  "reader_ok s \<longleftrightarrow> (parked_read s \<noteq> None \<longrightarrow> rest s = []) \<and>
     (if rpump s = ReadPumpReturned
      then prefix (read_data s @ rest s) (concat (arrived s)) \<and>
        (\<not> rshut s \<longrightarrow> source_ended s \<and> read_data s @ rest s = concat (arrived s))
      else read_data s @ rest s @ held s @ concat (queued s) = concat (arrived s)) \<and>
     (Inl EOF \<in> set (results s) \<longrightarrow> rshut s \<or> rpump s = ReadPumpReturned \<and> rest s = [])"

lemma take_drop_append: "take n xs @ drop n xs @ ys = xs @ ys"
  by (simp add: append.assoc [symmetric] del: append.assoc)

lemma read_step_ok: "read_step s s' \<Longrightarrow> reader_ok s \<Longrightarrow> reader_ok s'"
proof (induction rule: read_step.induct)
  case (drops s p)
  then show ?case
    by (auto simp: reader_ok_def read_data_def held_def dest: prefix_front)
qed (auto simp: reader_ok_def read_data_def held_def read_returns_def read_fails_def take_drop_append split: if_splits)

lemma reader_ok_new: "reader_ok new_reader"
  by (simp add: reader_ok_def new_reader_def read_data_def held_def)

interpretation reader: transition_invariant read_step "\<lambda>s. s = new_reader" reader_ok
  by unfold_locales (auto simp: reader_ok_new intro: read_step_ok)

text \<open>
  C20: what \<open>Read\<close> returns. Whatever the sizes of the buffers, the cut of the frames and the
  deadlines that expire, the bytes returned so far followed by \<open>readBuf\<close> are a prefix of what the
  source has delivered; as long as the channel is not closed nothing is lost, the rest is with the
  read pump or still in the source. Without a close, \<open>io.EOF\<close> means that the source has ended and
  every byte has been returned. Once the channel is closed, a parked \<open>Read\<close> can return at once.
\<close>

theorem reads_lose_nothing:
  assumes "read_step\<^sup>*\<^sup>* new_reader s"
  shows "prefix (read_data s @ rest s) (concat (arrived s)) \<and>
    (\<not> rshut s \<longrightarrow> read_data s @ rest s @ held s @ concat (queued s) = concat (arrived s) \<or>
       rpump s = ReadPumpReturned \<and> read_data s @ rest s = concat (arrived s)) \<and>
    (\<not> rshut s \<longrightarrow> Inl EOF \<in> set (results s) \<longrightarrow> source_ended s \<and> read_data s = concat (arrived s)) \<and>
    (rshut s \<longrightarrow> parked_read s \<noteq> None \<longrightarrow> (\<exists>s'. read_step s s' \<and> parked_read s' = None))"
proof -
  have "\<exists>s'. read_step s s' \<and> parked_read s' = None" if "rshut s" "parked_read s = Some n" for n
    using read_step.read_closed [OF that(2,1)] by (auto simp: read_fails_def)
  then show ?thesis
    using reader.reachable_inv [OF refl assms] unfolding reader_ok_def
    by (auto split: if_splits dest: prefix_front)
qed

text \<open>
  A run with a short buffer, an expired deadline and an empty frame. A \<open>Read\<close> that is parked when
  the channel is closed may also return \<open>io.EOF\<close>, because the pump closes \<open>readCh\<close> then too.
\<close>

theorem reads_lose_nothing_witness:
  "\<exists>s. read_step\<^sup>*\<^sup>* new_reader s \<and> results s = [Inl (TimeoutError ''read''), Inr [1]] \<and> rest s = [2] \<and>
     prefix (read_data s @ rest s) (concat (arrived s))"
proof -
  let ?a = "new_reader\<lparr>parked_read := Some 1\<rparr>"
  let ?b = "read_fails (TimeoutError ''read'') ?a"
  let ?c = "?b\<lparr>queued := [[1, 2]], arrived := [[1, 2]]\<rparr>"
  let ?d = "?c\<lparr>queued := [], rpump := Holding [1, 2]\<rparr>"
  let ?e = "?d\<lparr>parked_read := Some 1\<rparr>"
  let ?f = "read_returns 1 [1, 2] (?e\<lparr>rpump := Receiving\<rparr>)"
  have "read_step new_reader ?a" by (rule read_step.read_parks) (simp_all add: new_reader_def)
  moreover have "read_step ?a ?b" by (rule read_step.read_expires) simp
  moreover have "read_step ?b ?c"
    using read_step.frame [of ?b "[1, 2]"] by (simp add: read_fails_def new_reader_def)
  moreover have "read_step ?c ?d"
    using read_step.recv [of ?c "[1, 2]" "[]"] by (simp add: read_fails_def new_reader_def)
  moreover have "read_step ?d ?e" by (rule read_step.read_parks) (simp_all add: read_fails_def new_reader_def)
  moreover have "read_step ?e ?f" by (rule read_step.payload) simp_all
  ultimately have run: "read_step\<^sup>*\<^sup>* new_reader ?f" by (meson converse_rtranclp_into_rtranclp rtranclp.rtrancl_refl)
  then have "prefix (read_data ?f @ rest ?f) (concat (arrived ?f))" using reads_lose_nothing by blast
  with run show ?thesis
    by (intro exI [of _ ?f]) (simp add: read_returns_def read_fails_def new_reader_def)
qed

end
