(* ===== verification/Relay_Readonly.thy ===== *)
theory Relay_Readonly
  imports Rfb_ClientMsg
begin

text \<open>
  \<open>internal/relay/readonly.go\<close>: the filter on the browser-to-server direction. The
  state the filter runs over holds both ends: a source it reads messages from and a sink it
  forwards them to (on the reference connection, \<open>avail\<close> is what the browser sends and
  \<open>sent\<close> what the server receives).
\<close>

section \<open>The policy\<close>

definition is_input_message :: "client_message_type \<Rightarrow> bool" where
  "is_input_message t \<longleftrightarrow> t = MsgKeyEvent \<or> t = MsgPointerEvent \<or> t = MsgClientCutText"

datatype filter_decision = DecisionForward | DecisionDrop

definition decide :: "client_message \<Rightarrow> bool \<Rightarrow> filter_decision" where
  "decide msg readOnly =
     (if is_input_message (MType msg)
      then if readOnly then DecisionDrop else DecisionForward
      else DecisionForward)"

section \<open>The filter\<close>

text \<open>An unknown message type is fatal to the session; every other error passes as it is.\<close>

definition session_fatal :: "go_error \<Rightarrow> go_error" where
  "session_fatal err = (if errors_as_unknown_message err \<noteq> None then ErrSessionFatal err else err)"

definition filter_once ::
    "(nat \<Rightarrow> 's \<Rightarrow> (bytes, 's) outcome) \<Rightarrow> (bytes \<Rightarrow> 's \<Rightarrow> (unit, 's) outcome) \<Rightarrow>
     bool \<Rightarrow> 's \<Rightarrow> (filter_decision, 's) outcome" where
  "filter_once rd wr readOnly s =
     io_bind (io_wrap session_fatal (read_client_message rd s)) (\<lambda>msg s.
     let decision = decide msg readOnly in
     if decision = DecisionForward
     then io_bind (io_wrap (Wrapf ''relay: forward client message'') (wr (message_bytes msg) s))
            (\<lambda>_ s. (Inr decision, s))
     else (Inr decision, s))"

text \<open>
  The loop runs until an error; \<open>None\<close> as a result would be a loop that never ends. The
  value is the error the loop returns (\<open>None\<close> for Go's \<open>nil\<close>) and the final state.
\<close>

partial_function (option) run_client_filter ::
    "(nat \<Rightarrow> 's \<Rightarrow> (bytes, 's) outcome) \<Rightarrow> (bytes \<Rightarrow> 's \<Rightarrow> (unit, 's) outcome) \<Rightarrow>
     bool \<Rightarrow> 's \<Rightarrow> (go_error option \<times> 's) option" where
  "run_client_filter rd wr readOnly s =
     (case filter_once rd wr readOnly s of
        (Inl err, s') \<Rightarrow> Some (if errors_is err EOF then None else Some err, s')
      | (Inr _, s') \<Rightarrow> run_client_filter rd wr readOnly s')"

section \<open>What is forwarded\<close>

definition forwarded :: "bool \<Rightarrow> client_message \<Rightarrow> bool" where
  "forwarded readOnly m \<longleftrightarrow> decide m readOnly = DecisionForward"

definition relayed :: "bool \<Rightarrow> client_message list \<Rightarrow> bytes" where
  "relayed readOnly ms = concat (map message_bytes (filter (forwarded readOnly) ms))"

lemma forwarded_not_readonly [simp]: "forwarded False m"
  by (simp add: forwarded_def decide_def)

lemma forwarded_readonly [simp]: "forwarded True m \<longleftrightarrow> \<not> is_input_message (MType m)"
  by (simp add: forwarded_def decide_def)

lemma relayed_Nil [simp]: "relayed b [] = []"
  by (simp add: relayed_def)

lemma relayed_Cons [simp]:
  "relayed b (m # ms) = (if forwarded b m then message_bytes m @ relayed b ms else relayed b ms)"
  by (simp add: relayed_def)

lemma relayed_transparent: "relayed False ms = concat (map message_bytes ms)"
  by (induction ms) simp_all

text \<open>One step on a healthy connection: the message is consumed, and sent on if forwarded.\<close>

lemma filter_once_message:
  assumes "avail c = message_bytes m @ r" and "wf_client_message m" and "wr_left c = None"
  shows "filter_once stream_read_full conn_write b c =
    (Inr (decide m b), c\<lparr>avail := r, sent := sent c @ relayed b [m]\<rparr>)"
  using assms
  by (cases "decide m b") (simp_all add: filter_once_def read_client_message_at forwarded_def)

lemma filter_once_no_message:
  assumes "read_client_message stream_read_full c = (Inl e, c')"
  shows "filter_once stream_read_full conn_write b c = (Inl (session_fatal e), c')"
  using assms by (simp add: filter_once_def)

text \<open>Any byte stream is a sequence of messages and a rest that starts with none.\<close>

definition no_message :: "bytes \<Rightarrow> bool" where
  "no_message r \<longleftrightarrow> (\<forall>m r'. wf_client_message m \<longrightarrow> r \<noteq> message_bytes m @ r')"

lemma messages_and_rest:
  "\<exists>ms r. list_all wf_client_message ms \<and> bs = concat (map message_bytes ms) @ r \<and> no_message r"
proof (induction "length bs" arbitrary: bs rule: less_induct)
  case less
  show ?case
  proof (cases "no_message bs")
    case True
    then have "list_all wf_client_message [] \<and> bs = concat (map message_bytes []) @ bs \<and> no_message bs"
      by simp
    then show ?thesis by blast
  next
    case False
    then obtain m r' where m: "wf_client_message m" "bs = message_bytes m @ r'"
      by (auto simp: no_message_def)
    then have "length r' < length bs" by (simp add: message_bytes_def)
    from less [OF this] obtain ms r where "list_all wf_client_message ms"
      "r' = concat (map message_bytes ms) @ r" "no_message r" by blast
    with m have "list_all wf_client_message (m # ms) \<and>
        bs = concat (map message_bytes (m # ms)) @ r \<and> no_message r" by simp
    then show ?thesis by blast
  qed
qed

lemma no_message_read:
  assumes "no_message (avail s)"
  obtains e s' where "read_client_message stream_read_full s = (Inl e, s')"
proof (cases "read_client_message stream_read_full s")
  case (Pair x s')
  then show thesis
  proof (cases x)
    case (Inr m)
    with Pair have "wf_client_message m \<and> (\<exists>r. avail s = message_bytes m @ r)"
      by (auto dest: read_client_message_sound)
    with assms show thesis by (auto simp: no_message_def)
  qed (auto intro: that)
qed

text \<open>
  The loop on a healthy connection: it ends, at the first place where no message can be
  read, having forwarded exactly the messages the policy lets through.
\<close>

definition loop_status :: "go_error \<Rightarrow> go_error option" where
  "loop_status e = (if errors_is (session_fatal e) EOF then None else Some (session_fatal e))"

lemma run_client_filter_messages:
  assumes "list_all wf_client_message ms" and "avail c = concat (map message_bytes ms) @ r"
    and "wr_left c = None"
    and "read_client_message stream_read_full
           (c\<lparr>avail := r, sent := sent c @ relayed b ms\<rparr>) = (Inl e, c')"
  shows "run_client_filter stream_read_full conn_write b c = Some (loop_status e, c')"
  using assms
proof (induction ms arbitrary: c)
  case Nil
  then have "c\<lparr>avail := r, sent := sent c\<rparr> = c"
    by (cases c) simp
  with Nil show ?case
    by (subst run_client_filter.simps) (simp add: filter_once_no_message loop_status_def)
next
  case (Cons m ms)
  define c1 where "c1 = c\<lparr>avail := concat (map message_bytes ms) @ r, sent := sent c @ relayed b [m]\<rparr>"
  have step: "filter_once stream_read_full conn_write b c = (Inr (decide m b), c1)"
    using Cons.prems by (simp add: filter_once_message c1_def)
  have "run_client_filter stream_read_full conn_write b c1 = Some (loop_status e, c')"
  proof (rule Cons.IH)
    show "read_client_message stream_read_full (c1\<lparr>avail := r, sent := sent c1 @ relayed b ms\<rparr>) =
        (Inl e, c')"
      using Cons.prems(4) by (simp add: c1_def split: if_splits)
  qed (use Cons.prems in \<open>simp_all add: c1_def\<close>)
  with step show ?case
    by (subst run_client_filter.simps) simp
qed

section \<open>The loop on any connection\<close>

text \<open>One step of the loop, whatever the connection does: it consumes a message or ends it.\<close>

lemma filter_once_Inr:
  assumes "filter_once stream_read_full conn_write b c = (Inr d, c')"
  shows "\<exists>m. wf_client_message m \<and> avail c = message_bytes m @ avail c' \<and>
    sent c' = sent c @ relayed b [m] \<and> (wr_left c = None \<longrightarrow> wr_left c' = None)"
proof -
  from assms obtain m c1 where m: "read_client_message stream_read_full c = (Inr m, c1)"
    and rest: "(if decide m b = DecisionForward
        then io_bind (io_wrap (Wrapf ''relay: forward client message'') (conn_write (message_bytes m) c1))
               (\<lambda>_ s. (Inr (decide m b), s))
        else (Inr (decide m b), c1)) = (Inr d, c')"
    unfolding filter_once_def Let_def io_bind_Inr_iff io_wrap_Inr_iff by blast
  from read_client_message_sound [OF m] obtain r where r: "wf_client_message m"
    "avail c = message_bytes m @ r" "c1 = c\<lparr>avail := r\<rparr>" by blast
  show ?thesis
  proof (intro exI conjI)
    show "avail c = message_bytes m @ avail c'" and "sent c' = sent c @ relayed b [m]"
      and "wr_left c = None \<longrightarrow> wr_left c' = None"
      using rest r by (auto simp: forwarded_def io_iffs split: if_splits dest: conn_write_Inr)
  qed (fact r)
qed

lemma filter_once_Inl:
  assumes "filter_once stream_read_full conn_write b c = (Inl e, c')"
  shows "sent c' = sent c"
proof (cases "read_client_message stream_read_full c")
  case (Pair x c1)
  show ?thesis
  proof (cases x)
    case (Inl e1)
    have "sent c1 = sent c"
      using Pair unfolding Inl by (auto dest!: read_client_message_Inl_more)
    with assms Pair Inl show ?thesis by (simp add: filter_once_def)
  next
    case (Inr m)
    with Pair have "sent c1 = sent c"
      by (auto dest: read_client_message_sound)
    with assms Pair Inr show ?thesis
      by (auto simp: filter_once_def Let_def io_iffs conn_write_Inl split: if_splits)
  qed
qed

theorem run_client_filter_spec:
  "\<exists>res c' ms r. run_client_filter stream_read_full conn_write b c = Some (res, c') \<and>
     list_all wf_client_message ms \<and> avail c = concat (map message_bytes ms) @ r \<and>
     sent c' = sent c @ relayed b ms"
proof (induction "length (avail c)" arbitrary: c rule: less_induct)
  case less
  show ?case
  proof (cases "filter_once stream_read_full conn_write b c")
    case (Pair x c1)
    show ?thesis
    proof (cases x)
      case (Inl e)
      then have "run_client_filter stream_read_full conn_write b c =
          Some (if errors_is e EOF then None else Some e, c1)"
        using Pair by (subst run_client_filter.simps) simp
      moreover have "sent c1 = sent c @ relayed b []"
        using Pair Inl by (auto dest: filter_once_Inl)
      ultimately show ?thesis
        by (intro exI [of _ c1] exI [of _ "[]"] exI [of _ "avail c"] exI) simp
    next
      case (Inr d)
      with Pair filter_once_Inr obtain m where m: "wf_client_message m"
        "avail c = message_bytes m @ avail c1" "sent c1 = sent c @ relayed b [m]" by blast
      then have "length (avail c1) < length (avail c)" by (simp add: message_bytes_def)
      from less [OF this] obtain res c' ms r where
        ih: "run_client_filter stream_read_full conn_write b c1 = Some (res, c')"
          "list_all wf_client_message ms" "avail c1 = concat (map message_bytes ms) @ r"
          "sent c' = sent c1 @ relayed b ms" by blast
      have "run_client_filter stream_read_full conn_write b c = Some (res, c')"
        using Pair Inr ih(1) by (subst run_client_filter.simps) simp
      then show ?thesis
        using ih m by (intro exI [of _ res] exI [of _ c'] exI [of _ "m # ms"] exI [of _ r]) simp
    qed
  qed
qed

text \<open>A prefix of complete messages is also a prefix of any complete reading.\<close>

lemma no_input_relayed: "\<exists>ns. list_all wf_client_message ns \<and>
    list_all (\<lambda>m. \<not> is_input_message (MType m)) ns \<and> relayed True ms = concat (map message_bytes ns)"
  if "list_all wf_client_message ms"
  using that by (intro exI [of _ "filter (forwarded True) ms"])
    (auto simp: relayed_def list_all_iff)

section \<open>Properties of the filter\<close>

lemma run_client_filter_stops:
  assumes "list_all wf_client_message ms" and "avail c = concat (map message_bytes ms) @ r"
    and "wr_left c = None"
    and "read_client_message stream_read_full
           (c\<lparr>avail := r, sent := sent c @ relayed b ms\<rparr>) =
         (Inl e, c\<lparr>avail := r', sent := sent c @ relayed b ms\<rparr>)"
  shows "run_client_filter stream_read_full conn_write b c =
    Some (loop_status e, c\<lparr>avail := r', sent := sent c @ relayed b ms\<rparr>)"
  using assms by (rule run_client_filter_messages)

text \<open>
  C2: read-only safety. Whatever bytes the browser sends and however the server
  connection fails, the filter in read-only mode ends, and all it has sent to the server is
  a sequence of complete, well-formed messages none of which is a key, pointer or
  cut-text event.
\<close>

theorem read_only_sends_no_input:
  "\<exists>res c' ns. run_client_filter stream_read_full conn_write True c = Some (res, c') \<and>
     list_all (\<lambda>m. wf_client_message m \<and> \<not> is_input_message (MType m)) ns \<and>
     sent c' = sent c @ concat (map message_bytes ns)"
proof -
  obtain res c' ms r where run: "run_client_filter stream_read_full conn_write True c = Some (res, c')"
    and ms: "list_all wf_client_message ms" and sent: "sent c' = sent c @ relayed True ms"
    using run_client_filter_spec by blast
  from no_input_relayed [OF ms] obtain ns where ns: "list_all wf_client_message ns"
    "list_all (\<lambda>m. \<not> is_input_message (MType m)) ns"
    "relayed True ms = concat (map message_bytes ns)" by blast
  then have "list_all (\<lambda>m. wf_client_message m \<and> \<not> is_input_message (MType m)) ns"
    by (simp add: list_all_iff)
  with run sent ns(3) show ?thesis by auto
qed

text \<open>
  C6: the filter is transparent up to its policy. On a connection whose writes succeed,
  whatever the browser sends, the loop ends exactly where no further message can be read,
  and what the server has received is, in order and byte for byte, every message read that
  the policy lets through: all of them without read-only mode.
\<close>

theorem filter_relays_every_message:
  assumes "healthy c"
  shows "\<exists>res c' ms r. run_client_filter stream_read_full conn_write readOnly c = Some (res, c') \<and>
    list_all wf_client_message ms \<and> avail c = concat (map message_bytes ms) @ r \<and> no_message r \<and>
    sent c' = sent c @ relayed readOnly ms \<and>
    (readOnly \<or> relayed readOnly ms = concat (map message_bytes ms))"
proof -
  obtain ms r where ms: "list_all wf_client_message ms"
    "avail c = concat (map message_bytes ms) @ r" "no_message r"
    using messages_and_rest by blast
  let ?c = "c\<lparr>avail := r, sent := sent c @ relayed readOnly ms\<rparr>"
  obtain e c' where e: "read_client_message stream_read_full ?c = (Inl e, c')"
    using no_message_read [of ?c] ms(3) by auto
  then obtain r' where "c' = ?c\<lparr>avail := r'\<rparr>"
    using read_client_message_Inl_more by blast
  then have "sent c' = sent c @ relayed readOnly ms" by simp
  moreover have "run_client_filter stream_read_full conn_write readOnly c = Some (loop_status e, c')"
    using ms(1,2) assms e by (intro run_client_filter_messages) (simp_all add: healthy_def)
  moreover have "readOnly \<or> relayed readOnly ms = concat (map message_bytes ms)"
    by (cases readOnly) (simp_all add: relayed_transparent)
  ultimately show ?thesis
    using ms by blast
qed

definition demo_conn :: "bytes \<Rightarrow> conn" where
  "demo_conn b = \<lparr>avail = b, fin = EOF, sent = [], wr_left = None, wr_err = ErrClosed\<rparr>"

lemma demo_conn_simps [simp]:
  "avail (demo_conn b) = b" "fin (demo_conn b) = EOF" "sent (demo_conn b) = []"
  "wr_left (demo_conn b) = None" "healthy (demo_conn b)"
  by (simp_all add: demo_conn_def healthy_def)

theorem filter_relays_every_message_witness:
  "\<exists>res c' ms r. run_client_filter stream_read_full conn_write True (demo_conn [4, 1, 0, 0, 0, 0, 0, 97, 6]) =
     Some (res, c') \<and> list_all wf_client_message ms \<and>
     [4, 1, 0, 0, 0, 0, 0, 97, 6] = concat (map message_bytes ms) @ r \<and> no_message r \<and>
     sent c' = relayed True ms"
  using filter_relays_every_message [of "demo_conn [4, 1, 0, 0, 0, 0, 0, 97, 6]" True] by simp

text \<open>
  C26: an unknown message type ends the session. After any number of well-formed messages,
  a type byte outside the protocol makes the loop return a session-fatal error naming that
  byte; the messages before it have been relayed and nothing after it is.
\<close>

theorem unknown_type_is_session_fatal:
  assumes "healthy c" and "list_all wf_client_message ms"
    and "avail c = concat (map message_bytes ms) @ t # r" and "t \<notin> {0, 2, 3, 4, 5, 6}"
  shows "run_client_filter stream_read_full conn_write readOnly c =
    Some (Some (ErrSessionFatal (ErrUnknownClientMessageType t)),
          c\<lparr>avail := r, sent := sent c @ relayed readOnly ms\<rparr>)"
proof -
  let ?c = "c\<lparr>avail := t # r, sent := sent c @ relayed readOnly ms\<rparr>"
  have "read_client_message stream_read_full ?c =
      (Inl (ErrUnknownClientMessageType t), c\<lparr>avail := r, sent := sent c @ relayed readOnly ms\<rparr>)"
    using assms(4) read_client_message_unknown [of ?c t r] by simp
  from run_client_filter_stops [OF assms(2,3) _ this] assms(1) show ?thesis
    by (simp add: healthy_def loop_status_def session_fatal_def)
qed

theorem unknown_type_is_session_fatal_witness:
  "run_client_filter stream_read_full conn_write True (demo_conn ([4, 1, 0, 0, 0, 0, 0, 97] @ [9, 8])) =
     Some (Some (ErrSessionFatal (ErrUnknownClientMessageType 9)), demo_conn [8])"
  using unknown_type_is_session_fatal
    [of "demo_conn ([4, 1, 0, 0, 0, 0, 0, 97] @ [9, 8])"
        "[\<lparr>MType = 4, Body = [1, 0, 0, 0, 0, 0, 97]\<rparr>]" 9 "[8]" True]
  by (simp add: wf_client_message_def wf_body_def message_bytes_def is_input_message_def demo_conn_def
      healthy_def)

text \<open>The first read of a message, over a stream that starts with its type byte.\<close>

lemma read_client_message_type:
  "avail s = t # r \<Longrightarrow>
   read_client_message stream_read_full s = read_message_body stream_read_full t (s\<lparr>avail := r\<rparr>)"
  by (simp add: read_client_message_def stream_read_full_def)

lemma read_message_body_eof:
  assumes "avail s = []" and "fin s = EOF" and "t \<in> {0, 2, 3, 4, 5, 6}"
  shows "\<exists>what. read_message_body stream_read_full t s = (Inl (ErrTruncated what EOF), s)"
proof -
  have "stream_read_full (Suc n) s = (Inl EOF, s)" for n
    using assms(1,2) by (simp add: stream_read_full_def short_read_def stream_with_avail)
  then have "stream_read_full n s = (Inl EOF, s)" if "n \<noteq> 0" for n
    using that by (cases n) simp_all
  with assms(3) show ?thesis
    by (elim insertE) (simp_all add: read_message_body_def body_len_defs)
qed

text \<open>
  how the loop ends when the browser closes its stream. A close on a message boundary
  is a clean end (\<open>nil\<close>); so is a close right after a type byte, because the
  body read then fails with \<open>io.EOF\<close>, which the loop does not tell from a clean close.
  In both cases every complete message before it has been relayed.
\<close>

theorem filter_end_of_stream:
  assumes "healthy c" and "list_all wf_client_message ms" and "fin c = EOF"
    and "avail c = concat (map message_bytes ms) @ rest"
    and "rest = [] \<or> (rest = [t] \<and> t \<in> {0, 2, 3, 4, 5, 6})"
  shows "run_client_filter stream_read_full conn_write readOnly c =
      Some (None, c\<lparr>avail := [], sent := sent c @ relayed readOnly ms\<rparr>)"
proof -
  let ?d = "c\<lparr>avail := [], sent := sent c @ relayed readOnly ms\<rparr>"
  let ?r = "c\<lparr>avail := rest, sent := sent c @ relayed readOnly ms\<rparr>"
  have "\<exists>what. read_client_message stream_read_full ?r = (Inl (ErrTruncated what EOF), ?d)"
    using assms(5)
  proof (elim disjE conjE)
    assume "rest = []"
    then show ?thesis
      using assms(3)
      by (simp add: read_client_message_def stream_read_full_def short_read_def)
  next
    assume t: "rest = [t]" "t \<in> {0, 2, 3, 4, 5, 6}"
    have "read_client_message stream_read_full ?r = read_message_body stream_read_full t (?r\<lparr>avail := []\<rparr>)"
      using t(1) by (intro read_client_message_type) simp
    also have "?r\<lparr>avail := []\<rparr> = ?d" by simp
    finally show ?thesis
      using assms(3) t(2) read_message_body_eof [of ?d t] by simp
  qed
  then obtain what where "read_client_message stream_read_full ?r = (Inl (ErrTruncated what EOF), ?d)" ..
  from run_client_filter_stops [OF assms(2,4) _ this] assms(1) show ?thesis
    by (simp add: healthy_def loop_status_def session_fatal_def)
qed

theorem filter_end_of_stream_witness:
  "run_client_filter stream_read_full conn_write False (demo_conn ([4, 1, 0, 0, 0, 0, 0, 97] @ [6])) =
     Some (None, (demo_conn [])\<lparr>sent := [4, 1, 0, 0, 0, 0, 0, 97]\<rparr>)"
  using filter_end_of_stream
    [of "demo_conn ([4, 1, 0, 0, 0, 0, 0, 97] @ [6])"
        "[\<lparr>MType = 4, Body = [1, 0, 0, 0, 0, 0, 97]\<rparr>]" "[6]" 6 False]
  by (simp add: wf_client_message_def wf_body_def message_bytes_def demo_conn_def healthy_def)

text \<open>A close inside a body is reported, as a truncated message.\<close>

lemma filter_truncated_message:
  assumes "healthy c" and "list_all wf_client_message ms" and "fin c = EOF"
    and "avail c = concat (map message_bytes ms) @ 4 # b # bs" and "length bs < 6"
  shows "run_client_filter stream_read_full conn_write readOnly c =
      Some (Some (ErrTruncated ''KeyEvent body'' UnexpectedEOF),
            c\<lparr>avail := [], sent := sent c @ relayed readOnly ms\<rparr>)"
proof -
  let ?r = "c\<lparr>avail := 4 # b # bs, sent := sent c @ relayed readOnly ms\<rparr>"
  have "read_client_message stream_read_full ?r =
      (Inl (ErrTruncated ''KeyEvent body'' UnexpectedEOF),
       c\<lparr>avail := [], sent := sent c @ relayed readOnly ms\<rparr>)"
    using assms(3,5) read_client_message_type [of ?r 4 "b # bs"]
    by (simp add: read_message_body_def body_len_defs stream_read_full_def short_read_def)
  from run_client_filter_stops [OF assms(2,4) _ this] assms(1) show ?thesis
    by (simp add: healthy_def loop_status_def session_fatal_def)
qed

end
