(* ===== verification/Relay_Coupling.thy ===== *)
theory Relay_Coupling
  imports Prelude
begin

text \<open>
  \<open>internal/relay/coupling.go\<close>: how much tcp-relay credit is granted back for a relayed
  frame. Credits are Go \<open>int\<close>s; the product wraps at 64 bits and the quotient truncates.
\<close>

definition EmbedStreamInitialCredit :: int where "EmbedStreamInitialCredit = 8"
definition TCPRelayInitialCredit :: int where "TCPRelayInitialCredit = 4"

record coupling_policy =
  Capacity :: int

definition DefaultCouplingPolicy :: coupling_policy where
  "DefaultCouplingPolicy = \<lparr>Capacity = EmbedStreamInitialCredit\<rparr>"

definition policy_grant :: "coupling_policy \<Rightarrow> int \<Rightarrow> int \<Rightarrow> int" where
  "policy_grant p remaining requested =
     (if requested \<le> 0 then 0
      else
        let capacity = (if Capacity p \<le> 0 then 1 else Capacity p) in
        if remaining \<le> 0 then 0
        else
          let half = (if capacity sdiv 2 \<le> 0 then 1 else capacity sdiv 2) in
          if remaining \<ge> half then requested
          else int64 (requested * remaining) sdiv capacity)"

definition coupling_grant :: "int \<Rightarrow> bool \<Rightarrow> coupling_policy \<Rightarrow> int" where
  "coupling_grant remaining hasCredit policy =
     (let grant = 1 in
      if hasCredit
      then let extra = policy_grant policy remaining 1 in if extra > grant then extra else grant
      else grant)"

section \<open>Bounds\<close>

lemma sdiv_nonneg: "0 \<le> a \<Longrightarrow> 0 < b \<Longrightarrow> a sdiv b = a div (b :: int)"
  by (simp add: signed_divide_int_def sgn_if)

text \<open>In the throttled range the product is that of the integers when it fits in 64 bits.\<close>

lemma policy_grant_throttled:
  assumes "0 < requested" and "0 < remaining" and "0 < Capacity p" and "remaining < Capacity p div 2"
    and "requested * Capacity p < 2 ^ 63"
  shows "policy_grant p remaining requested = requested * remaining div Capacity p"
proof -
  have "requested * remaining \<le> requested * Capacity p"
    using assms by (intro mult_left_mono) auto
  then have "requested * remaining < 2 ^ 63"
    using assms(5) by (rule le_less_trans)
  moreover have nn: "0 \<le> requested * remaining"
    using assms(1,2) by simp
  ultimately have "int64 (requested * remaining) = requested * remaining"
    by (intro int64_id) simp_all
  with nn show ?thesis
    using assms by (simp add: policy_grant_def Let_def sdiv_nonneg)
qed

lemma policy_grant_bounds:
  assumes "requested * Capacity p < 2 ^ 63" and "0 < Capacity p"
  shows "0 \<le> policy_grant p remaining requested \<and> policy_grant p remaining requested \<le> max 0 requested"
proof (cases "0 < requested \<and> 0 < remaining \<and> remaining < Capacity p div 2")
  case True
  then have "requested * remaining \<le> requested * Capacity p"
    using assms by (intro mult_left_mono) auto
  then have "requested * remaining div Capacity p \<le> requested"
    using assms(2) by (metis nonzero_mult_div_cancel_right order_less_irrefl zdiv_mono1)
  moreover have "0 \<le> requested * remaining div Capacity p"
    using True assms(2) by (simp add: pos_imp_zdiv_nonneg_iff)
  ultimately show ?thesis
    using True assms policy_grant_throttled [of requested remaining p] by simp
next
  case False
  then show ?thesis
    using assms(2) by (auto simp: policy_grant_def Let_def sdiv_nonneg)
qed

text \<open>Less headroom never yields more credit.\<close>

lemma policy_grant_mono:
  assumes "requested * Capacity p < 2 ^ 63" and "0 < Capacity p" and "r1 \<le> r2"
  shows "policy_grant p r1 requested \<le> policy_grant p r2 requested"
proof (cases "0 < requested \<and> 0 < r1 \<and> r2 < Capacity p div 2")
  case True
  then have "requested * r1 div Capacity p \<le> requested * r2 div Capacity p"
    using assms by (intro zdiv_mono1 mult_left_mono) auto
  with True assms show ?thesis
    by (simp add: policy_grant_throttled)
next
  case False
  then consider "requested \<le> 0" | "r1 \<le> 0" | "0 < requested" "0 < r1" "r2 \<ge> Capacity p div 2"
    by linarith
  then show ?thesis
  proof cases
    case 1
    then show ?thesis by (simp add: policy_grant_def)
  next
    case 2
    then have "policy_grant p r1 requested = 0"
      by (simp add: policy_grant_def)
    then show ?thesis
      using policy_grant_bounds [OF assms(1,2), of r2] by simp
  next
    case 3
    then have "policy_grant p r2 requested = requested"
      using assms(2,3) by (auto simp: policy_grant_def Let_def sdiv_nonneg)
    then show ?thesis
      using 3 policy_grant_bounds [OF assms(1,2), of r1] by simp
  qed
qed

text \<open>A request for one credit is never amplified, so the grant for a frame is always one.\<close>

lemma policy_grant_one_le: "policy_grant p remaining 1 \<le> 1"
proof (cases "0 < Capacity p \<and> Capacity p < 2 ^ 63")
  case True
  then show ?thesis
    using policy_grant_bounds [of 1 p remaining] by simp
next
  case False
  show ?thesis
  proof (cases "Capacity p \<le> 0")
    case True
    then show ?thesis by (auto simp: policy_grant_def Let_def sdiv_nonneg)
  next
    case big: False
    with False have cap: "2 ^ 63 \<le> Capacity p" by simp
    have "int64 remaining sdiv Capacity p \<le> 1"
    proof (cases "0 \<le> int64 remaining")
      case True
      moreover have "int64 remaining < 2 ^ 63" by (rule int64_range)
      ultimately show ?thesis
        using cap by (simp add: sdiv_nonneg)
    next
      case neg: False
      then have "0 \<le> - int64 remaining div Capacity p"
        using big by (simp add: pos_imp_zdiv_nonneg_iff)
      then show ?thesis
        using neg big by (simp add: signed_divide_int_def sgn_if)
    qed
    then show ?thesis
      using big by (auto simp: policy_grant_def Let_def)
  qed
qed

lemma coupling_grant_one: "coupling_grant remaining hasCredit policy = 1"
  using policy_grant_one_le [of policy remaining] by (simp add: coupling_grant_def Let_def)

section \<open>Properties of the credit coupling\<close>

text \<open>
  the grant for one relayed frame is one credit, always: whatever the policy, its
  capacity and the browser's remaining credit, known or not. The read-ahead the
  code adds on top of the frame's own replacement never exceeds it.
\<close>

theorem coupling_grant_is_one: "coupling_grant remaining hasCredit policy = 1"
  by (rule coupling_grant_one)

text \<open>
  a policy never grants more than was requested nor a negative amount, grants
  everything at or above half its capacity and nothing without headroom, and never grants
  more for less headroom.
\<close>

theorem policy_grant_shape:
  assumes "requested * Capacity p < 2 ^ 63" and "0 < Capacity p" and "0 < requested"
  shows "policy_grant p remaining requested \<in> {0..requested} \<and>
    (remaining \<le> 0 \<longrightarrow> policy_grant p remaining requested = 0) \<and>
    (remaining \<ge> max 1 (Capacity p div 2) \<longrightarrow> policy_grant p remaining requested = requested) \<and>
    (remaining \<le> larger \<longrightarrow> policy_grant p remaining requested \<le> policy_grant p larger requested)"
proof (intro conjI impI)
  show "policy_grant p remaining requested \<in> {0..requested}"
    using policy_grant_bounds [OF assms(1,2), of remaining] assms(3) by simp
  show "policy_grant p remaining requested = 0" if "remaining \<le> 0"
    using that by (simp add: policy_grant_def)
  show "policy_grant p remaining requested = requested" if "remaining \<ge> max 1 (Capacity p div 2)"
    using that assms(2,3) by (simp add: policy_grant_def Let_def sdiv_nonneg)
  show "policy_grant p remaining requested \<le> policy_grant p larger requested" if "remaining \<le> larger"
    using assms(1,2) that by (rule policy_grant_mono)
qed

theorem policy_grant_shape_witness:
  "policy_grant DefaultCouplingPolicy 3 4 \<in> {0..4} \<and>
    policy_grant DefaultCouplingPolicy 3 4 \<le> policy_grant DefaultCouplingPolicy 8 4"
  using policy_grant_shape [of 4 DefaultCouplingPolicy 3 8]
  by (simp add: DefaultCouplingPolicy_def EmbedStreamInitialCredit_def)

end
