(* ===== verification/Relay_Pump.thy ===== *)
theory Relay_Pump
  imports Transport_Channel Relay_Readonly Relay_Coupling
begin

text \<open>
  \<open>internal/relay/pump.go\<close>: the two handshakes, the two directions of the relay and their
  end. The code is written against two \<open>*transport.Channel\<close>s; here it is written against
  their operations over one state, and the properties are about two channels of
  \<open>Transport_Channel\<close>.
\<close>

section \<open>The two ends\<close>

text \<open>
  The methods of a channel the pump calls. \<open>Read\<close> returns the bytes read and the error;
  \<open>ReadFull\<close> is \<open>io.ReadFull\<close> over it. Times are in seconds; \<open>None\<close> is Go's zero time.
\<close>

record 's chan_ops =
  Read :: "nat \<Rightarrow> 's \<Rightarrow> (bytes \<times> go_error option) \<times> 's"
  ReadFull :: "nat \<Rightarrow> 's \<Rightarrow> (bytes, 's) outcome"
  Write :: "bytes \<Rightarrow> 's \<Rightarrow> (unit, 's) outcome"
  GrantCredit :: "int \<Rightarrow> 's \<Rightarrow> (unit, 's) outcome"
  SendCreditRemaining :: "'s \<Rightarrow> int \<times> bool"
  SetDeadline :: "int option \<Rightarrow> 's \<Rightarrow> 's"

text \<open>\<open>_ = ch.GrantCredit(n)\<close>: the error is dropped.\<close>

definition grant_quietly :: "'s chan_ops \<Rightarrow> int \<Rightarrow> 's \<Rightarrow> 's" where
  "grant_quietly ch n s = snd (GrantCredit ch n s)"

definition handshakeTimeout :: int where "handshakeTimeout = 15"
definition serverToBrowserBufSize :: nat where "serverToBrowserBufSize = 32 * 1024"

section \<open>The handshakes\<close>

definition clear_deadlines :: "'s chan_ops \<Rightarrow> 's chan_ops \<Rightarrow> 's \<Rightarrow> 's" where
  "clear_deadlines tcpChannel embedChannel s =
     SetDeadline embedChannel None (SetDeadline tcpChannel None s)"

definition do_handshakes ::
    "'s chan_ops \<Rightarrow> 's chan_ops \<Rightarrow> int \<Rightarrow> bytes \<Rightarrow> 's \<Rightarrow> (unit, 's) outcome" where
  "do_handshakes tcpChannel embedChannel now password s =
     (let deadline = now + handshakeTimeout;
          s = SetDeadline embedChannel (Some deadline) (SetDeadline tcpChannel (Some deadline) s) in
      map_prod id (clear_deadlines tcpChannel embedChannel)
        (io_bind (io_wrap (Wrapf ''relay: VNC server handshake: %w'')
                    (handshake (ReadFull tcpChannel) (Write tcpChannel) password s)) (\<lambda>_ s.
         let s = grant_quietly tcpChannel TCPRelayInitialCredit s in
         io_wrap (Wrapf ''relay: browser frontshake: %w'')
           (frontshake (ReadFull embedChannel) (Write embedChannel) s))))"

section \<open>Server to browser\<close>

text \<open>The gate, when there is one: \<open>WaitForReadClearance\<close> returns whether to go on reading.\<close>

definition wait_clear :: "('s \<Rightarrow> bool \<times> 's) option \<Rightarrow> 's \<Rightarrow> bool \<times> 's" where
  "wait_clear gate s = (case gate of None \<Rightarrow> (True, s) | Some wait \<Rightarrow> wait s)"

definition server_read_error :: "go_error \<Rightarrow> go_error" where
  "server_read_error err =
     (if errors_is err EOF then Wrapf ''relay: VNC server closed the connection: %w'' err
      else Wrapf ''relay: read from tcp-relay: %w'' err)"

text \<open>One turn of the loop: \<open>Inl\<close> is a return with its error, \<open>Inr\<close> the next turn.\<close>

definition server_to_browser_turn ::
    "'s chan_ops \<Rightarrow> 's chan_ops \<Rightarrow> coupling_policy \<Rightarrow> ('s \<Rightarrow> bool \<times> 's) option \<Rightarrow> 's \<Rightarrow>
     (go_error option + unit) \<times> 's" where
  "server_to_browser_turn tcpCh embedCh policy gate s =
     (case wait_clear gate s of
        (False, s) \<Rightarrow> (Inl None, s)
      | (True, s) \<Rightarrow>
        (case Read tcpCh serverToBrowserBufSize s of ((b, readErr), s) \<Rightarrow>
         (case (if b \<noteq> []
                then io_bind (io_wrap (Wrapf ''relay: write to embed-stream: %w'') (Write embedCh b s)) (\<lambda>_ s.
                  let (left, known) = SendCreditRemaining embedCh s in
                  (Inr (), grant_quietly tcpCh (coupling_grant left known policy) s))
                else (Inr (), s)) of
            (Inl err, s) \<Rightarrow> (Inl (Some err), s)
          | (Inr _, s) \<Rightarrow>
            (case readErr of
               None \<Rightarrow> (Inr (), s)
             | Some err \<Rightarrow>
                 (Inl (Some (server_read_error err)), s)))))"

partial_function (option) pump_server_to_browser ::
    "'s chan_ops \<Rightarrow> 's chan_ops \<Rightarrow> coupling_policy \<Rightarrow> ('s \<Rightarrow> bool \<times> 's) option \<Rightarrow> 's \<Rightarrow>
     (go_error option \<times> 's) option" where
  "pump_server_to_browser tcpCh embedCh policy gate s =
     (case server_to_browser_turn tcpCh embedCh policy gate s of
        (Inl err, s') \<Rightarrow> Some (err, s')
      | (Inr _, s') \<Rightarrow> pump_server_to_browser tcpCh embedCh policy gate s')"

section \<open>Browser to server\<close>

text \<open>\<open>ClientInit\<close> is one byte and no message: it is relayed without a look at it.\<close>

definition client_init_error :: "go_error \<Rightarrow> go_error" where
  "client_init_error err =
     (if errors_is err EOF then Wrapf ''relay: embed-stream closed before ClientInit: %w'' err
      else Wrapf ''relay: read ClientInit: %w'' err)"

definition relay_client_init :: "'s chan_ops \<Rightarrow> 's chan_ops \<Rightarrow> 's \<Rightarrow> (unit, 's) outcome" where
  "relay_client_init embedCh tcpCh s =
     io_bind (io_wrap client_init_error (ReadFull embedCh 1 s)) (\<lambda>clientInit s.
     io_wrap (Wrapf ''relay: relay ClientInit to tcp-relay: %w'') (Write tcpCh clientInit s))"

definition browser_to_server_turn :: "'s chan_ops \<Rightarrow> 's chan_ops \<Rightarrow> bool \<Rightarrow> 's \<Rightarrow> (unit, 's) outcome" where
  "browser_to_server_turn embedCh tcpCh readOnly s =
     (case filter_once (ReadFull embedCh) (Write tcpCh) readOnly s of
        (Inl err, s) \<Rightarrow>
          (Inl (if errors_is err EOF then Wrapf ''relay: embed-stream closed: %w'' err
                else Wrapf ''relay: browser->server relay: %w'' err), s)
      | (Inr _, s) \<Rightarrow> (Inr (), grant_quietly embedCh 1 s))"

partial_function (option) browser_to_server_loop ::
    "'s chan_ops \<Rightarrow> 's chan_ops \<Rightarrow> bool \<Rightarrow> 's \<Rightarrow> (go_error \<times> 's) option" where
  "browser_to_server_loop embedCh tcpCh readOnly s =
     (case browser_to_server_turn embedCh tcpCh readOnly s of
        (Inl err, s') \<Rightarrow> Some (err, s')
      | (Inr _, s') \<Rightarrow> browser_to_server_loop embedCh tcpCh readOnly s')"

definition pump_browser_to_server ::
    "'s chan_ops \<Rightarrow> 's chan_ops \<Rightarrow> bool \<Rightarrow> 's \<Rightarrow> (go_error \<times> 's) option" where
  "pump_browser_to_server embedCh tcpCh readOnly s =
     (case relay_client_init embedCh tcpCh s of
        (Inl err, s') \<Rightarrow> Some (err, s')
      | (Inr _, s') \<Rightarrow> browser_to_server_loop embedCh tcpCh readOnly s')"

section \<open>A pair of channels\<close>

text \<open>
  A channel and what the pump does to it besides reading and writing: the credit it grants, the
  deadlines it sets, in order; \<open>frameSize\<close> and \<open>window\<close> are fixed when the channel is opened and by its peer.
\<close>

record link =
  wire :: channel
  frameSize :: int
  window :: "int \<times> bool"
  granted :: "int list"
  deadlines :: "int option list"

record 'w relay =
  tcp :: link
  embed :: link
  outside :: 'w

definition link_read :: "nat \<Rightarrow> link \<Rightarrow> (bytes \<times> go_error option) \<times> link" where
  "link_read n l =
     (case channel_read n (wire l) of
        (Inl e, c) \<Rightarrow> (([], Some e), l\<lparr>wire := c\<rparr>)
      | (Inr b, c) \<Rightarrow> ((b, None), l\<lparr>wire := c\<rparr>))"

definition link_ops :: "('s \<Rightarrow> link) \<Rightarrow> (link \<Rightarrow> 's \<Rightarrow> 's) \<Rightarrow> 's chan_ops" where
  "link_ops get put =
     \<lparr>Read = \<lambda>n s. map_prod id (\<lambda>l. put l s) (link_read n (get s)),
      ReadFull = \<lambda>n s. map_prod id (\<lambda>c. put ((get s)\<lparr>wire := c\<rparr>) s) (channel_read_full n (wire (get s))),
      Write = \<lambda>b s. map_prod id (\<lambda>c. put ((get s)\<lparr>wire := c\<rparr>) s)
                (channel_write_unit (frameSize (get s)) b (wire (get s))),
      GrantCredit = \<lambda>n s. (Inr (), put ((get s)\<lparr>granted := granted (get s) @ [n]\<rparr>) s),
      SendCreditRemaining = \<lambda>s. window (get s),
      SetDeadline = \<lambda>d s. put ((get s)\<lparr>deadlines := deadlines (get s) @ [d]\<rparr>) s\<rparr>"

definition tcp_end :: "'w relay chan_ops" where
  "tcp_end = link_ops tcp (\<lambda>l s. s\<lparr>tcp := l\<rparr>)"

definition embed_end :: "'w relay chan_ops" where
  "embed_end = link_ops embed (\<lambda>l s. s\<lparr>embed := l\<rparr>)"

lemmas end_defs = tcp_end_def embed_end_def link_ops_def grant_quietly_def

lemma end_simps [simp]:
  "SetDeadline tcp_end d s = s\<lparr>tcp := (tcp s)\<lparr>deadlines := deadlines (tcp s) @ [d]\<rparr>\<rparr>"
  "SetDeadline embed_end d s = s\<lparr>embed := (embed s)\<lparr>deadlines := deadlines (embed s) @ [d]\<rparr>\<rparr>"
  "grant_quietly tcp_end n s = s\<lparr>tcp := (tcp s)\<lparr>granted := granted (tcp s) @ [n]\<rparr>\<rparr>"
  "grant_quietly embed_end n s = s\<lparr>embed := (embed s)\<lparr>granted := granted (embed s) @ [n]\<rparr>\<rparr>"
  "SendCreditRemaining embed_end s = window (embed s)"
  by (simp_all add: end_defs)

text \<open>What has arrived at an end and what has been sent from it.\<close>

definition incoming :: "link \<Rightarrow> bytes" where
  "incoming l = readBuf (wire l) @ concat (readCh (wire l))"

definition outgoing :: "link \<Rightarrow> bytes" where
  "outgoing l = concat (sunk (wire l))"

lemma way_granted [simp]:
  "incoming (l\<lparr>granted := g\<rparr>) = incoming l" "outgoing (l\<lparr>granted := g\<rparr>) = outgoing l"
  by (simp_all add: incoming_def outgoing_def)

section \<open>The handshakes over a pair\<close>

text \<open>
  An end of the pair is its channel, with the rest of the pair as it was: the two embeddings are
  maps of readers and writers, so a handshake at an end is the handshake over its channel.
\<close>

definition with_tcp :: "'w relay \<Rightarrow> channel \<Rightarrow> 'w relay" where
  "with_tcp s c = s\<lparr>tcp := (tcp s)\<lparr>wire := c\<rparr>\<rparr>"

definition with_embed :: "'w relay \<Rightarrow> channel \<Rightarrow> 'w relay" where
  "with_embed s c = s\<lparr>embed := (embed s)\<lparr>wire := c\<rparr>\<rparr>"

interpretation at_tcp: duplex_map channel_read_full "ReadFull tcp_end" "with_tcp s"
    "channel_write_unit (frameSize (tcp s))" "Write tcp_end" wmax for s :: "'w relay" and wmax
  by unfold_locales (auto simp: end_defs with_tcp_def map_prod_def split: prod.splits)

interpretation at_embed: duplex_map channel_read_full "ReadFull embed_end" "with_embed s"
    "channel_write_unit (frameSize (embed s))" "Write embed_end" wmax for s :: "'w relay" and wmax
  by unfold_locales (auto simp: end_defs with_embed_def map_prod_def split: prod.splits)

lemma with_wire [simp]: "with_tcp s (wire (tcp s)) = s" "with_embed s (wire (embed s)) = s"
  by (simp_all add: with_tcp_def with_embed_def)

lemma handshake_at_tcp:
  "handshake (ReadFull tcp_end) (Write tcp_end) password s =
     map_prod id (with_tcp s) (handshake channel_read_full (channel_write_unit (frameSize (tcp s))) password (wire (tcp s)))"
  using at_tcp.handshake_view [of 16 s password "wire (tcp s)"] by simp

lemma frontshake_at_embed:
  "frontshake (ReadFull embed_end) (Write embed_end) s =
     map_prod id (with_embed s) (frontshake channel_read_full (channel_write_unit (frameSize (embed s))) (wire (embed s)))"
  using at_embed.frontshake_view [of 12 s "wire (embed s)"] by simp

lemma do_handshakes_view:
  assumes "16 \<le> max_payload (frameSize (tcp s))" and "12 \<le> max_payload (frameSize (embed s))"
    and "do_handshakes tcp_end embed_end now password s = (res, s')"
  shows "\<exists>a. handshake stream_read_full conn_write password (channel_view (wire (tcp s))) =
      (a, channel_view (wire (tcp s'))) \<and>
    deadlines (tcp s') = deadlines (tcp s) @ [Some (now + 15), None] \<and>
    deadlines (embed s') = deadlines (embed s) @ [Some (now + 15), None] \<and>
    granted (embed s') = granted (embed s) \<and> outside s' = outside s \<and>
    (case a of
       Inl e \<Rightarrow> res = Inl (Wrapf ''relay: VNC server handshake: %w'' e) \<and>
         wire (embed s') = wire (embed s) \<and> granted (tcp s') = granted (tcp s)
     | Inr _ \<Rightarrow> granted (tcp s') = granted (tcp s) @ [4] \<and>
         (\<exists>b. frontshake stream_read_full conn_write (channel_view (wire (embed s))) =
            (b, channel_view (wire (embed s'))) \<and>
          res = (case b of Inl e \<Rightarrow> Inl (Wrapf ''relay: browser frontshake: %w'' e) | Inr u \<Rightarrow> Inr u)))"
proof -
  let ?m = "frameSize (tcp s)" and ?n = "frameSize (embed s)"
  obtain a c where hs: "handshake channel_read_full (channel_write_unit ?m) password (wire (tcp s)) = (a, c)"
    by (cases "handshake channel_read_full (channel_write_unit ?m) password (wire (tcp s))")
  obtain b d where fs: "frontshake channel_read_full (channel_write_unit ?n) (wire (embed s)) = (b, d)"
    by (cases "frontshake channel_read_full (channel_write_unit ?n) (wire (embed s))")
  have hv: "handshake stream_read_full conn_write password (channel_view (wire (tcp s))) = (a, channel_view c)"
    using channel.handshake_view [OF assms(1), of password "wire (tcp s)"] hs by simp
  have fv: "frontshake stream_read_full conn_write (channel_view (wire (embed s))) = (b, channel_view d)"
    using channel.frontshake_view [OF assms(2), of "wire (embed s)"] fs by simp
  have shape: "handshake (ReadFull tcp_end) (Write tcp_end) password u = (a, with_tcp u c)"
    if "wire (tcp u) = wire (tcp s)" "frameSize (tcp u) = ?m" for u :: "'a relay"
    using that hs by (simp add: handshake_at_tcp)
  have shape2: "frontshake (ReadFull embed_end) (Write embed_end) u = (b, with_embed u d)"
    if "wire (embed u) = wire (embed s)" "frameSize (embed u) = ?n" for u :: "'a relay"
    using that fs by (simp add: frontshake_at_embed)
  show ?thesis
    using assms(3) hv fv
    by (cases a; cases b)
      (auto simp: do_handshakes_def Let_def clear_deadlines_def TCPRelayInitialCredit_def handshakeTimeout_def
        shape shape2 with_tcp_def with_embed_def)
qed

text \<open>
  C9: the two handshakes, in order and under a deadline. Over any pair of channels whose frames
  hold the handshake messages: the VNC handshake runs on the server's byte stream; if it fails, its
  error is returned and the browser's channel has been neither read nor written; if it succeeds,
  the server is granted a fresh window of four credits before the synthetic handshake runs on the
  browser's byte stream, and that decides the result. Either way both channels had a deadline
  15 seconds ahead and have none at the end.
\<close>

theorem handshakes_in_order:
  assumes "16 \<le> max_payload (frameSize (tcp s))" and "12 \<le> max_payload (frameSize (embed s))"
    and "do_handshakes tcp_end embed_end now password s = (res, s')"
  shows "\<exists>a. handshake stream_read_full conn_write password (channel_view (wire (tcp s))) =
      (a, channel_view (wire (tcp s'))) \<and>
    deadlines (tcp s') = deadlines (tcp s) @ [Some (now + 15), None] \<and>
    deadlines (embed s') = deadlines (embed s) @ [Some (now + 15), None] \<and>
    granted (embed s') = granted (embed s) \<and> outside s' = outside s \<and>
    (case a of
       Inl e \<Rightarrow> res = Inl (Wrapf ''relay: VNC server handshake: %w'' e) \<and>
         wire (embed s') = wire (embed s) \<and> granted (tcp s') = granted (tcp s)
     | Inr _ \<Rightarrow> granted (tcp s') = granted (tcp s) @ [4] \<and>
         (\<exists>b. frontshake stream_read_full conn_write (channel_view (wire (embed s))) =
            (b, channel_view (wire (embed s'))) \<and>
          res = (case b of Inl e \<Rightarrow> Inl (Wrapf ''relay: browser frontshake: %w'' e) | Inr u \<Rightarrow> Inr u)))"
  using assms by (rule do_handshakes_view)

section \<open>One operation at an end\<close>

lemma incoming_view: "incoming l = avail (channel_view (wire l))"
  by (simp add: incoming_def channel_view_def)

lemma with_simps [simp]:
  "tcp (with_tcp s c) = (tcp s)\<lparr>wire := c\<rparr>" "embed (with_tcp s c) = embed s"
  "embed (with_embed s c) = (embed s)\<lparr>wire := c\<rparr>" "tcp (with_embed s c) = tcp s"
  "outside (with_tcp s c) = outside s" "outside (with_embed s c) = outside s"
  by (simp_all add: with_tcp_def with_embed_def)

lemma drained_eq:
  "drained c' = drained c \<Longrightarrow> sunk c' = sunk c \<and> sinkLeft c' = sinkLeft c \<and> sinkErr c' = sinkErr c \<and> readEnd c' = readEnd c"
  by (cases c; cases c') (simp add: drained_def)

lemma unsent_eq:
  "unsent c' = unsent c \<Longrightarrow> readBuf c' = readBuf c \<and> readCh c' = readCh c \<and> sinkErr c' = sinkErr c \<and> readEnd c' = readEnd c"
  by (cases c; cases c') (simp add: unsent_def)

lemma read_at_tcp:
  assumes "Read tcp_end n s = ((b, e), s')" and "0 < n"
  shows "\<exists>c. s' = with_tcp s c \<and> drained c = drained (wire (tcp s)) \<and> incoming (tcp s) = b @ incoming (tcp s') \<and>
    (case e of None \<Rightarrow> b \<noteq> [] \<and> length b \<le> n
     | Some x \<Rightarrow> b = [] \<and> incoming (tcp s) = [] \<and> x = readEnd (wire (tcp s)))"
proof -
  obtain r c where rd: "channel_read n (wire (tcp s)) = (r, c)"
    by (cases "channel_read n (wire (tcp s))")
  have d: "drained c = drained (wire (tcp s))"
    using channel_read_drained [of n "wire (tcp s)"] rd by simp
  have s': "s' = with_tcp s c"
    using assms(1) rd by (cases r) (auto simp: end_defs link_read_def with_tcp_def)
  show ?thesis
  proof (cases r)
    case (Inl x)
    with rd channel_read_fails [of n "wire (tcp s)" x c] assms(1) d s' show ?thesis
      by (auto simp: end_defs link_read_def incoming_view)
  next
    case (Inr a)
    with rd assms channel_read_view [of n "wire (tcp s)" a c] channel_read_progress [of n "wire (tcp s)" a c] d s'
    show ?thesis by (auto simp: end_defs link_read_def incoming_view)
  qed
qed

lemma write_at_embed:
  assumes "Write embed_end b s = (r, s')"
  shows "\<exists>c p. s' = with_embed s c \<and> unsent c = unsent (wire (embed s)) \<and>
    outgoing (embed s') = outgoing (embed s) @ p \<and> prefix p b \<and> (r = Inr () \<longrightarrow> p = b) \<and>
    (sinkLeft (wire (embed s)) = None \<longrightarrow> sinkLeft c = None \<and> r = Inr ())"
  using assms channel_write_unit_sent [of "frameSize (embed s)" b "wire (embed s)"]
  by (cases "channel_write_unit (frameSize (embed s)) b (wire (embed s))")
    (auto simp: end_defs with_embed_def outgoing_def)

lemma write_at_tcp:
  assumes "Write tcp_end b s = (r, s')"
  shows "\<exists>c p. s' = with_tcp s c \<and> unsent c = unsent (wire (tcp s)) \<and>
    outgoing (tcp s') = outgoing (tcp s) @ p \<and> prefix p b \<and> (r = Inr () \<longrightarrow> p = b) \<and>
    (sinkLeft (wire (tcp s)) = None \<longrightarrow> sinkLeft c = None \<and> r = Inr ())"
  using assms channel_write_unit_sent [of "frameSize (tcp s)" b "wire (tcp s)"]
  by (cases "channel_write_unit (frameSize (tcp s)) b (wire (tcp s))")
    (auto simp: end_defs with_tcp_def outgoing_def)

section \<open>Server to browser over a pair\<close>

text \<open>The gate acts on the world outside the pair.\<close>

definition outside_gate :: "('w \<Rightarrow> bool \<times> 'w) \<Rightarrow> 'w relay \<Rightarrow> bool \<times> 'w relay" where
  "outside_gate g s = map_prod id (\<lambda>w. s\<lparr>outside := w\<rparr>) (g (outside s))"

text \<open>What the other direction uses, which this one leaves alone; and the other way round.\<close>

definition upstream :: "'w relay \<Rightarrow> channel \<times> channel \<times> int list \<times> int \<times> int" where
  "upstream s = (drained (wire (tcp s)), unsent (wire (embed s)), granted (embed s),
     frameSize (tcp s), frameSize (embed s))"

definition downstream :: "'w relay \<Rightarrow> channel \<times> channel \<times> int list \<times> int \<times> int" where
  "downstream s = (unsent (wire (tcp s)), drained (wire (embed s)), granted (tcp s),
     frameSize (tcp s), frameSize (embed s))"

lemma wait_clear_outside:
  "wait_clear (map_option outside_gate g) s = (b, s') \<Longrightarrow> \<exists>w. s' = s\<lparr>outside := w\<rparr>"
  by (cases g; cases "the g (outside s)") (auto simp: wait_clear_def outside_gate_def intro: exI [of _ "outside s"])

text \<open>One turn: a chunk of at most 32 KiB is moved across, for one credit, or the direction ends.\<close>

lemma server_to_browser_turn_moves:
  assumes "server_to_browser_turn tcp_end embed_end policy (map_option outside_gate g) s = (r, s')"
  shows "upstream s' = upstream s \<and> (\<exists>b p. incoming (tcp s) = b @ incoming (tcp s') \<and>
     outgoing (embed s') = outgoing (embed s) @ p \<and> prefix p b \<and>
     (sinkLeft (wire (embed s)) = None \<longrightarrow> p = b \<and> sinkLeft (wire (embed s')) = None) \<and>
     (case r of
        Inr _ \<Rightarrow> p = b \<and> b \<noteq> [] \<and> granted (tcp s') = granted (tcp s) @ [1]
      | Inl err \<Rightarrow> granted (tcp s') = granted (tcp s) \<and>
          (sinkLeft (wire (embed s)) = None \<and> g = None \<longrightarrow> b = [] \<and> incoming (tcp s') = [] \<and>
             err = Some (server_read_error (readEnd (wire (tcp s)))))))"
proof -
  obtain go s1 where wait: "wait_clear (map_option outside_gate g) s = (go, s1)"
    by (cases "wait_clear (map_option outside_gate g) s")
  then obtain w where s1: "s1 = s\<lparr>outside := w\<rparr>" using wait_clear_outside by blast
  have go: "g = None \<Longrightarrow> go" using wait by (simp add: wait_clear_def)
  show ?thesis
  proof (cases go)
    case False
    with assms wait s1 go show ?thesis
      by (auto simp: server_to_browser_turn_def upstream_def)
  next
    case True
    obtain b e s2 where rd: "Read tcp_end serverToBrowserBufSize s1 = ((b, e), s2)"
      by (metis surj_pair)
    from read_at_tcp [OF this] obtain c where c: "s2 = with_tcp s1 c" "drained c = drained (wire (tcp s1))"
      "incoming (tcp s1) = b @ incoming (tcp s2)"
      and e: "case e of None \<Rightarrow> b \<noteq> [] \<and> length b \<le> serverToBrowserBufSize
         | Some x \<Rightarrow> b = [] \<and> incoming (tcp s1) = [] \<and> x = readEnd (wire (tcp s1))"
      by (auto simp: serverToBrowserBufSize_def)
    show ?thesis
    proof (cases e)
      case (Some x)
      with e have "b = []" "incoming (tcp s1) = []" "x = readEnd (wire (tcp s1))" by simp_all
      with assms wait True rd c s1 Some show ?thesis
        by (auto simp: server_to_browser_turn_def upstream_def)
    next
      case None
      with e have b: "b \<noteq> []" by simp
      obtain x s3 where wr: "Write embed_end b s2 = (x, s3)" by (cases "Write embed_end b s2")
      from write_at_embed [OF this] obtain d p where d: "s3 = with_embed s2 d"
        "unsent d = unsent (wire (embed s2))" "outgoing (embed s3) = outgoing (embed s2) @ p" "prefix p b"
        "x = Inr () \<longrightarrow> p = b" "sinkLeft (wire (embed s2)) = None \<longrightarrow> sinkLeft d = None \<and> x = Inr ()"
        by (elim exE conjE) (rule that)
      show ?thesis
        using assms wait True rd c s1 None b wr d
        by (cases x)
          (auto simp: server_to_browser_turn_def upstream_def coupling_grant_one incoming_def outgoing_def split: prod.splits)
    qed
  qed
qed

lemma upstream_eq:
  "upstream s' = upstream s \<Longrightarrow>
     drained (wire (tcp s')) = drained (wire (tcp s)) \<and> unsent (wire (embed s')) = unsent (wire (embed s)) \<and>
     granted (embed s') = granted (embed s)"
  by (simp add: upstream_def)

text \<open>What a run of the loop from \<open>s\<close> has done when it returns \<open>err\<close> in \<open>s'\<close>.\<close>

definition server_run :: "('w \<Rightarrow> bool \<times> 'w) option \<Rightarrow> 'w relay \<Rightarrow> go_error option \<Rightarrow> 'w relay \<Rightarrow> bytes \<Rightarrow> bytes \<Rightarrow> nat \<Rightarrow> bool" where
  "server_run g s err s' p rest k \<longleftrightarrow>
     incoming (tcp s) = p @ rest \<and> outgoing (embed s') = outgoing (embed s) @ p \<and>
     granted (tcp s') = granted (tcp s) @ replicate k 1 \<and> k \<le> length p \<and> upstream s' = upstream s \<and>
     (sinkLeft (wire (embed s)) = None \<and> g = None \<longrightarrow> rest = [] \<and> err = Some (server_read_error (readEnd (wire (tcp s)))))"

lemma server_run_end:
  assumes "server_to_browser_turn tcp_end embed_end policy (map_option outside_gate g) s = (Inl err, s')"
  shows "\<exists>p rest. server_run g s err s' p rest 0"
proof -
  note moves = server_to_browser_turn_moves [OF assms]
  then obtain b p where b: "incoming (tcp s) = b @ incoming (tcp s')"
    "outgoing (embed s') = outgoing (embed s) @ p" "prefix p b" "granted (tcp s') = granted (tcp s)"
    and quiet: "sinkLeft (wire (embed s)) = None \<and> g = None \<longrightarrow> p = b \<and> b = [] \<and> incoming (tcp s') = [] \<and>
      err = Some (server_read_error (readEnd (wire (tcp s))))" by auto
  from b(3) obtain q where "b = p @ q" by (auto simp: prefix_def)
  with b quiet moves show ?thesis
    unfolding server_run_def by (intro exI [of _ p] exI [of _ "q @ incoming (tcp s')"]) auto
qed

lemma server_run_turn:
  assumes "server_to_browser_turn tcp_end embed_end policy (map_option outside_gate g) s = (Inr u, s1)"
    and run: "server_run g s1 err s' p rest k"
  shows "\<exists>b. server_run g s err s' (b @ p) rest (Suc k)"
proof -
  note moves = server_to_browser_turn_moves [OF assms(1)]
  then obtain b where b: "incoming (tcp s) = b @ incoming (tcp s1)" "b \<noteq> []"
    "outgoing (embed s1) = outgoing (embed s) @ b" "granted (tcp s1) = granted (tcp s) @ [1]"
    "sinkLeft (wire (embed s)) = None \<longrightarrow> sinkLeft (wire (embed s1)) = None" by auto
  have "readEnd (wire (tcp s1)) = readEnd (wire (tcp s))"
    using moves upstream_eq drained_eq by blast
  moreover have "Suc k \<le> length (b @ p)"
    using run b(2) by (cases b) (auto simp: server_run_def)
  ultimately show "\<exists>b. server_run g s err s' (b @ p) rest (Suc k)"
    using b run moves by (auto simp: server_run_def)
qed


definition demo_link :: "bytes list \<Rightarrow> link" where
  "demo_link ps = \<lparr>wire = demo_channel ps None, frameSize = 65536, window = (8, True), granted = [], deadlines = []\<rparr>"

definition demo_relay :: "bytes list \<Rightarrow> bytes list \<Rightarrow> unit relay" where
  "demo_relay ps qs = \<lparr>tcp = demo_link ps, embed = demo_link qs, outside = ()\<rparr>"

lemma demo_relay_simps [simp]:
  "incoming (tcp (demo_relay ps qs)) = concat ps" "incoming (embed (demo_relay ps qs)) = concat qs"
  "outgoing (tcp (demo_relay ps qs)) = []" "outgoing (embed (demo_relay ps qs)) = []"
  "sinkLeft (wire (tcp (demo_relay ps qs))) = None" "sinkLeft (wire (embed (demo_relay ps qs))) = None"
  "readEnd (wire (tcp (demo_relay ps qs))) = EOF" "readEnd (wire (embed (demo_relay ps qs))) = EOF"
  "granted (tcp (demo_relay ps qs)) = []" "granted (embed (demo_relay ps qs)) = []"
  "frameSize (tcp (demo_relay ps qs)) = 65536" "frameSize (embed (demo_relay ps qs)) = 65536"
  by (simp_all add: demo_relay_def demo_link_def demo_channel_def incoming_def outgoing_def)


theorem handshakes_in_order_witness:
  "\<exists>a s'. do_handshakes tcp_end embed_end 100 [] (demo_relay [[82]] []) =
       (Inl (Wrapf ''relay: VNC server handshake: %w'' a), s') \<and>
     deadlines (tcp s') = [Some 115, None] \<and> wire (embed s') = demo_channel [] None \<and> granted (tcp s') = []"
proof -
  obtain res s' where h: "do_handshakes tcp_end embed_end 100 [] (demo_relay [[82]] []) = (res, s')"
    by (cases "do_handshakes tcp_end embed_end 100 [] (demo_relay [[82]] [])")
  have "max_payload 65536 = 65536" by (simp add: max_payload_def)
  moreover have "\<exists>e. fst (handshake stream_read_full conn_write [] (channel_view (demo_channel [[82]] None))) = Inl e"
    by (simp add: handshake_def read_version_def channel_view_def demo_channel_def
        stream_read_full_def short_read_def wrap_truncated_def versionLineLen_def)
  ultimately show ?thesis
    using handshakes_in_order [OF _ _ h] h
    by (auto simp: demo_relay_def demo_link_def)
qed

section \<open>Browser to server over a pair\<close>

text \<open>The browser's end as a stream of bytes, with all the rest of the pair carried along.\<close>

definition browser_view :: "'w relay \<Rightarrow> 'w relay stream_scheme" where
  "browser_view s = \<lparr>avail = incoming (embed s), fin = readEnd (wire (embed s)),
     \<dots> = with_embed s (drained (wire (embed s)))\<rparr>"

lemma browser_view_simps [simp]:
  "avail (browser_view s) = incoming (embed s)" "fin (browser_view s) = readEnd (wire (embed s))"
  by (simp_all add: browser_view_def)

interpretation browser: byte_source "ReadFull embed_end" browser_view
proof
  fix n and s :: "'w relay"
  obtain r c where rd: "channel_read_full n (wire (embed s)) = (r, c)"
    by (cases "channel_read_full n (wire (embed s))")
  have "(r, channel_view c) = stream_read_full n (channel_view (wire (embed s)))"
    using channel.read_view [of n "wire (embed s)"] rd by simp
  moreover have d: "drained c = drained (wire (embed s))"
    using channel_read_full_drained [of n "wire (embed s)"] rd by simp
  moreover have "with_embed (with_embed s c) k = with_embed s k" for k
    by (simp add: with_embed_def)
  moreover have "ReadFull embed_end n s = (r, with_embed s c)"
    using rd by (simp add: end_defs with_embed_def)
  ultimately show "map_prod id browser_view (ReadFull embed_end n s) = stream_read_full n (browser_view s)"
    using drained_eq [OF d]
    by (auto simp: stream_read_full_def browser_view_def incoming_view channel_view_def split: if_splits)
qed

text \<open>A view fixes everything but the unread bytes.\<close>

lemma browser_view_rest:
  assumes "browser_view s' = (browser_view s)\<lparr>avail := r\<rparr>"
  shows "incoming (embed s') = r \<and> tcp s' = tcp s \<and> granted (embed s') = granted (embed s) \<and>
    drained (wire (embed s')) = drained (wire (embed s)) \<and> frameSize (embed s') = frameSize (embed s) \<and>
    outside s' = outside s"
proof -
  have w: "with_embed s' (drained (wire (embed s'))) = with_embed s (drained (wire (embed s)))"
    and r: "incoming (embed s') = r"
    using assms by (simp_all add: browser_view_def)
  have e: "embed (with_embed s' (drained (wire (embed s')))) = embed (with_embed s (drained (wire (embed s))))"
    and t: "tcp (with_embed s' (drained (wire (embed s')))) = tcp (with_embed s (drained (wire (embed s))))"
    and u: "outside (with_embed s' (drained (wire (embed s')))) = outside (with_embed s (drained (wire (embed s))))"
    unfolding w by (rule refl)+
  from e have "wire (embed (with_embed s' (drained (wire (embed s'))))) =
      wire (embed (with_embed s (drained (wire (embed s)))))"
    "granted (embed (with_embed s' (drained (wire (embed s'))))) =
      granted (embed (with_embed s (drained (wire (embed s)))))"
    "frameSize (embed (with_embed s' (drained (wire (embed s'))))) =
      frameSize (embed (with_embed s (drained (wire (embed s)))))"
    by simp_all
  with r t u show ?thesis by simp
qed

lemma read_message_at_embed:
  assumes "read_client_message (ReadFull embed_end) s = (x, s')"
  shows "read_client_message stream_read_full (browser_view s) = (x, browser_view s')"
  using browser.read_client_message_view [of s] assms by simp

lemma downstream_eq:
  "tcp s' = tcp s \<Longrightarrow> drained (wire (embed s')) = drained (wire (embed s)) \<Longrightarrow>
   frameSize (embed s') = frameSize (embed s) \<Longrightarrow> downstream s' = downstream s"
  by (simp add: downstream_def)

text \<open>The filter takes a message off the browser's stream and forwards it if the policy says so.\<close>

lemma read_message_pair:
  assumes "read_client_message (ReadFull embed_end) s = (Inr m, s')"
  shows "wf_client_message m \<and> incoming (embed s) = message_bytes m @ incoming (embed s') \<and> tcp s' = tcp s \<and>
    granted (embed s') = granted (embed s) \<and> downstream s' = downstream s"
proof -
  from read_client_message_sound [OF read_message_at_embed [OF assms]] obtain q where
    m: "wf_client_message m" "incoming (embed s) = message_bytes m @ q"
      "browser_view s' = (browser_view s)\<lparr>avail := q\<rparr>" by auto
  from browser_view_rest [OF m(3)] m(1,2) show ?thesis
    using downstream_eq [of s' s] by blast
qed

lemma read_no_message_pair:
  assumes "read_client_message (ReadFull embed_end) s = (Inl e, s')"
  shows "no_message (incoming (embed s)) \<and> tcp s' = tcp s \<and> granted (embed s') = granted (embed s) \<and>
    downstream s' = downstream s"
proof -
  note view = read_message_at_embed [OF assms]
  from read_client_message_Inl_more [OF view] obtain q where
    "browser_view s' = (browser_view s)\<lparr>avail := q\<rparr>" ..
  note rest = browser_view_rest [OF this]
  have "no_message (incoming (embed s))"
    unfolding no_message_def
  proof (intro allI impI notI)
    fix m q'
    assume "wf_client_message m" and "incoming (embed s) = message_bytes m @ q'"
    then have "read_client_message stream_read_full (browser_view s) = (Inr m, (browser_view s)\<lparr>avail := q'\<rparr>)"
      by (intro read_client_message_at) simp_all
    with view show False by simp
  qed
  with rest show ?thesis using downstream_eq [of s' s] by blast
qed

text \<open>
  One turn: a message moved across, for one credit; or the direction ends, where the browser's
  stream holds no further message, or in the middle of forwarding one.
\<close>

lemma turn_of_filter:
  "browser_to_server_turn embed_end tcp_end b s =
     (case filter_once (ReadFull embed_end) (Write tcp_end) b s of
        (Inl err, s) \<Rightarrow> (Inl (if errors_is err EOF then Wrapf ''relay: embed-stream closed: %w'' err
                              else Wrapf ''relay: browser->server relay: %w'' err), s)
      | (Inr _, s) \<Rightarrow> (Inr (), s\<lparr>embed := (embed s)\<lparr>granted := granted (embed s) @ [1]\<rparr>\<rparr>))"
  by (simp add: browser_to_server_turn_def cong: prod.case_cong sum.case_cong)

definition moved :: "bool \<Rightarrow> 'w relay \<Rightarrow> client_message \<Rightarrow> bytes \<Rightarrow> 'w relay \<Rightarrow> bool" where
  "moved b s m p s' \<longleftrightarrow> wf_client_message m \<and> incoming (embed s) = message_bytes m @ incoming (embed s') \<and>
     outgoing (tcp s') = outgoing (tcp s) @ p \<and> prefix p (relayed b [m]) \<and> downstream s' = downstream s"

lemma filter_pair_Inr:
  assumes "filter_once (ReadFull embed_end) (Write tcp_end) b s = (Inr d, s')"
  shows "(\<exists>m. moved b s m (relayed b [m]) s') \<and> granted (embed s') = granted (embed s) \<and>
    (sinkLeft (wire (tcp s)) = None \<longrightarrow> sinkLeft (wire (tcp s')) = None)"
proof -
  from assms obtain m s1 where rd: "read_client_message (ReadFull embed_end) s = (Inr m, s1)"
    and rest: "(if decide m b = DecisionForward
        then io_bind (io_wrap (Wrapf ''relay: forward client message'') (Write tcp_end (message_bytes m) s1))
               (\<lambda>_ s. (Inr (decide m b), s))
        else (Inr (decide m b), s1)) = (Inr d, s')"
    unfolding filter_once_def Let_def io_bind_Inr_iff io_wrap_Inr_iff by blast
  note m = read_message_pair [OF rd]
  show ?thesis
  proof (cases "decide m b = DecisionForward")
    case False
    with rest have "s' = s1" by simp
    with m False have "moved b s m (relayed b [m]) s'" by (simp add: moved_def forwarded_def)
    moreover have "granted (embed s') = granted (embed s)" "tcp s' = tcp s"
      using m \<open>s' = s1\<close> by simp_all
    ultimately show ?thesis by (intro conjI exI) simp_all
  next
    case True
    with rest have wr: "Write tcp_end (message_bytes m) s1 = (Inr (), s')"
      by (auto simp: io_iffs)
    from write_at_tcp [OF this] obtain c where c: "s' = with_tcp s1 c" "unsent c = unsent (wire (tcp s1))"
      "outgoing (tcp s') = outgoing (tcp s1) @ message_bytes m"
      "sinkLeft (wire (tcp s1)) = None \<longrightarrow> sinkLeft c = None" by auto
    have "downstream s' = downstream s1" using c(1,2) by (simp add: downstream_def)
    with m c True have "moved b s m (relayed b [m]) s'" by (simp add: moved_def forwarded_def)
    moreover have "granted (embed s') = granted (embed s)"
      "sinkLeft (wire (tcp s)) = None \<longrightarrow> sinkLeft (wire (tcp s')) = None"
      using m c by simp_all
    ultimately show ?thesis by (intro conjI exI) simp_all
  qed
qed

lemma filter_pair_Inl:
  assumes "filter_once (ReadFull embed_end) (Write tcp_end) b s = (Inl e, s')"
  shows "granted (embed s') = granted (embed s) \<and> downstream s' = downstream s \<and>
    (no_message (incoming (embed s)) \<and> outgoing (tcp s') = outgoing (tcp s) \<or>
     sinkLeft (wire (tcp s)) \<noteq> None \<and> (\<exists>m p. moved b s m p s'))"
proof (cases "read_client_message (ReadFull embed_end) s")
  case (Pair x s1)
  show ?thesis
  proof (cases x)
    case (Inl e1)
    with Pair have rd: "read_client_message (ReadFull embed_end) s = (Inl e1, s1)" by simp
    with assms have "s' = s1" by (simp add: filter_once_def)
    with read_no_message_pair [OF rd] show ?thesis by simp
  next
    case (Inr m)
    with Pair have rd: "read_client_message (ReadFull embed_end) s = (Inr m, s1)" by simp
    note m = read_message_pair [OF this]
    from assms rd have fwd: "decide m b = DecisionForward"
      and wr: "\<exists>e1. Write tcp_end (message_bytes m) s1 = (Inl e1, s')"
      by (auto simp: filter_once_def Let_def io_iffs split: if_splits)
    from wr obtain e1 where "Write tcp_end (message_bytes m) s1 = (Inl e1, s')" ..
    from write_at_tcp [OF this] obtain c p where c: "s' = with_tcp s1 c" "unsent c = unsent (wire (tcp s1))"
      "outgoing (tcp s') = outgoing (tcp s1) @ p" "prefix p (message_bytes m)"
      "sinkLeft (wire (tcp s1)) \<noteq> None" by auto
    have "downstream s' = downstream s1" using c(1,2) by (simp add: downstream_def)
    with m c fwd have "moved b s m p s'" by (simp add: moved_def forwarded_def)
    moreover have "granted (embed s') = granted (embed s)" "sinkLeft (wire (tcp s)) \<noteq> None"
      "downstream s' = downstream s" using m c \<open>downstream s' = downstream s1\<close> by simp_all
    ultimately show ?thesis by blast
  qed
qed

lemma browser_to_server_turn_Inr:
  assumes "browser_to_server_turn embed_end tcp_end b s = (Inr u, s')"
  shows "(\<exists>m. moved b s m (relayed b [m]) s') \<and> granted (embed s') = granted (embed s) @ [1] \<and>
    (sinkLeft (wire (tcp s)) = None \<longrightarrow> sinkLeft (wire (tcp s')) = None)"
proof -
  from assms obtain d s1 where f: "filter_once (ReadFull embed_end) (Write tcp_end) b s = (Inr d, s1)"
    and s': "s' = s1\<lparr>embed := (embed s1)\<lparr>granted := granted (embed s1) @ [1]\<rparr>\<rparr>"
    by (auto simp: turn_of_filter split: prod.splits sum.splits)
  have "moved b s m p s' \<longleftrightarrow> moved b s m p s1" for m p
    by (simp add: s' moved_def downstream_def)
  with filter_pair_Inr [OF f] s' show ?thesis by simp
qed

lemma browser_to_server_turn_Inl:
  assumes "browser_to_server_turn embed_end tcp_end b s = (Inl e, s')"
  shows "granted (embed s') = granted (embed s) \<and> downstream s' = downstream s \<and>
    (no_message (incoming (embed s)) \<and> outgoing (tcp s') = outgoing (tcp s) \<or>
     sinkLeft (wire (tcp s)) \<noteq> None \<and> (\<exists>m p. moved b s m p s'))"
proof -
  from assms obtain d where f: "filter_once (ReadFull embed_end) (Write tcp_end) b s = (Inl d, s')"
    by (auto simp: turn_of_filter split: prod.splits sum.splits)
  from filter_pair_Inl [OF f] show ?thesis .
qed

lemma relayed_append [simp]: "relayed b (ms @ ns) = relayed b ms @ relayed b ns"
  by (simp add: relayed_def)

lemma browser_to_server_loop_moves:
  "\<exists>err s' ms p q k. browser_to_server_loop embed_end tcp_end b s = Some (err, s') \<and> list_all wf_client_message ms \<and>
     incoming (embed s) = concat (map message_bytes ms) @ q \<and> outgoing (tcp s') = outgoing (tcp s) @ p \<and>
     prefix p (relayed b ms) \<and> downstream s' = downstream s \<and>
     granted (embed s') = granted (embed s) @ replicate k 1 \<and> k \<le> length ms \<and>
     (sinkLeft (wire (tcp s)) = None \<longrightarrow> k = length ms \<and> p = relayed b ms \<and> no_message q)"
proof (induction "length (incoming (embed s))" arbitrary: s rule: less_induct)
  case less
  obtain r s1 where turn: "browser_to_server_turn embed_end tcp_end b s = (r, s1)"
    by (cases "browser_to_server_turn embed_end tcp_end b s")
  show ?case
  proof (cases r)
    case (Inl e)
    with turn have end_turn: "browser_to_server_turn embed_end tcp_end b s = (Inl e, s1)" by simp
    then have run: "browser_to_server_loop embed_end tcp_end b s = Some (e, s1)"
      by (subst browser_to_server_loop.simps) simp
    note ends = browser_to_server_turn_Inl [OF end_turn]
    then consider (none) "no_message (incoming (embed s))" "outgoing (tcp s1) = outgoing (tcp s)"
      | (part) m p where "moved b s m p s1" "sinkLeft (wire (tcp s)) \<noteq> None" by blast
    then show ?thesis
    proof cases
      case none
      with run ends show ?thesis
        by (intro exI [of _ e] exI [of _ s1] exI [of _ "[]"] exI [of _ "[]"] exI [of _ "incoming (embed s)"] exI [of _ 0]) simp
    next
      case (part m p)
      with run ends show ?thesis
        by (intro exI [of _ e] exI [of _ s1] exI [of _ "[m]"] exI [of _ p] exI [of _ "incoming (embed s1)"] exI [of _ 0])
          (simp add: moved_def)
    qed
  next
    case (Inr u)
    with turn have go: "browser_to_server_turn embed_end tcp_end b s = (Inr u, s1)" by simp
    note TURN = browser_to_server_turn_Inr [OF this]
    obtain m where m: "moved b s m (relayed b [m]) s1"
      and g: "granted (embed s1) = granted (embed s) @ [1]"
      and h: "sinkLeft (wire (tcp s)) = None \<longrightarrow> sinkLeft (wire (tcp s1)) = None"
      using TURN by (elim exE conjE) (rule that)
    then have "length (incoming (embed s1)) < length (incoming (embed s))"
      by (simp add: moved_def message_bytes_def)
    note IH = less [OF this]
    obtain err s' ms p q k where
      ih: "browser_to_server_loop embed_end tcp_end b s1 = Some (err, s')" "list_all wf_client_message ms"
        "incoming (embed s1) = concat (map message_bytes ms) @ q" "outgoing (tcp s') = outgoing (tcp s1) @ p"
        "prefix p (relayed b ms)" "downstream s' = downstream s1"
        "granted (embed s') = granted (embed s1) @ replicate k 1" "k \<le> length ms"
        "sinkLeft (wire (tcp s1)) = None \<longrightarrow> k = length ms \<and> p = relayed b ms \<and> no_message q"
      using IH by (elim exE conjE) (rule that)
    have run: "browser_to_server_loop embed_end tcp_end b s = Some (err, s')"
      using go ih(1) by (subst browser_to_server_loop.simps) simp
    have "relayed b (m # ms) = relayed b [m] @ relayed b ms"
      using relayed_append [of b "[m]" ms] by (simp del: relayed_append)
    with run m g h ih show ?thesis
      by (intro exI [of _ err] exI [of _ s'] exI [of _ "m # ms"] exI [of _ "relayed b [m] @ p"] exI [of _ q] exI [of _ "Suc k"])
        (simp add: moved_def del: relayed_Cons)
  qed
qed

text \<open>\<open>ClientInit\<close>: a byte taken and passed on, or an end before any message.\<close>

lemma relay_client_init_moves:
  assumes "relay_client_init embed_end tcp_end s = (r, s')"
  shows "downstream s' = downstream s \<and> granted (embed s') = granted (embed s) \<and>
    (case r of
       Inr _ \<Rightarrow> \<exists>i. incoming (embed s) = i # incoming (embed s') \<and> outgoing (tcp s') = outgoing (tcp s) @ [i] \<and>
         (sinkLeft (wire (tcp s)) = None \<longrightarrow> sinkLeft (wire (tcp s')) = None)
     | Inl e \<Rightarrow> \<exists>p. outgoing (tcp s') = outgoing (tcp s) @ p \<and> prefix p (take 1 (incoming (embed s))) \<and>
         (incoming (embed s) = [] \<and> e = client_init_error (readEnd (wire (embed s))) \<or>
          incoming (embed s) \<noteq> [] \<and> sinkLeft (wire (tcp s)) \<noteq> None))"
proof -
  obtain x s1 where rd: "ReadFull embed_end 1 s = (x, s1)" by (cases "ReadFull embed_end 1 s")
  have sv: "stream_read_full 1 (browser_view s) = (x, browser_view s1)"
    using browser.read_view [of 1 s] rd by simp
  then have "browser_view s1 = (browser_view s)\<lparr>avail := drop 1 (incoming (embed s))\<rparr>"
    by (cases "incoming (embed s)") (auto simp: stream_read_full_def)
  note q = browser_view_rest [OF this]
  then have s1: "tcp s1 = tcp s" "downstream s1 = downstream s" "granted (embed s1) = granted (embed s)"
    "incoming (embed s1) = drop 1 (incoming (embed s))" using downstream_eq [of s1 s] by blast+
  show ?thesis
  proof (cases "incoming (embed s)")
    case Nil
    with sv have "x = Inl (readEnd (wire (embed s)))" by (auto simp: stream_read_full_def short_read_def)
    with rd assms s1 Nil show ?thesis by (auto simp: relay_client_init_def)
  next
    case (Cons i rest)
    with sv have x: "x = Inr [i]" by (auto simp: stream_read_full_def)
    obtain y s2 where wr: "Write tcp_end [i] s1 = (y, s2)" by (cases "Write tcp_end [i] s1")
    from write_at_tcp [OF this] obtain c p where c: "s2 = with_tcp s1 c" "unsent c = unsent (wire (tcp s1))"
      "outgoing (tcp s2) = outgoing (tcp s1) @ p" "prefix p [i]" "y = Inr () \<longrightarrow> p = [i]"
      "sinkLeft (wire (tcp s1)) = None \<longrightarrow> sinkLeft c = None \<and> y = Inr ()"
      by (elim exE conjE) (rule that)
    have s2: "downstream s2 = downstream s" "embed s2 = embed s1" "wire (tcp s2) = c"
      using c(1,2) s1 by (simp_all add: downstream_def)
    have "s' = s2" and r: "r = (case y of Inl e \<Rightarrow> Inl (Wrapf ''relay: relay ClientInit to tcp-relay: %w'' e) | Inr u \<Rightarrow> Inr u)"
      using assms rd wr x by (cases y, auto simp: relay_client_init_def)+
    then show ?thesis
      using s1 s2 c(3-6) Cons by (cases y) auto
  qed
qed

text \<open>
  C8: the browser's bytes reach the server filtered. Whatever the browser sends and wherever the
  server's channel fails, the browser-to-server direction ends with an error. The server gets, of
  the first byte (\<open>ClientInit\<close>, sent on whatever it is) and the well-formed messages after it that
  the policy lets through, a prefix: all of them up to the first place without a message if its
  channel takes everything. The browser is granted one credit per message, not per frame. What the
  other direction uses is not touched.
\<close>

theorem browser_stream_relayed:
  "\<exists>err s' ms p k. pump_browser_to_server embed_end tcp_end readOnly s = Some (err, s') \<and>
     list_all wf_client_message ms \<and> outgoing (tcp s') = outgoing (tcp s) @ p \<and> downstream s' = downstream s \<and>
     granted (embed s') = granted (embed s) @ replicate k 1 \<and> k \<le> length ms \<and>
     (case incoming (embed s) of
        [] \<Rightarrow> p = [] \<and> err = client_init_error (readEnd (wire (embed s)))
      | clientInit # body \<Rightarrow>
          prefix (concat (map message_bytes ms)) body \<and> prefix p (clientInit # relayed readOnly ms) \<and>
          (sinkLeft (wire (tcp s)) = None \<longrightarrow> p = clientInit # relayed readOnly ms \<and> k = length ms \<and>
             no_message (drop (length (concat (map message_bytes ms))) body)))"
proof -
  obtain r s1 where init: "relay_client_init embed_end tcp_end s = (r, s1)"
    by (cases "relay_client_init embed_end tcp_end s")
  note moves = relay_client_init_moves [OF init]
  show ?thesis
  proof (cases r)
    case (Inl e)
    with moves obtain p where "outgoing (tcp s1) = outgoing (tcp s) @ p" "prefix p (take 1 (incoming (embed s)))"
      and e: "incoming (embed s) = [] \<and> e = client_init_error (readEnd (wire (embed s))) \<or>
          incoming (embed s) \<noteq> [] \<and> sinkLeft (wire (tcp s)) \<noteq> None" by auto
    moreover have "pump_browser_to_server embed_end tcp_end readOnly s = Some (e, s1)"
      using init Inl by (simp add: pump_browser_to_server_def)
    ultimately show ?thesis
      using moves
      by (intro exI [of _ e] exI [of _ s1] exI [of _ "[]"] exI [of _ p] exI [of _ 0]) (auto split: list.splits)
  next
    case (Inr u)
    with moves obtain i where i: "incoming (embed s) = i # incoming (embed s1)" "outgoing (tcp s1) = outgoing (tcp s) @ [i]"
      "sinkLeft (wire (tcp s)) = None \<longrightarrow> sinkLeft (wire (tcp s1)) = None" by auto
    obtain err s' ms p q k where
      loop: "browser_to_server_loop embed_end tcp_end readOnly s1 = Some (err, s')" "list_all wf_client_message ms"
        "incoming (embed s1) = concat (map message_bytes ms) @ q" "outgoing (tcp s') = outgoing (tcp s1) @ p"
        "prefix p (relayed readOnly ms)" "downstream s' = downstream s1"
        "granted (embed s') = granted (embed s1) @ replicate k 1" "k \<le> length ms"
        "sinkLeft (wire (tcp s1)) = None \<longrightarrow> k = length ms \<and> p = relayed readOnly ms \<and> no_message q"
      using browser_to_server_loop_moves [of readOnly s1] by (elim exE conjE) (rule that)
    have "pump_browser_to_server embed_end tcp_end readOnly s = Some (err, s')"
      using init Inr loop(1) by (simp add: pump_browser_to_server_def)
    then show ?thesis
      using loop i moves
      by (intro exI [of _ err] exI [of _ s'] exI [of _ ms] exI [of _ "i # p"] exI [of _ k]) simp
  qed
qed

theorem browser_stream_relayed_witness:
  "\<exists>err s' ms. pump_browser_to_server embed_end tcp_end True
         (demo_relay [] [[1, 4, 1], [0, 0, 0, 0, 0, 97, 3], [0, 0, 0, 0, 0, 0, 1, 0, 1]]) = Some (err, s') \<and>
     list_all wf_client_message ms \<and> outgoing (tcp s') = 1 # relayed True ms \<and>
     granted (embed s') = replicate (length ms) 1 \<and>
     prefix (concat (map message_bytes ms)) [4, 1, 0, 0, 0, 0, 0, 97, 3, 0, 0, 0, 0, 0, 0, 1, 0, 1]"
  using browser_stream_relayed
    [of True "demo_relay [] [[1, 4, 1], [0, 0, 0, 0, 0, 97, 3], [0, 0, 0, 0, 0, 0, 1, 0, 1]]"]
  by simp blast

end
