(* ===== verification/Relay_Run.thy ===== *)
theory Relay_Run
  imports Relay_Pump
begin

text \<open>
  \<open>runPump\<close> of \<open>internal/relay/pump.go\<close>: the two directions run concurrently on the two channels;
  the first to end decides the error, then both channels are closed.
\<close>

section \<open>The goroutines\<close>

datatype client_side = BeforeInit | Relaying | ClientEnded

text \<open>
  \<open>errCh\<close> holds the results sent and not yet received. \<open>decided\<close> is what \<open>runPump\<close> returns, set
  with the close of both channels.
\<close>

record 'w pump =
  ends :: "'w relay"
  serverDone :: bool
  clientSide :: client_side
  errCh :: "go_error option list"
  decided :: "go_error option option"

definition pump_start :: "'w relay \<Rightarrow> 'w pump" where
  "pump_start s = \<lparr>ends = s, serverDone = False, clientSide = BeforeInit, errCh = [], decided = None\<rparr>"

text \<open>
  \<open>Close\<close> of a channel, as its users see it: payloads that were ready may still be read and chunks
  in flight still be sent, up to some point that the scheduler chooses (\<open>k\<close> payloads, \<open>n\<close> chunks);
  after that, \<open>Read\<close> and \<open>Write\<close> fail with \<open>ErrClosed\<close>.
\<close>

definition shut_channel :: "nat \<Rightarrow> nat \<Rightarrow> channel \<Rightarrow> channel" where
  "shut_channel k n c = c\<lparr>readCh := take k (readCh c), readEnd := ErrClosed,
     sinkLeft := Some (case sinkLeft c of None \<Rightarrow> n | Some j \<Rightarrow> min j n),
     sinkErr := (case sinkLeft c of Some j \<Rightarrow> if j \<le> n then sinkErr c else ErrClosed | None \<Rightarrow> ErrClosed)\<rparr>"

definition close_ends :: "nat \<Rightarrow> nat \<Rightarrow> nat \<Rightarrow> nat \<Rightarrow> 'w relay \<Rightarrow> 'w relay" where
  "close_ends k n k' n' s =
     (let s = with_tcp s (shut_channel k n (wire (tcp s))) in
      with_embed s (shut_channel k' n' (wire (embed s))))"

text \<open>One turn of a direction at a time, and the end of \<open>runPump\<close> as soon as a result is there.\<close>

inductive pump_step ::
    "coupling_policy \<Rightarrow> ('w \<Rightarrow> bool \<times> 'w) option \<Rightarrow> bool \<Rightarrow> 'w pump \<Rightarrow> 'w pump \<Rightarrow> bool"
  for policy gate readOnly where
  server_turn: "\<not> serverDone p \<Longrightarrow>
     server_to_browser_turn tcp_end embed_end policy (map_option outside_gate gate) (ends p) = (Inr u, s) \<Longrightarrow>
     pump_step policy gate readOnly p (p\<lparr>ends := s\<rparr>)"
| server_end: "\<not> serverDone p \<Longrightarrow>
     server_to_browser_turn tcp_end embed_end policy (map_option outside_gate gate) (ends p) = (Inl err, s) \<Longrightarrow>
     pump_step policy gate readOnly p (p\<lparr>ends := s, serverDone := True, errCh := errCh p @ [err]\<rparr>)"
| client_init: "clientSide p = BeforeInit \<Longrightarrow>
     relay_client_init embed_end tcp_end (ends p) = (Inr u, s) \<Longrightarrow>
     pump_step policy gate readOnly p (p\<lparr>ends := s, clientSide := Relaying\<rparr>)"
| client_init_end: "clientSide p = BeforeInit \<Longrightarrow>
     relay_client_init embed_end tcp_end (ends p) = (Inl e, s) \<Longrightarrow>
     pump_step policy gate readOnly p (p\<lparr>ends := s, clientSide := ClientEnded, errCh := errCh p @ [Some e]\<rparr>)"
| client_turn: "clientSide p = Relaying \<Longrightarrow>
     browser_to_server_turn embed_end tcp_end readOnly (ends p) = (Inr u, s) \<Longrightarrow>
     pump_step policy gate readOnly p (p\<lparr>ends := s\<rparr>)"
| client_end: "clientSide p = Relaying \<Longrightarrow>
     browser_to_server_turn embed_end tcp_end readOnly (ends p) = (Inl e, s) \<Longrightarrow>
     pump_step policy gate readOnly p (p\<lparr>ends := s, clientSide := ClientEnded, errCh := errCh p @ [Some e]\<rparr>)"
| run_pump_end: "decided p = None \<Longrightarrow> errCh p = err # rest \<Longrightarrow>
     pump_step policy gate readOnly p
       (p\<lparr>errCh := rest, decided := Some err, ends := close_ends k n k' n' (ends p)\<rparr>)"

inductive pump_reachable ::
    "coupling_policy \<Rightarrow> ('w \<Rightarrow> bool \<times> 'w) option \<Rightarrow> bool \<Rightarrow> 'w relay \<Rightarrow> 'w pump \<Rightarrow> bool"
  for policy gate readOnly s where
  start: "pump_reachable policy gate readOnly s (pump_start s)"
| step: "pump_reachable policy gate readOnly s p \<Longrightarrow> pump_step policy gate readOnly p p' \<Longrightarrow>
     pump_reachable policy gate readOnly s p'"

section \<open>What a turn leaves to the other direction\<close>

lemma outgoing_drained: "drained (wire l') = drained (wire l) \<Longrightarrow> outgoing l' = outgoing l"
  using drained_eq [of "wire l'" "wire l"] by (simp add: outgoing_def)

lemma incoming_unsent: "unsent (wire l') = unsent (wire l) \<Longrightarrow> incoming l' = incoming l"
  using unsent_eq [of "wire l'" "wire l"] by (simp add: incoming_def)

lemma upstream_same:
  "upstream s' = upstream s \<Longrightarrow> outgoing (tcp s') = outgoing (tcp s) \<and> incoming (embed s') = incoming (embed s)"
  by (auto simp: upstream_def dest: outgoing_drained incoming_unsent)

lemma downstream_same:
  "downstream s' = downstream s \<Longrightarrow> incoming (tcp s') = incoming (tcp s) \<and> outgoing (embed s') = outgoing (embed s)"
  by (auto simp: downstream_def dest: outgoing_drained incoming_unsent)

lemma close_ends_same:
  "outgoing (tcp (close_ends k n k' n' s)) = outgoing (tcp s)"
  "outgoing (embed (close_ends k n k' n' s)) = outgoing (embed s)"
  "prefix (incoming (tcp (close_ends k n k' n' s))) (incoming (tcp s))"
  "prefix (incoming (embed (close_ends k n k' n' s))) (incoming (embed s))"
proof -
  have "prefix (concat (take j ps)) (concat ps)" for j and ps :: "bytes list"
    by (metis append_take_drop_id concat_append prefix_def)
  then show
    "outgoing (tcp (close_ends k n k' n' s)) = outgoing (tcp s)"
    "outgoing (embed (close_ends k n k' n' s)) = outgoing (embed s)"
    "prefix (incoming (tcp (close_ends k n k' n' s))) (incoming (tcp s))"
    "prefix (incoming (embed (close_ends k n k' n' s))) (incoming (embed s))"
    by (simp_all add: close_ends_def Let_def shut_channel_def outgoing_def incoming_def)
qed

section \<open>The invariant of the relay\<close>

definition server_part :: "'w relay \<Rightarrow> 'w pump \<Rightarrow> bool" where
  "server_part s0 p \<longleftrightarrow> (\<exists>b. outgoing (embed (ends p)) = outgoing (embed s0) @ b \<and>
     prefix b (incoming (tcp s0)) \<and>
     (\<not> serverDone p \<longrightarrow> prefix (b @ incoming (tcp (ends p))) (incoming (tcp s0))))"

fun client_part :: "bool \<Rightarrow> 'w relay \<Rightarrow> client_side \<Rightarrow> bytes \<Rightarrow> bytes \<Rightarrow> bool" where
  "client_part b s0 BeforeInit c rest \<longleftrightarrow> c = [] \<and> prefix rest (incoming (embed s0))"
| "client_part b s0 Relaying c rest \<longleftrightarrow> (\<exists>i ms. list_all wf_client_message ms \<and> c = i # relayed b ms \<and>
     prefix (i # concat (map message_bytes ms) @ rest) (incoming (embed s0)))"
| "client_part b s0 ClientEnded c rest \<longleftrightarrow> c = [] \<or> (\<exists>i ms. list_all wf_client_message ms \<and>
     prefix c (i # relayed b ms) \<and> prefix (i # concat (map message_bytes ms)) (incoming (embed s0)))"

lemma client_part_ended: "client_part b s0 d c rest \<Longrightarrow> client_part b s0 ClientEnded c rest'"
proof (cases d)
  case Relaying
  assume "client_part b s0 d c rest"
  with Relaying obtain i ms where "list_all wf_client_message ms" "c = i # relayed b ms"
    "prefix (i # concat (map message_bytes ms) @ rest) (incoming (embed s0))" by auto
  moreover have "prefix (i # concat (map message_bytes ms)) (i # concat (map message_bytes ms) @ rest)" by simp
  ultimately have "prefix (i # concat (map message_bytes ms)) (incoming (embed s0))"
    using prefix_order.trans by blast
  with \<open>list_all wf_client_message ms\<close> \<open>c = i # relayed b ms\<close> show ?thesis by auto
qed auto

lemma client_part_shrinks: "client_part b s0 d c rest \<Longrightarrow> prefix rest' rest \<Longrightarrow> client_part b s0 d c rest'"
proof (cases d)
  case BeforeInit
  assume "client_part b s0 d c rest" "prefix rest' rest"
  with BeforeInit show ?thesis by (auto intro: prefix_order.trans)
next
  case Relaying
  assume "client_part b s0 d c rest" and r: "prefix rest' rest"
  with Relaying obtain i ms where "list_all wf_client_message ms" "c = i # relayed b ms"
    and p: "prefix (i # concat (map message_bytes ms) @ rest) (incoming (embed s0))" by auto
  moreover have "prefix (i # concat (map message_bytes ms) @ rest') (i # concat (map message_bytes ms) @ rest)"
    using r by simp
  then have "prefix (i # concat (map message_bytes ms) @ rest') (incoming (embed s0))"
    using p prefix_order.trans by blast
  ultimately show ?thesis using Relaying by auto
qed auto

definition ended_directions :: "'w pump \<Rightarrow> nat" where
  "ended_directions p = (if serverDone p then 1 else 0) + (if clientSide p = ClientEnded then 1 else 0)"

definition pump_inv :: "('w \<Rightarrow> bool \<times> 'w) option \<Rightarrow> bool \<Rightarrow> 'w relay \<Rightarrow> 'w pump \<Rightarrow> bool" where
  "pump_inv gate b s0 p \<longleftrightarrow> server_part s0 p \<and>
     (\<exists>c. outgoing (tcp (ends p)) = outgoing (tcp s0) @ c \<and>
        client_part b s0 (clientSide p) c (incoming (embed (ends p)))) \<and>
     length (errCh p) + (if decided p = None then 0 else 1) = ended_directions p \<and>
     (gate = None \<longrightarrow> None \<notin> set (errCh p) \<and> decided p \<noteq> Some None) \<and>
     (decided p \<noteq> None \<longrightarrow> readEnd (wire (tcp (ends p))) = ErrClosed \<and> readEnd (wire (embed (ends p))) = ErrClosed)"

lemma server_end_reported:
  "server_to_browser_turn tcpCh embedCh policy None s = (Inl err, s') \<Longrightarrow> err \<noteq> None"
  by (auto simp: server_to_browser_turn_def wait_clear_def split: prod.splits sum.splits option.splits if_splits)

lemma readEnd_same:
  "upstream s' = upstream s \<or> downstream s' = downstream s \<Longrightarrow>
     readEnd (wire (tcp s')) = readEnd (wire (tcp s)) \<and> readEnd (wire (embed s')) = readEnd (wire (embed s))"
  by (auto simp: upstream_def downstream_def dest!: drained_eq unsent_eq)

lemma pump_inv_start: "pump_inv gate b s (pump_start s)"
  by (simp add: pump_inv_def pump_start_def server_part_def ended_directions_def)

lemma pump_inv_server:
  assumes "pump_inv gate b s0 p" and "\<not> serverDone p"
    and turn: "server_to_browser_turn tcp_end embed_end policy (map_option outside_gate gate) (ends p) = (r, s)"
  shows "pump_inv gate b s0
    (case r of Inr _ \<Rightarrow> p\<lparr>ends := s\<rparr> | Inl err \<Rightarrow> p\<lparr>ends := s, serverDone := True, errCh := errCh p @ [err]\<rparr>)"
proof -
  from server_to_browser_turn_moves [OF turn] obtain x q where up: "upstream s = upstream (ends p)"
    and x: "incoming (tcp (ends p)) = x @ incoming (tcp s)" "outgoing (embed s) = outgoing (embed (ends p)) @ q"
      "prefix q x" "r = Inr () \<Longrightarrow> q = x" by (cases r) auto
  note same = upstream_same [OF up] and re = readEnd_same [OF disjI1, OF up]
  from assms(1,2) obtain d where d: "outgoing (embed (ends p)) = outgoing (embed s0) @ d"
    "prefix (d @ incoming (tcp (ends p))) (incoming (tcp s0))"
    by (auto simp: pump_inv_def server_part_def)
  have "prefix (d @ q) (d @ incoming (tcp (ends p)))"
    using x(1,3) by (auto simp: prefix_def)
  then have pre: "prefix (d @ q) (incoming (tcp s0))" using d(2) prefix_order.trans by blast
  show ?thesis
  proof (cases r)
    case (Inl err)
    have "gate = None \<Longrightarrow> err \<noteq> None"
      using turn Inl server_end_reported [of tcp_end embed_end policy "ends p" err s] by auto
    with assms(1,2) Inl x(2) d(1) pre same re show ?thesis
      by (auto simp: pump_inv_def server_part_def ended_directions_def)
  next
    case (Inr u)
    with x(4) have "q = x" by simp
    have "server_part s0 (p\<lparr>ends := s\<rparr>)"
      unfolding server_part_def
      by (rule exI [of _ "d @ q"]) (use x(1,2) d pre \<open>q = x\<close> in simp)
    with assms(1) Inr same re show ?thesis
      by (simp add: pump_inv_def ended_directions_def)
  qed
qed

lemma pump_inv_client:
  assumes "pump_inv gate b s0 p" and "clientSide p \<noteq> ClientEnded" and down: "downstream s = downstream (ends p)"
    and c: "outgoing (tcp (ends p)) = outgoing (tcp s0) @ c"
    and "outgoing (tcp s) = outgoing (tcp (ends p)) @ d"
    and "client_part b s0 side (c @ d) (incoming (embed s))"
  shows "side \<noteq> ClientEnded \<Longrightarrow> pump_inv gate b s0 (p\<lparr>ends := s, clientSide := side\<rparr>)"
    and "side = ClientEnded \<Longrightarrow> pump_inv gate b s0 (p\<lparr>ends := s, clientSide := ClientEnded, errCh := errCh p @ [Some e]\<rparr>)"
proof -
  note same = downstream_same [OF down] and re = readEnd_same [OF disjI2, OF down]
  have "server_part s0 (p\<lparr>ends := s, clientSide := side\<rparr>)"
    "server_part s0 (p\<lparr>ends := s, clientSide := ClientEnded, errCh := errCh p @ [Some e]\<rparr>)"
    using assms(1) same by (simp_all add: pump_inv_def server_part_def)
  then show "side \<noteq> ClientEnded \<Longrightarrow> pump_inv gate b s0 (p\<lparr>ends := s, clientSide := side\<rparr>)"
    and "side = ClientEnded \<Longrightarrow> pump_inv gate b s0 (p\<lparr>ends := s, clientSide := ClientEnded, errCh := errCh p @ [Some e]\<rparr>)"
    using assms re by (auto simp: pump_inv_def ended_directions_def)
qed

lemma client_part_init:
  "client_part b s0 BeforeInit c (i # rest) \<Longrightarrow> client_part b s0 Relaying (c @ [i]) rest"
  by (auto intro: exI [of _ "[]"])

lemma client_part_moved:
  assumes "client_part b s0 Relaying c (incoming (embed s))" and m: "moved b s m p s'"
  shows "p = relayed b [m] \<Longrightarrow> client_part b s0 Relaying (c @ p) (incoming (embed s'))"
    and "client_part b s0 ClientEnded (c @ p) (incoming (embed s'))"
proof -
  from assms obtain i ms where ms: "list_all wf_client_message ms" "c = i # relayed b ms"
    "prefix (i # concat (map message_bytes ms) @ incoming (embed s)) (incoming (embed s0))" by auto
  with m have ext: "list_all wf_client_message (ms @ [m])"
    "prefix (i # concat (map message_bytes (ms @ [m])) @ incoming (embed s')) (incoming (embed s0))"
    by (simp_all add: moved_def)
  from m have p: "prefix (c @ p) (i # relayed b (ms @ [m]))"
    by (simp add: ms(2) moved_def del: relayed_Cons)
  show "client_part b s0 Relaying (c @ p) (incoming (embed s'))" if "p = relayed b [m]"
    using ext ms(2) that by (auto simp del: map_append concat_append list_all_append intro!: exI [of _ "ms @ [m]"])
  have "prefix (i # concat (map message_bytes (ms @ [m]))) (incoming (embed s0))"
    using ext(2) by (metis append_Cons append_prefixD)
  with ext(1) p show "client_part b s0 ClientEnded (c @ p) (incoming (embed s'))"
    unfolding client_part.simps by blast
qed

lemma pump_inv_end:
  assumes "pump_inv gate b s0 p" and "decided p = None" and "errCh p = err # rest"
  shows "pump_inv gate b s0 (p\<lparr>errCh := rest, decided := Some err, ends := close_ends k n k' n' (ends p)\<rparr>)"
proof -
  let ?s = "close_ends k n k' n' (ends p)"
  let ?p = "p\<lparr>errCh := rest, decided := Some err, ends := ?s\<rparr>"
  note cs = close_ends_same [of k n k' n' "ends p"]
  have re: "readEnd (wire (tcp ?s)) = ErrClosed" "readEnd (wire (embed ?s)) = ErrClosed"
    by (simp_all add: close_ends_def Let_def shut_channel_def)
  from assms(1) obtain d where d: "outgoing (embed (ends p)) = outgoing (embed s0) @ d"
    "prefix d (incoming (tcp s0))" "\<not> serverDone p \<longrightarrow> prefix (d @ incoming (tcp (ends p))) (incoming (tcp s0))"
    by (auto simp: pump_inv_def server_part_def)
  have "prefix (d @ incoming (tcp ?s)) (d @ incoming (tcp (ends p)))" using cs(3) by simp
  then have "\<not> serverDone p \<longrightarrow> prefix (d @ incoming (tcp ?s)) (incoming (tcp s0))"
    using d(3) prefix_order.trans by blast
  with d cs have server: "server_part s0 ?p" by (auto simp: server_part_def)
  from assms(1) obtain c where "outgoing (tcp (ends p)) = outgoing (tcp s0) @ c"
    "client_part b s0 (clientSide p) c (incoming (embed (ends p)))" by (auto simp: pump_inv_def)
  then have client: "outgoing (tcp ?s) = outgoing (tcp s0) @ c"
    "client_part b s0 (clientSide p) c (incoming (embed ?s))"
    using cs client_part_shrinks by auto
  have "gate = None \<longrightarrow> None \<notin> set (err # rest)"
    using assms by (simp add: pump_inv_def)
  then have errs: "gate = None \<longrightarrow> None \<notin> set (errCh ?p) \<and> decided ?p \<noteq> Some None"
    by (cases err) simp_all
  have count: "length (errCh ?p) + (if decided ?p = None then 0 else 1) = ended_directions ?p"
    using assms by (simp add: pump_inv_def ended_directions_def)
  show ?thesis
    unfolding pump_inv_def using server client errs count re
    by (intro conjI impI exI [of _ c]) simp_all
qed

lemma pump_inv_step:
  assumes "pump_step policy gate b p p'" and "pump_inv gate b s0 p"
  shows "pump_inv gate b s0 p'"
  using assms
proof (induction rule: pump_step.induct)
  case (server_turn p u s)
  then show ?case using pump_inv_server [of gate b s0 p policy "Inr u" s] by simp
next
  case (server_end p err s)
  then show ?case using pump_inv_server [of gate b s0 p policy "Inl err" s] by simp
next
  case (client_init p u s)
  from relay_client_init_moves [OF client_init(2)] obtain i where i: "downstream s = downstream (ends p)"
    "incoming (embed (ends p)) = i # incoming (embed s)" "outgoing (tcp s) = outgoing (tcp (ends p)) @ [i]" by auto
  from client_init(1,3) i(2) obtain c where "outgoing (tcp (ends p)) = outgoing (tcp s0) @ c"
    "client_part b s0 BeforeInit c (i # incoming (embed s))" by (auto simp: pump_inv_def)
  with i client_init show ?case
    using pump_inv_client(1) [of gate b s0 p s c "[i]" Relaying] client_part_init [of b s0 c i "incoming (embed s)"]
    by simp
next
  case (client_init_end p e s)
  from relay_client_init_moves [OF client_init_end(2)] obtain q where q: "downstream s = downstream (ends p)"
    "outgoing (tcp s) = outgoing (tcp (ends p)) @ q" "prefix q (take 1 (incoming (embed (ends p))))" by auto
  from client_init_end(1,3) have c: "outgoing (tcp (ends p)) = outgoing (tcp s0) @ []"
    and pre: "prefix (incoming (embed (ends p))) (incoming (embed s0))" by (auto simp: pump_inv_def)
  have "client_part b s0 ClientEnded ([] @ q) (incoming (embed s))"
  proof (cases "incoming (embed (ends p))")
    case (Cons i rest)
    then have "prefix (i # concat (map message_bytes [])) (incoming (embed s0))"
      using pre by (auto simp: prefix_def)
    moreover have "prefix q (i # relayed b [])" using q(3) Cons by simp
    ultimately show ?thesis by (auto intro!: exI [of _ i] exI [of _ "[]"])
  qed (use q(3) in simp)
  with c q client_init_end show ?case
    using pump_inv_client(2) [of gate b s0 p s "[]" q ClientEnded e] by simp
next
  case (client_turn p u s)
  note t = browser_to_server_turn_Inr [OF client_turn(2)]
  obtain m where m: "moved b (ends p) m (relayed b [m]) s" using t by (elim exE conjE) (rule that)
  from client_turn(1,3) obtain c where c: "outgoing (tcp (ends p)) = outgoing (tcp s0) @ c"
    "client_part b s0 Relaying c (incoming (embed (ends p)))" by (auto simp: pump_inv_def)
  from m have "downstream s = downstream (ends p)" "outgoing (tcp s) = outgoing (tcp (ends p)) @ relayed b [m]"
    by (simp_all add: moved_def)
  then have "pump_inv gate b s0 (p\<lparr>ends := s, clientSide := Relaying\<rparr>)"
    using pump_inv_client(1) [of gate b s0 p s c "relayed b [m]" Relaying] client_part_moved(1) [OF c(2) m]
      c(1) client_turn by (simp del: relayed_Cons client_part.simps)
  moreover have "p\<lparr>ends := s, clientSide := Relaying\<rparr> = p\<lparr>ends := s\<rparr>"
    using client_turn(1) by (cases p) simp
  ultimately show ?case by metis
next
  case (client_end p e s)
  note t = browser_to_server_turn_Inl [OF client_end(2)]
  from client_end(1,3) obtain c where c: "outgoing (tcp (ends p)) = outgoing (tcp s0) @ c"
    "client_part b s0 Relaying c (incoming (embed (ends p)))" by (auto simp: pump_inv_def)
  have down: "downstream s = downstream (ends p)" using t by (elim conjE)
  have "\<exists>d. outgoing (tcp s) = outgoing (tcp (ends p)) @ d \<and> client_part b s0 ClientEnded (c @ d) (incoming (embed s))"
  proof (cases "outgoing (tcp s) = outgoing (tcp (ends p))")
    case True
    then show ?thesis using client_part_ended [OF c(2)] by (intro exI [of _ "[]"]) simp
  next
    case False
    with t obtain m q where m: "moved b (ends p) m q s" by (elim conjE disjE exE) simp_all
    then have "outgoing (tcp s) = outgoing (tcp (ends p)) @ q" by (simp add: moved_def)
    with client_part_moved(2) [OF c(2) m] show ?thesis by blast
  qed
  then obtain d where "outgoing (tcp s) = outgoing (tcp (ends p)) @ d"
    "client_part b s0 ClientEnded (c @ d) (incoming (embed s))" by blast
  with c(1) client_end down show ?case
    using pump_inv_client(2) [of gate b s0 p s c d ClientEnded e] by simp
next
  case (run_pump_end p err rest k n k' n')
  then show ?case using pump_inv_end [of gate b s0 p err rest k n k' n'] by simp
qed

lemma pump_reachable_inv: "pump_reachable policy gate b s p \<Longrightarrow> pump_inv gate b s p"
  by (induction rule: pump_reachable.induct) (auto intro: pump_inv_start pump_inv_step)

section \<open>Properties of the relay\<close>

lemma reachable_streams:
  assumes "pump_reachable policy gate readOnly s p"
  shows "(\<exists>b. outgoing (embed (ends p)) = outgoing (embed s) @ b \<and> prefix b (incoming (tcp s))) \<and>
    (\<exists>c. outgoing (tcp (ends p)) = outgoing (tcp s) @ c \<and>
       (c = [] \<or> (\<exists>i ms. list_all wf_client_message ms \<and>
          prefix (i # concat (map message_bytes ms)) (incoming (embed s)) \<and> prefix c (i # relayed readOnly ms)))) \<and>
    (decided p \<noteq> None \<longrightarrow> readEnd (wire (tcp (ends p))) = ErrClosed \<and> readEnd (wire (embed (ends p))) = ErrClosed) \<and>
    (gate = None \<longrightarrow> decided p \<noteq> Some None)"
proof -
  from pump_reachable_inv [OF assms] have inv: "pump_inv gate readOnly s p" .
  then obtain c where c: "outgoing (tcp (ends p)) = outgoing (tcp s) @ c"
    "client_part readOnly s (clientSide p) c (incoming (embed (ends p)))" by (auto simp: pump_inv_def)
  from client_part_ended [OF c(2)] have "client_part readOnly s ClientEnded c []" .
  with c(1) inv show ?thesis
    by (auto simp: pump_inv_def server_part_def)
qed

text \<open>
  C3: the relay, however its two directions and the closing of the channels interleave. At any
  moment the browser has got a prefix of what the server sent, unmodified; the server has got
  nothing, or a prefix of the browser's first byte and the messages after it that the policy
  lets through; once \<open>runPump\<close> has returned both channels are closed, and without a gate it never
  returns \<open>nil\<close>.
\<close>

theorem relay_interleaved:
  assumes "pump_reachable policy gate readOnly s p"
  shows "(\<exists>b. outgoing (embed (ends p)) = outgoing (embed s) @ b \<and> prefix b (incoming (tcp s))) \<and>
    (\<exists>c. outgoing (tcp (ends p)) = outgoing (tcp s) @ c \<and>
       (c = [] \<or> (\<exists>i ms. list_all wf_client_message ms \<and>
          prefix (i # concat (map message_bytes ms)) (incoming (embed s)) \<and> prefix c (i # relayed readOnly ms)))) \<and>
    (decided p \<noteq> None \<longrightarrow> readEnd (wire (tcp (ends p))) = ErrClosed \<and> readEnd (wire (embed (ends p))) = ErrClosed) \<and>
    (gate = None \<longrightarrow> decided p \<noteq> Some None)"
  using assms by (rule reachable_streams)

text \<open>A measure every step decreases, and the steps a state that is not finished can take.\<close>

definition fuel :: "'w pump \<Rightarrow> nat" where
  "fuel p = (if serverDone p then 0 else Suc (length (incoming (tcp (ends p))))) +
     (case clientSide p of
        BeforeInit \<Rightarrow> Suc (length (incoming (embed (ends p))))
      | Relaying \<Rightarrow> Suc (length (incoming (embed (ends p))))
      | ClientEnded \<Rightarrow> 0) +
     (if decided p = None then 1 else 0)"

lemma pump_step_decreases:
  assumes "pump_step policy gate b p p'"
  shows "fuel p' < fuel p"
  using assms
proof (induction rule: pump_step.induct)
  case (server_turn p u s)
  from server_to_browser_turn_moves [OF server_turn(2)] obtain x where "upstream s = upstream (ends p)"
    "incoming (tcp (ends p)) = x @ incoming (tcp s)" "x \<noteq> []" by auto
  with upstream_same [of s "ends p"] server_turn show ?case by (cases "clientSide p") (simp_all add: fuel_def)
next
  case (server_end p err s)
  from server_to_browser_turn_moves [OF server_end(2)] have "upstream s = upstream (ends p)" by blast
  with upstream_same [of s "ends p"] server_end show ?case by (cases "clientSide p") (simp_all add: fuel_def)
next
  case (client_init p u s)
  from relay_client_init_moves [OF client_init(2)] obtain i where "downstream s = downstream (ends p)"
    "incoming (embed (ends p)) = i # incoming (embed s)" by auto
  with downstream_same [of s "ends p"] client_init show ?case by (simp add: fuel_def)
next
  case (client_init_end p e s)
  from relay_client_init_moves [OF client_init_end(2)] have "downstream s = downstream (ends p)" by blast
  with downstream_same [of s "ends p"] client_init_end show ?case by (simp add: fuel_def)
next
  case (client_turn p u s)
  note t = browser_to_server_turn_Inr [OF client_turn(2)]
  obtain m where "moved b (ends p) m (relayed b [m]) s" using t by (elim exE conjE) (rule that)
  then have "downstream s = downstream (ends p)" "length (incoming (embed s)) < length (incoming (embed (ends p)))"
    by (simp_all add: moved_def message_bytes_def)
  with downstream_same [of s "ends p"] client_turn show ?case by (simp add: fuel_def)
next
  case (client_end p e s)
  note t = browser_to_server_turn_Inl [OF client_end(2)]
  have "downstream s = downstream (ends p)" using t by (elim conjE)
  with downstream_same [of s "ends p"] client_end show ?case by (simp add: fuel_def)
next
  case (run_pump_end p err rest k n k' n')
  have "length (incoming (tcp (close_ends k n k' n' (ends p)))) \<le> length (incoming (tcp (ends p)))"
    "length (incoming (embed (close_ends k n k' n' (ends p)))) \<le> length (incoming (embed (ends p)))"
    using close_ends_same [of k n k' n' "ends p"] prefix_length_le by blast+
  with run_pump_end show ?case
    by (cases "clientSide p") (simp_all add: fuel_def)
qed

definition finished :: "'w pump \<Rightarrow> bool" where
  "finished p \<longleftrightarrow> serverDone p \<and> clientSide p = ClientEnded \<and> decided p \<noteq> None"

lemma pump_progress:
  assumes "pump_inv gate b s p" and "\<not> finished p"
  shows "\<exists>p'. pump_step policy gate b p p'"
proof -
  consider "\<not> serverDone p" | "clientSide p = BeforeInit" | "clientSide p = Relaying"
    | "serverDone p" "clientSide p = ClientEnded" "decided p = None"
    using assms(2) by (cases "clientSide p") (auto simp: finished_def)
  then show ?thesis
  proof cases
    case 1
    obtain r q where "server_to_browser_turn tcp_end embed_end policy (map_option outside_gate gate) (ends p) = (r, q)"
      by (metis surj_pair)
    with 1 show ?thesis by (cases r) (auto intro: pump_step.intros)
  next
    case 2
    obtain r q where "relay_client_init embed_end tcp_end (ends p) = (r, q)" by (metis surj_pair)
    with 2 show ?thesis by (cases r) (auto intro: pump_step.intros)
  next
    case 3
    obtain r q where "browser_to_server_turn embed_end tcp_end b (ends p) = (r, q)" by (metis surj_pair)
    with 3 show ?thesis by (cases r) (auto intro: pump_step.intros)
  next
    case 4
    then obtain err rest where "errCh p = err # rest"
      using assms(1) by (cases "errCh p") (auto simp: pump_inv_def ended_directions_def)
    with 4 show ?thesis using pump_step.run_pump_end by blast
  qed
qed


text \<open>A run that gets somewhere: the server's first chunk is relayed.\<close>

definition demo_pump :: "unit pump" where
  "demo_pump = (pump_start (demo_relay [[7, 8]] []))\<lparr>ends :=
     snd (server_to_browser_turn tcp_end embed_end DefaultCouplingPolicy None (demo_relay [[7, 8]] []))\<rparr>"

lemma demo_pump_reachable: "pump_reachable DefaultCouplingPolicy None True (demo_relay [[7, 8]] []) demo_pump"
proof -
  obtain r s where t: "server_to_browser_turn tcp_end embed_end DefaultCouplingPolicy None (demo_relay [[7, 8]] []) = (r, s)"
    by (metis surj_pair)
  have "\<exists>u. r = Inr u"
  proof (cases r)
    case (Inl err)
    with t server_to_browser_turn_moves [of DefaultCouplingPolicy None "demo_relay [[7, 8]] []" r s]
    show ?thesis by auto
  qed simp
  then obtain u where "r = Inr u" ..
  with t have "pump_step DefaultCouplingPolicy None True (pump_start (demo_relay [[7, 8]] []))
      ((pump_start (demo_relay [[7, 8]] []))\<lparr>ends := s\<rparr>)"
    using pump_step.server_turn [of "pump_start (demo_relay [[7, 8]] [])" DefaultCouplingPolicy None u s True]
    by (simp add: pump_start_def)
  with t show ?thesis
    unfolding demo_pump_def by (simp add: pump_reachable.step [OF pump_reachable.start])
qed

theorem relay_interleaved_witness:
  "\<exists>b. outgoing (embed (ends demo_pump)) = b \<and> prefix b [7, 8]"
  using relay_interleaved [OF demo_pump_reachable] by simp


end
