(* ===== verification/Relay_Start.thy ===== *)
theory Relay_Start
  imports Relay_Run
begin

text \<open>
  \<open>StartRelay\<close> of \<open>internal/relay/pump.go\<close>, and a whole relay from the first byte of the
  handshakes to any moment of the pump.
\<close>

section \<open>Starting a relay\<close>

text \<open>
  What the started goroutine runs: \<open>runPump\<close> with its policy and read-only flag, from the channels
  as the handshakes left them.
\<close>

record 'w launched =
  policyUsed :: coupling_policy
  writesDropped :: bool
  running :: "'w pump"

definition effective_policy :: "coupling_policy \<Rightarrow> coupling_policy" where
  "effective_policy policy = (if Capacity policy \<le> 0 then DefaultCouplingPolicy else policy)"

definition start_relay ::
    "coupling_policy \<Rightarrow> int \<Rightarrow> bytes \<Rightarrow> bool \<Rightarrow> 'w relay \<Rightarrow> (go_error + 'w launched) \<times> 'w relay" where
  "start_relay policy now password readOnly s =
     (case do_handshakes tcp_end embed_end now password s of
        (Inl err, s) \<Rightarrow> (Inl err, s)
      | (Inr _, s) \<Rightarrow>
          (Inr \<lparr>policyUsed = effective_policy policy, writesDropped = readOnly, running = pump_start s\<rparr>, s))"

section \<open>From the handshakes on\<close>

lemma view_streams:
  "avail (channel_view (wire l)) = incoming l" "sent (channel_view (wire l)) = outgoing l"
  "healthy (channel_view (wire l)) \<longleftrightarrow> sinkLeft (wire l) = None"
  by (simp_all add: channel_view_def incoming_def outgoing_def healthy_def)

text \<open>The result of both handshakes, from the two results.\<close>

definition handshakes_result :: "go_error + unit \<Rightarrow> go_error + unit" where
  "handshakes_result b = (case b of Inl e \<Rightarrow> Inl (Wrapf ''relay: browser frontshake: %w'' e) | Inr u \<Rightarrow> Inr u)"

lemma do_handshakes_result:
  assumes "16 \<le> max_payload (frameSize (tcp s))" and "12 \<le> max_payload (frameSize (embed s))"
    and "do_handshakes tcp_end embed_end now password s = (res, s')"
  shows "\<exists>a b. handshake stream_read_full conn_write password (channel_view (wire (tcp s))) = (a, channel_view (wire (tcp s'))) \<and>
    res = (case a of Inl e \<Rightarrow> Inl (Wrapf ''relay: VNC server handshake: %w'' e) | Inr h \<Rightarrow> handshakes_result (fst b)) \<and>
    (\<forall>h. a = Inr h \<longrightarrow>
       frontshake stream_read_full conn_write (channel_view (wire (embed s))) = b \<and> snd b = channel_view (wire (embed s')))"
proof -
  obtain a where a: "handshake stream_read_full conn_write password (channel_view (wire (tcp s))) = (a, channel_view (wire (tcp s')))"
    and l: "case a of
       Inl e \<Rightarrow> res = Inl (Wrapf ''relay: VNC server handshake: %w'' e) \<and>
         wire (embed s') = wire (embed s) \<and> granted (tcp s') = granted (tcp s)
     | Inr _ \<Rightarrow> granted (tcp s') = granted (tcp s) @ [4] \<and>
         (\<exists>b. frontshake stream_read_full conn_write (channel_view (wire (embed s))) =
            (b, channel_view (wire (embed s'))) \<and>
          res = (case b of Inl e \<Rightarrow> Inl (Wrapf ''relay: browser frontshake: %w'' e) | Inr u \<Rightarrow> Inr u))"
    using do_handshakes_view [OF assms] by blast
  show ?thesis
    using a l by (cases a) (auto simp: handshakes_result_def)
qed

text \<open>What the handshakes have read and written when the relay is started.\<close>

lemma started_streams:
  assumes "start_relay policy now password readOnly s = (Inr launched, s')"
    and "16 \<le> max_payload (frameSize (tcp s))" and "12 \<le> max_payload (frameSize (embed s))"
    and "sinkLeft (wire (tcp s)) = None" and "sinkLeft (wire (embed s)) = None"
  shows "\<exists>v types challenge.
    supported_version v \<and> offers_supported types \<and> wf_challenge types challenge \<and>
    incoming (tcp s) = server_script v types challenge (SecurityResultOK, []) @ incoming (tcp s') \<and>
    outgoing (tcp s') = outgoing (tcp s) @ client_script password types challenge \<and>
    incoming (embed s) = browser_script @ incoming (embed s') \<and>
    outgoing (embed s') = outgoing (embed s) @ synthetic_script"
proof -
  have "do_handshakes tcp_end embed_end now password s = (Inr (), s')"
    using assms(1) by (auto simp: start_relay_def split: prod.splits sum.splits)
  from do_handshakes_result [OF assms(2,3) this] obtain a b where
    a: "handshake stream_read_full conn_write password (channel_view (wire (tcp s))) = (a, channel_view (wire (tcp s')))"
    and r: "Inr () = (case a of Inl e \<Rightarrow> Inl (Wrapf ''relay: VNC server handshake: %w'' e) | Inr h \<Rightarrow> handshakes_result (fst b))"
    and b: "\<forall>h. a = Inr h \<longrightarrow>
       frontshake stream_read_full conn_write (channel_view (wire (embed s))) = b \<and> snd b = channel_view (wire (embed s'))"
    by (elim exE conjE) (rule that)
  from r [symmetric] obtain h where ah: "a = Inr h" "fst b = Inr ()"
    by (cases a; cases "fst b") (simp_all add: handshakes_result_def)
  with a have h: "handshake stream_read_full conn_write password (channel_view (wire (tcp s))) = (Inr h, channel_view (wire (tcp s')))"
    by simp
  from b ah have
    f: "frontshake stream_read_full conn_write (channel_view (wire (embed s))) = (Inr (), channel_view (wire (embed s')))"
    by (cases b) simp
  from assms(4,5) have ok: "healthy (channel_view (wire (tcp s)))" "healthy (channel_view (wire (embed s)))"
    by (simp_all add: view_streams)
  from handshake_success_script [OF h ok(1)] obtain v types challenge rest where
    server: "supported_version v" "offers_supported types" "wf_challenge types challenge"
      "incoming (tcp s) = server_script v types challenge (SecurityResultOK, []) @ rest"
      "channel_view (wire (tcp s')) = advanced (channel_view (wire (tcp s))) rest (client_script password types challenge)"
    unfolding view_streams by (elim exE conjE) (rule that)
  from f [unfolded frontshake_iff [OF ok(2)]] obtain rest' where
    browser: "incoming (embed s) = browser_script @ rest'"
      "channel_view (wire (embed s')) = advanced (channel_view (wire (embed s))) rest' synthetic_script"
    unfolding view_streams by (elim exE conjE) (rule that)
  have "incoming (tcp s') = rest" "outgoing (tcp s') = outgoing (tcp s) @ client_script password types challenge"
    using arg_cong [OF server(5), of avail] arg_cong [OF server(5), of sent]
    by (simp_all add: view_streams advanced_def)
  moreover have "incoming (embed s') = rest'" "outgoing (embed s') = outgoing (embed s) @ synthetic_script"
    using arg_cong [OF browser(2), of avail] arg_cong [OF browser(2), of sent]
    by (simp_all add: view_streams advanced_def)
  ultimately show ?thesis using server(1-4) browser(1) by blast
qed


text \<open>A server without a password, a browser, and the pump at its start.\<close>

definition demo_start :: "unit relay" where
  "demo_start = demo_relay [server_script V38 [1] [] (0, []) @ [5]] [browser_script @ [1]]"


end
