(* ===== verification/Json.thy ===== *)
theory Json
  imports Go_IO
begin

text \<open>
  The part of Go's \<open>encoding/json\<close> the control plane rests on: JSON text as a tree, its
  parser (\<open>json.Unmarshal\<close> into a generic value) and its compact printer (\<open>json.Marshal\<close>,
  with its escaping of control characters, of \<open><\<close>, \<open>>\<close>, \<open>&\<close> and of the line
  separators U+2028 and U+2029). A number is kept as its literal. The two are inverse.
\<close>

section \<open>Trees\<close>

datatype json =
    JNull
  | JBool bool
  | JNum string
  | JStr string
  | JArr "json list"
  | JObj "(string \<times> json) list"

section \<open>Strings\<close>

definition hex_digit :: "nat \<Rightarrow> char" where
  "hex_digit n = (if n < 10 then char_of (48 + n) else char_of (87 + n))"

definition hex_val :: "char \<Rightarrow> nat option" where
  "hex_val c =
     (let n = of_char c :: nat in
      if 48 \<le> n \<and> n \<le> 57 then Some (n - 48)
      else if 97 \<le> n \<and> n \<le> 102 then Some (n - 87)
      else if 65 \<le> n \<and> n \<le> 70 then Some (n - 55)
      else None)"

definition hex4 :: "nat \<Rightarrow> string" where
  "hex4 n = [hex_digit (n div 4096 mod 16), hex_digit (n div 256 mod 16), hex_digit (n div 16 mod 16), hex_digit (n mod 16)]"

definition unhex4 :: "char \<Rightarrow> char \<Rightarrow> char \<Rightarrow> char \<Rightarrow> nat option" where
  "unhex4 a b c d =
     (case (hex_val a, hex_val b, hex_val c, hex_val d) of
        (Some a, Some b, Some c, Some d) \<Rightarrow> Some (a * 4096 + b * 256 + c * 16 + d)
      | _ \<Rightarrow> None)"

text \<open>UTF-8 of a code point.\<close>

definition utf8 :: "nat \<Rightarrow> string" where
  "utf8 n =
     (if n < 128 then [char_of n]
      else if n < 2048 then [char_of (192 + n div 64), char_of (128 + n mod 64)]
      else if n < 65536
      then [char_of (224 + n div 4096), char_of (128 + n div 64 mod 64), char_of (128 + n mod 64)]
      else [char_of (240 + n div 262144), char_of (128 + n div 4096 mod 64),
            char_of (128 + n div 64 mod 64), char_of (128 + n mod 64)])"

text \<open>What \<open>Marshal\<close> writes for one byte of a string.\<close>

definition escape_char :: "char \<Rightarrow> string" where
  "escape_char c =
     (let n = of_char c :: nat in
      if c = CHR 0x22 then [CHR 0x5C, CHR 0x22]
      else if c = CHR 0x5C then [CHR 0x5C, CHR 0x5C]
      else if n = 8 then [CHR 0x5C, CHR ''b'']
      else if n = 12 then [CHR 0x5C, CHR ''f'']
      else if n = 10 then [CHR 0x5C, CHR ''n'']
      else if n = 13 then [CHR 0x5C, CHR ''r'']
      else if n = 9 then [CHR 0x5C, CHR ''t'']
      else if n < 32 \<or> c = CHR ''<'' \<or> c = CHR ''>'' \<or> c = CHR ''&''
      then [CHR 0x5C, CHR ''u''] @ hex4 n
      else [c])"

definition line_sep :: "char \<Rightarrow> char \<Rightarrow> char \<Rightarrow> nat option" where
  "line_sep a b c =
     (if a = CHR 0xE2 \<and> b = CHR 0x80 \<and> c = CHR 0xA8 then Some 8232
      else if a = CHR 0xE2 \<and> b = CHR 0x80 \<and> c = CHR 0xA9 then Some 8233
      else None)"

function escape :: "string \<Rightarrow> string" where
  "escape s =
     (case s of
        [] \<Rightarrow> []
      | a # s1 \<Rightarrow>
         (case s1 of
            b # c # r \<Rightarrow>
             (case line_sep a b c of
                Some n \<Rightarrow> [CHR 0x5C, CHR ''u''] @ hex4 n @ escape r
              | None \<Rightarrow> escape_char a @ escape s1)
          | _ \<Rightarrow> escape_char a @ escape s1))"
  by auto
termination by (relation "measure length") auto

declare escape.simps [simp del]

lemma escape_char_length: "length (escape_char c) \<le> 6"
  by (simp add: escape_char_def hex4_def Let_def)

lemma escape_length: "length (escape s) \<le> 6 * length s"
proof (induction s rule: length_induct)
  case (1 s)
  show ?case
  proof (cases s)
    case (Cons a s1)
    show ?thesis
    proof (cases "\<exists>b c r n. s1 = b # c # r \<and> line_sep a b c = Some n")
      case True
      then obtain b c r n where s: "s = a # b # c # r" "line_sep a b c = Some n" using Cons by blast
      then have "length (escape r) \<le> 6 * length r" using 1 by simp
      with s show ?thesis
        by (subst escape.simps) (simp add: hex4_def)
    next
      case False
      then have "escape s = escape_char a @ escape s1"
        using Cons by (subst escape.simps) (auto split: list.splits option.splits)
      moreover have "length (escape s1) \<le> 6 * length s1"
        using 1 Cons by simp
      ultimately show ?thesis using escape_char_length [of a] Cons by simp
    qed
  qed (simp add: escape.simps)
qed

definition print_string :: "string \<Rightarrow> string" where
  "print_string s = CHR 0x22 # escape s @ [CHR 0x22]"

text \<open>
  The body of a string literal, after its opening quote: the decoded bytes and what follows
  the closing quote. A surrogate pair is one code point, a lone surrogate U+FFFD.
\<close>

definition simple_escape :: "char \<Rightarrow> char option" where
  "simple_escape c =
     (if c = CHR 0x22 \<or> c = CHR 0x5C \<or> c = CHR ''/'' then Some c
      else if c = CHR ''b'' then Some (char_of (8 :: nat))
      else if c = CHR ''f'' then Some (char_of (12 :: nat))
      else if c = CHR ''n'' then Some (char_of (10 :: nat))
      else if c = CHR ''r'' then Some (char_of (13 :: nat))
      else if c = CHR ''t'' then Some (char_of (9 :: nat))
      else None)"

definition low_surrogate :: "string \<Rightarrow> nat option" where
  "low_surrogate s =
     (case s of
        x # u # a # b # c # d # r \<Rightarrow>
          if x = CHR 0x5C \<and> u = CHR ''u''
          then (case unhex4 a b c d of
                  Some n \<Rightarrow> if 56320 \<le> n \<and> n < 57344 then Some n else None
                | None \<Rightarrow> None)
          else None
      | _ \<Rightarrow> None)"

function parse_string :: "string \<Rightarrow> (string \<times> string) option" where
  "parse_string s =
     (case s of
        [] \<Rightarrow> None
      | c # r \<Rightarrow>
          if c = CHR 0x22 then Some ([], r)
          else if (of_char c :: nat) < 32 then None
          else if c = CHR 0x5C then
            (case r of
               [] \<Rightarrow> None
             | e # r1 \<Rightarrow>
                (case simple_escape e of
                   Some x \<Rightarrow> map_option (\<lambda>(t, q). (x # t, q)) (parse_string r1)
                 | None \<Rightarrow>
                     if e \<noteq> CHR ''u'' then None
                     else (case r1 of
                             h1 # h2 # h3 # h4 # r2 \<Rightarrow>
                              (case unhex4 h1 h2 h3 h4 of
                                 None \<Rightarrow> None
                               | Some n \<Rightarrow>
                                   if 55296 \<le> n \<and> n < 57344 then
                                     (case (if n < 56320 then low_surrogate r2 else None) of
                                        Some m \<Rightarrow>
                                          map_option (\<lambda>(t, q). (utf8 ((n - 55296) * 1024 + (m - 56320) + 65536) @ t, q))
                                            (parse_string (drop 6 r2))
                                      | None \<Rightarrow>
                                          map_option (\<lambda>(t, q). (utf8 65533 @ t, q)) (parse_string r2))
                                   else map_option (\<lambda>(t, q). (utf8 n @ t, q)) (parse_string r2))
                           | _ \<Rightarrow> None)))
          else map_option (\<lambda>(t, q). (c # t, q)) (parse_string r))"
  by auto
termination
  by (relation "measure length") auto

declare parse_string.simps [simp del]

section \<open>Values\<close>

definition is_space :: "char \<Rightarrow> bool" where
  "is_space c \<longleftrightarrow> c = CHR '' '' \<or> (of_char c :: nat) = 9 \<or> (of_char c :: nat) = 10 \<or> (of_char c :: nat) = 13"

definition skip :: "string \<Rightarrow> string" where
  "skip s = dropWhile is_space s"

definition num_char :: "char \<Rightarrow> bool" where
  "num_char c \<longleftrightarrow> is_digit c \<or> c = CHR ''-'' \<or> c = CHR ''+'' \<or> c = CHR ''.'' \<or> c = CHR ''e'' \<or> c = CHR ''E''"

text \<open>The grammar of a number: sign, integer part without leading zeros, fraction, exponent.\<close>

definition digits1 :: "string \<Rightarrow> string option" where
  "digits1 s = (let r = dropWhile is_digit s in if r = s then None else Some r)"

definition valid_number :: "string \<Rightarrow> bool" where
  "valid_number s =
     (let s = (case s of c # r \<Rightarrow> if c = CHR ''-'' then r else s | [] \<Rightarrow> []) in
      case (case s of c # r \<Rightarrow> if c = CHR ''0'' then Some r else digits1 s | [] \<Rightarrow> None) of
        None \<Rightarrow> False
      | Some s \<Rightarrow>
         (case (case s of c # r \<Rightarrow> if c = CHR ''.'' then digits1 r else Some s | [] \<Rightarrow> Some []) of
            None \<Rightarrow> False
          | Some s \<Rightarrow>
             (case s of
                [] \<Rightarrow> True
              | c # r \<Rightarrow>
                  (c = CHR ''e'' \<or> c = CHR ''E'') \<and>
                  digits1 (case r of d # r' \<Rightarrow> if d = CHR ''+'' \<or> d = CHR ''-'' then r' else r | [] \<Rightarrow> []) = Some [])))"

definition parse_number :: "string \<Rightarrow> (json \<times> string) option" where
  "parse_number s =
     (let lit = takeWhile num_char s in
      if valid_number lit then Some (JNum lit, dropWhile num_char s) else None)"

definition expect :: "string \<Rightarrow> json \<Rightarrow> string \<Rightarrow> (json \<times> string) option" where
  "expect w j s = (if take (length w) s = w then Some (j, drop (length w) s) else None)"

text \<open>
  Values, elements after \<open>[\<close> and members after \<open>{\<close>, with fuel that bounds the recursion:
  a value of \<open>n\<close> characters takes at most \<open>2 n\<close> nested calls.
\<close>

fun parse_value :: "nat \<Rightarrow> string \<Rightarrow> (json \<times> string) option"
  and parse_elems :: "nat \<Rightarrow> string \<Rightarrow> (json list \<times> string) option"
  and parse_members :: "nat \<Rightarrow> string \<Rightarrow> ((string \<times> json) list \<times> string) option" where
  "parse_value 0 s = None"
| "parse_value (Suc k) s =
     (case skip s of
        [] \<Rightarrow> None
      | c # r \<Rightarrow>
          if c = CHR 0x22 then map_option (\<lambda>(t, q). (JStr t, q)) (parse_string r)
          else if c = CHR ''['' then
            (case skip r of
               d # r' \<Rightarrow> if d = CHR '']'' then Some (JArr [], r')
                          else map_option (\<lambda>(js, q). (JArr js, q)) (parse_elems k r)
             | [] \<Rightarrow> None)
          else if c = CHR ''{'' then
            (case skip r of
               d # r' \<Rightarrow> if d = CHR ''}'' then Some (JObj [], r')
                          else map_option (\<lambda>(ms, q). (JObj ms, q)) (parse_members k r)
             | [] \<Rightarrow> None)
          else if c = CHR ''n'' then expect ''null'' JNull (c # r)
          else if c = CHR ''t'' then expect ''true'' (JBool True) (c # r)
          else if c = CHR ''f'' then expect ''false'' (JBool False) (c # r)
          else parse_number (c # r))"
| "parse_elems 0 s = None"
| "parse_elems (Suc k) s =
     (case parse_value k s of
        None \<Rightarrow> None
      | Some (j, r) \<Rightarrow>
         (case skip r of
            c # r' \<Rightarrow>
              if c = CHR '','' then map_option (\<lambda>(js, q). (j # js, q)) (parse_elems k r')
              else if c = CHR '']'' then Some ([j], r')
              else None
          | [] \<Rightarrow> None))"
| "parse_members 0 s = None"
| "parse_members (Suc k) s =
     (case skip s of
        [] \<Rightarrow> None
      | c # r \<Rightarrow>
          if c \<noteq> CHR 0x22 then None
          else case parse_string r of
            None \<Rightarrow> None
          | Some (key, r1) \<Rightarrow>
             (case skip r1 of
                [] \<Rightarrow> None
              | d # r2 \<Rightarrow>
                  if d \<noteq> CHR '':'' then None
                  else case parse_value k r2 of
                    None \<Rightarrow> None
                  | Some (j, r3) \<Rightarrow>
                     (case skip r3 of
                        e # r4 \<Rightarrow>
                          if e = CHR '','' then map_option (\<lambda>(ms, q). ((key, j) # ms, q)) (parse_members k r4)
                          else if e = CHR ''}'' then Some ([(key, j)], r4)
                          else None
                      | [] \<Rightarrow> None)))"

definition json_parse :: "bytes \<Rightarrow> json option" where
  "json_parse b =
     (let s = string_of b in
      case parse_value (Suc (2 * length s)) s of
        Some (j, r) \<Rightarrow> if skip r = [] then Some j else None
      | None \<Rightarrow> None)"

definition join :: "string list \<Rightarrow> string" where
  "join ts = (case ts of [] \<Rightarrow> [] | t # ts \<Rightarrow> t @ concat (map (\<lambda>t. CHR '','' # t) ts))"

fun print_json :: "json \<Rightarrow> string" where
  "print_json JNull = ''null''"
| "print_json (JBool b) = (if b then ''true'' else ''false'')"
| "print_json (JNum lit) = lit"
| "print_json (JStr s) = print_string s"
| "print_json (JArr js) = CHR ''['' # join (map print_json js) @ [CHR '']'']"
| "print_json (JObj ms) =
     CHR ''{'' # join (map (\<lambda>(k, j). print_string k @ CHR '':'' # print_json j) ms) @ [CHR ''}'']"

definition json_print :: "json \<Rightarrow> bytes" where
  "json_print j = bytes_of (print_json j)"

text \<open>
  Printing with white space: after each bracket and comma the string \<open>deeper nl\<close>, before a closing
  bracket \<open>nl\<close>, after a colon \<open>sp\<close>; an empty array or object has none. \<open>json.MarshalIndent\<close> with
  two spaces is one instance, the compact printer another.
\<close>

fun print_with :: "(string \<Rightarrow> string) \<Rightarrow> string \<Rightarrow> string \<Rightarrow> json \<Rightarrow> string" where
  "print_with deeper sp nl (JArr js) =
     (if js = [] then ''[]''
      else CHR ''['' # join (map (\<lambda>j. deeper nl @ print_with deeper sp (deeper nl) j) js) @ nl @ [CHR '']''])"
| "print_with deeper sp nl (JObj ms) =
     (if ms = [] then ''{}''
      else CHR ''{'' # join (map (\<lambda>(k, j). deeper nl @ print_string k @ CHR '':'' # sp @
             print_with deeper sp (deeper nl) j) ms) @ nl @ [CHR ''}''])"
| "print_with deeper sp nl j = print_json j"

definition json_print_indent :: "json \<Rightarrow> bytes" where
  "json_print_indent j = bytes_of (print_with (\<lambda>nl. nl @ ''  '') '' '' [CHR 0x0A] j)"

section \<open>Round trip of strings\<close>

lemma hex_val_digit [simp]: "n < 16 \<Longrightarrow> hex_val (hex_digit n) = Some n"
  by (auto simp: hex_digit_def hex_val_def Let_def)

lemma hex4_sum: "n < 65536 \<Longrightarrow>
  n div 4096 mod 16 * 4096 + n div 256 mod 16 * 256 + n div 16 mod 16 * 16 + n mod 16 = (n :: nat)"
proof -
  assume n: "n < 65536"
  define a b c where "a = n div 16" and "b = a div 16" and "c = b div 16"
  have abc: "n div 256 = b" "n div 4096 = c"
    by (simp_all add: a_def b_def c_def div_mult2_eq [symmetric])
  have "c < 16" using n by (simp add: abc(2) [symmetric] less_mult_imp_div_less)
  moreover have "n = 16 * a + n mod 16" "a = 16 * b + a mod 16" "b = 16 * c + b mod 16"
    by (simp_all add: a_def b_def c_def)
  ultimately show ?thesis
    unfolding abc a_def [symmetric] by simp
qed

lemma hex4_unhex4:
  "n < 65536 \<Longrightarrow> \<exists>a b c d. hex4 n = [a, b, c, d] \<and> unhex4 a b c d = Some n"
  using hex4_sum [of n] by (simp add: hex4_def unhex4_def del: mod_less)

text \<open>Reading back a \<open>\u\<close> escape.\<close>

lemma parse_string_hex4:
  assumes "n < 55296" and "parse_string r = Some (t, q)"
  shows "parse_string ([CHR 0x5C, CHR ''u''] @ hex4 n @ r) = Some (utf8 n @ t, q)"
proof -
  have "\<not> 55296 \<le> n" "n < 65536" using assms(1) by simp_all
  moreover from hex4_unhex4 [OF this(2)] obtain a b c d where
    "hex4 n = [a, b, c, d]" "unhex4 a b c d = Some n" by blast
  ultimately show ?thesis
    using assms(2) by (subst parse_string.simps) (simp add: simple_escape_def)
qed

lemma of_char_less_32_cases:
  "(of_char c :: nat) < 128 \<Longrightarrow> utf8 (of_char c) = [c]"
  by (simp add: utf8_def)

lemma of_char_eq_iff: "(of_char c :: nat) = of_char d \<longleftrightarrow> c = d"
  by simp

lemma parse_string_escape_char:
  assumes "parse_string r = Some (t, q)"
  shows "parse_string (escape_char a @ r) = Some (a # t, q)"
proof -
  have simple: "parse_string (CHR 0x5C # e # r) = Some (x # t, q)" if "simple_escape e = Some x" for e x
    using that assms by (subst parse_string.simps) simp
  have eqs: "a = char_of n" if "of_char a = (n :: nat)" for n
    using that by (metis char_of_char)
  consider "a = CHR 0x22 \<or> a = CHR 0x5C" | "of_char a \<in> {8, 9, 10, 12, 13 :: nat}"
    | (hex) "a \<noteq> CHR 0x22" "a \<noteq> CHR 0x5C" "of_char a \<notin> {8, 9, 10, 12, 13 :: nat}"
        "(of_char a :: nat) < 32 \<or> a = CHR ''<'' \<or> a = CHR ''>'' \<or> a = CHR ''&''"
    | (plain) "a \<noteq> CHR 0x22" "a \<noteq> CHR 0x5C" "\<not> (of_char a :: nat) < 32" "a \<noteq> CHR ''<''"
        "a \<noteq> CHR ''>''" "a \<noteq> CHR ''&''" by blast
  then show ?thesis
  proof cases
    case 1
    then show ?thesis
      by (elim disjE) (simp_all add: escape_char_def simple simple_escape_def)
  next
    case 2
    then have "a \<noteq> CHR 0x22" "a \<noteq> CHR 0x5C" by (auto dest!: eqs)
    with 2 show ?thesis
      by (auto simp: escape_char_def simple simple_escape_def dest: eqs)
  next
    case hex
    then have "escape_char a = [CHR 0x5C, CHR ''u''] @ hex4 (of_char a)"
      by (auto simp: escape_char_def Let_def)
    moreover have "(of_char a :: nat) < 128" using hex(4) by auto
    ultimately show ?thesis
      using parse_string_hex4 [of "of_char a" r t q] assms by (simp add: of_char_less_32_cases)
  next
    case plain
    then have "escape_char a = [a]"
      by (auto simp: escape_char_def Let_def)
    then show ?thesis
      using plain assms by (subst parse_string.simps) simp
  qed
qed

lemma line_sep_utf8: "line_sep a b c = Some n \<Longrightarrow> utf8 n = [a, b, c] \<and> n < 55296"
proof -
  have "utf8 8232 = [CHR 0xE2, CHR 0x80, CHR 0xA8]" "utf8 8233 = [CHR 0xE2, CHR 0x80, CHR 0xA9]"
    by (simp_all add: utf8_def char_of_eq_iff)
  then show "line_sep a b c = Some n \<Longrightarrow> utf8 n = [a, b, c] \<and> n < 55296"
    by (auto simp: line_sep_def split: if_splits)
qed

lemma escape_Nil [simp]: "escape [] = []"
  by (simp add: escape.simps)

lemma escape_step:
  obtains (sep) b c s2 n where "s1 = b # c # s2" "line_sep a b c = Some n"
      "escape (a # s1) = [CHR 0x5C, CHR ''u''] @ hex4 n @ escape s2"
    | (char) "escape (a # s1) = escape_char a @ escape s1"
proof (cases "\<exists>b c s2 n. s1 = b # c # s2 \<and> line_sep a b c = Some n")
  case True
  then obtain b c s2 n where "s1 = b # c # s2" "line_sep a b c = Some n" by blast
  then show thesis
    by (intro sep) (simp_all add: escape.simps [of "a # b # c # s2"])
next
  case False
  then have "escape (a # s1) = escape_char a @ escape s1"
    by (subst escape.simps) (auto split: list.splits option.splits)
  then show thesis by (rule char)
qed

lemma parse_escape: "parse_string (escape s @ CHR 0x22 # r) = Some (s, r)"
proof (induction "length s" arbitrary: s rule: less_induct)
  case less
  show ?case
  proof (cases s)
    case Nil
    then show ?thesis by (subst parse_string.simps) simp
  next
    case (Cons a s1)
    show ?thesis
    proof (cases rule: escape_step [where a = a and ?s1.0 = s1])
      case (sep b c s2 n)
      with Cons less have "parse_string (escape s2 @ CHR 0x22 # r) = Some (s2, r)" by simp
      with sep Cons show ?thesis
        using parse_string_hex4 [of n "escape s2 @ CHR 0x22 # r" s2 r] line_sep_utf8 [of a b c n] by simp
    next
      case char
      with Cons less have "parse_string (escape s1 @ CHR 0x22 # r) = Some (s1, r)" by simp
      with char Cons show ?thesis
        using parse_string_escape_char [of "escape s1 @ CHR 0x22 # r" s1 r a] by simp
    qed
  qed
qed

section \<open>Round trip of values\<close>

fun wf_json :: "json \<Rightarrow> bool" where
  "wf_json (JNum lit) \<longleftrightarrow> valid_number lit \<and> list_all num_char lit"
| "wf_json (JArr js) \<longleftrightarrow> list_all wf_json js"
| "wf_json (JObj ms) \<longleftrightarrow> list_all (\<lambda>(k, j). wf_json j) ms"
| "wf_json _ \<longleftrightarrow> True"

definition ends_number :: "string \<Rightarrow> bool" where
  "ends_number r \<longleftrightarrow> (case r of [] \<Rightarrow> True | c # _ \<Rightarrow> \<not> num_char c)"

lemma ends_number_simps [simp]:
  "ends_number []" "ends_number (CHR '','' # r)" "ends_number (CHR '']'' # r)" "ends_number (CHR ''}'' # r)"
  by (simp_all add: ends_number_def num_char_def is_digit_def)

lemma skip_char [simp]: "\<not> is_space c \<Longrightarrow> skip (c # r) = c # r"
  by (simp add: skip_def)

lemma not_space [simp]:
  "\<not> is_space (CHR '','')" "\<not> is_space (CHR '':'')" "\<not> is_space (CHR ''['')" "\<not> is_space (CHR '']'')"
  "\<not> is_space (CHR ''{'')" "\<not> is_space (CHR ''}'')" "\<not> is_space (CHR 0x22)" "\<not> is_space (CHR ''n'')"
  "\<not> is_space (CHR ''t'')" "\<not> is_space (CHR ''f'')"
  by (simp_all add: is_space_def)

lemma valid_number_head:
  assumes "valid_number lit"
  obtains c r where "lit = c # r" "c = CHR ''-'' \<or> is_digit c"
proof (cases lit)
  case Nil
  with assms show thesis by (simp add: valid_number_def)
next
  case (Cons c r)
  have "c = CHR ''-'' \<or> is_digit c"
    using assms Cons
    by (auto simp: valid_number_def digits1_def Let_def is_digit_def split: if_splits option.splits)
  with Cons that show thesis by blast
qed

lemma digit_not_special:
  "is_digit c \<Longrightarrow> \<not> is_space c \<and> c \<notin> {CHR 0x22, CHR ''['', CHR ''{'', CHR '']'', CHR ''}'', CHR ''n'', CHR ''t'', CHR ''f''}"
  by (auto simp: is_digit_def is_space_def)

lemma minus_not_special:
  "\<not> is_space (CHR ''-'')"
  by (simp add: is_space_def)

text \<open>The first character of a printed value.\<close>

lemma print_with_head:
  "wf_json j \<Longrightarrow> \<exists>c r. print_with deeper sp nl j = c # r \<and> \<not> is_space c \<and> c \<noteq> CHR '']'' \<and> c \<noteq> CHR ''}''"
proof (cases j)
  case (JNum lit)
  assume "wf_json j"
  with JNum have "valid_number lit" by simp
  then show ?thesis
    using JNum by (elim valid_number_head) (auto simp: minus_not_special dest: digit_not_special)
qed (auto simp: print_string_def)

lemma print_json_with: "print_json j = print_with (\<lambda>_. []) [] [] j"
proof (induction j)
  case (JArr js)
  then have "map print_json js = map (print_with (\<lambda>_. []) [] []) js" by (intro map_cong) auto
  then show ?case by (simp del: map_eq_conv) (simp add: join_def)
next
  case (JObj ms)
  then have "map (\<lambda>(k, j). print_string k @ CHR '':'' # print_json j) ms =
      map (\<lambda>(k, j). print_string k @ CHR '':'' # print_with (\<lambda>_. []) [] [] j) ms"
    by (intro map_cong) auto
  then show ?case by (simp del: map_eq_conv) (simp add: join_def)
qed simp_all

lemma print_json_head:
  "wf_json j \<Longrightarrow> \<exists>c r. print_json j = c # r \<and> \<not> is_space c \<and> c \<noteq> CHR '']'' \<and> c \<noteq> CHR ''}''"
  unfolding print_json_with by (rule print_with_head)

text \<open>White space in front of a value, or of what follows it, does not matter.\<close>

abbreviation spaces :: "string \<Rightarrow> bool" where
  "spaces w \<equiv> list_all is_space w"

lemma skip_spaces [simp]: "spaces w \<Longrightarrow> skip (w @ s) = skip s"
  by (induction w) (simp_all add: skip_def)

lemma parse_value_spaces: "spaces w \<Longrightarrow> parse_value k (w @ s) = parse_value k s"
  by (cases k) simp_all

lemma parse_members_spaces: "spaces w \<Longrightarrow> parse_members k (w @ s) = parse_members k s"
  by (cases k) simp_all

lemma ends_number_spaces [simp]: "spaces w \<Longrightarrow> ends_number s \<Longrightarrow> ends_number (w @ s)"
  by (cases w) (auto simp: ends_number_def is_space_def num_char_def is_digit_def)

lemma parse_number_print:
  assumes "valid_number lit" and "list_all num_char lit" and "ends_number r"
  shows "parse_number (lit @ r) = Some (JNum lit, r)"
proof -
  have "takeWhile num_char (lit @ r) = lit" "dropWhile num_char (lit @ r) = r"
    using assms(2,3) by (induction lit) (auto simp: ends_number_def split: list.splits)
  with assms(1) show ?thesis by (simp add: parse_number_def)
qed

lemma join_simps [simp]:
  "join [] = []" "join [t] = t" "join (t # t' # ts) = t @ CHR '','' # join (t' # ts)"
  by (simp_all add: join_def)

lemma skip_print_json: "wf_json j \<Longrightarrow> skip (print_json j @ r) = print_json j @ r"
  using print_json_head [of j] by auto

lemma length_join_Cons:
  "length (join (t # ts)) = length t + (case ts of [] \<Rightarrow> 0 | _ \<Rightarrow> Suc (length (join ts)))"
  by (cases ts) simp_all

lemma join_Cons_app: "\<exists>q. join (t # ts) = t @ q"
  by (simp add: join_def)

text \<open>A list of printed values, and one of printed members, up to the closing bracket.\<close>

lemma parse_elems_print:
  assumes "js \<noteq> []" and "spaces u" and "spaces v"
    and "\<And>j k r. j \<in> set js \<Longrightarrow> ends_number r \<Longrightarrow> 2 * length (f j) \<le> k \<Longrightarrow>
      parse_value k (f j @ r) = Some (j, r)"
    and "Suc (2 * length (join (map (\<lambda>j. u @ f j) js))) \<le> k"
  shows "parse_elems k (join (map (\<lambda>j. u @ f j) js) @ v @ CHR '']'' # r) = Some (js, r)"
  using assms
proof (induction js arbitrary: k)
  case Nil
  then show ?case by simp
next
  case (Cons j js)
  then obtain k' where k: "k = Suc k'" by (cases k) auto
  show ?case
  proof (cases js)
    case Nil
    with Cons.prems k show ?thesis by (simp add: parse_value_spaces)
  next
    case (Cons j' js')
    have "2 * length (f j) \<le> k'" "Suc (2 * length (join (map (\<lambda>j. u @ f j) js))) \<le> k'"
      using Cons.prems(5) k Cons by simp_all
    with Cons.prems Cons.IH [of k'] k Cons show ?thesis by (simp add: parse_value_spaces)
  qed
qed

lemma parse_members_print:
  fixes f :: "json \<Rightarrow> string" and u sp :: string
  defines "p \<equiv> \<lambda>(k, j). u @ print_string k @ CHR '':'' # sp @ f j"
  assumes "ms \<noteq> []" and "spaces u" and "spaces v" and "spaces sp"
    and "\<And>j k r. j \<in> snd ` set ms \<Longrightarrow> ends_number r \<Longrightarrow> 2 * length (f j) \<le> k \<Longrightarrow>
      parse_value k (f j @ r) = Some (j, r)"
    and "Suc (2 * length (join (map p ms))) \<le> k"
  shows "parse_members k (join (map p ms) @ v @ CHR ''}'' # r) = Some (ms, r)"
  using assms(2-)
proof (induction ms arbitrary: k)
  case Nil
  then show ?case by simp
next
  case (Cons m ms)
  obtain key j where m: "m = (key, j)" by (cases m)
  obtain k' where k: "k = Suc k'" using Cons.prems(6) by (cases k) auto
  have str: "parse_string (escape key @ CHR 0x22 # r') = Some (key, r')" for r'
    by (rule parse_escape)
  show ?case
  proof (cases ms)
    case Nil
    with Cons.prems m k str show ?thesis
      by (simp add: p_def print_string_def parse_members_spaces parse_value_spaces)
  next
    case (Cons m' ms')
    then have le: "2 * length (f j) \<le> k'" and "Suc (2 * length (join (map p ms))) \<le> k'"
      using Cons.prems(6) k m by (simp_all add: p_def)
    then have ih: "parse_members k' (join (map p ms) @ v @ CHR ''}'' # r) = Some (ms, r)"
      using Cons.prems Cons.IH [of k'] Cons by simp
    have val: "parse_value k' (f j @ CHR '','' # q) = Some (j, CHR '','' # q)" for q
      using Cons.prems(5) [of j "CHR '','' # q" k'] le m by simp
    have "join (map p (m # ms)) = p m @ CHR '','' # join (map p ms)"
      using Cons by simp
    then show ?thesis
      using ih val Cons.prems(2-4) k m str
      by (simp add: p_def print_string_def parse_members_spaces parse_value_spaces)
  qed
qed

lemma parse_value_with:
  assumes "wf_json j" and "ends_number r" and "2 * length (print_with deeper sp nl j) \<le> k"
    and "\<And>w. spaces w \<Longrightarrow> spaces (deeper w)" and "spaces sp" and "spaces nl"
  shows "parse_value k (print_with deeper sp nl j @ r) = Some (j, r)"
  using assms(1,2,3,6)
proof (induction j arbitrary: k r nl)
  case (JNum lit)
  then obtain c l where lit: "lit = c # l" "c = CHR ''-'' \<or> is_digit c"
    by (auto elim: valid_number_head)
  then have c: "\<not> is_space c" "c \<notin> {CHR 0x22, CHR ''['', CHR ''{'', CHR ''n'', CHR ''t'', CHR ''f''}"
    using digit_not_special [of c] minus_not_special by auto
  obtain k' where "k = Suc k'" using JNum lit by (cases k) auto
  with JNum lit(1) c show ?case
    using parse_number_print [of lit r] by simp
next
  case (JArr js)
  then obtain k' where k: "k = Suc k'" by (cases k) (auto split: if_splits)
  let ?u = "deeper nl"
  let ?t = "join (map (\<lambda>j. ?u @ print_with deeper sp ?u j) js)"
  have u: "spaces ?u" using assms(4) JArr.prems(4) .
  show ?case
  proof (cases js)
    case Nil
    with k show ?thesis by simp
  next
    case (Cons j js')
    obtain c l where c: "print_with deeper sp ?u j = c # l" "\<not> is_space c" "c \<noteq> CHR '']''"
      using print_with_head [of j deeper sp ?u] JArr.prems(1) Cons by auto
    obtain q where "?t = (?u @ print_with deeper sp ?u j) @ q"
      using join_Cons_app [of "?u @ print_with deeper sp ?u j"] Cons by auto
    then have "skip (?t @ nl @ CHR '']'' # r) = c # l @ q @ nl @ CHR '']'' # r"
      using c u by simp
    moreover have "parse_elems k' (?t @ nl @ CHR '']'' # r) = Some (js, r)"
      using JArr k Cons u by (intro parse_elems_print) (auto simp: list_all_iff)
    ultimately show ?thesis using k c Cons by simp
  qed
next
  case (JObj ms)
  then obtain k' where k: "k = Suc k'" by (cases k) (auto split: if_splits)
  let ?u = "deeper nl"
  let ?p = "\<lambda>(k, j). ?u @ print_string k @ CHR '':'' # sp @ print_with deeper sp ?u j"
  have u: "spaces ?u" using assms(4) JObj.prems(4) .
  show ?case
  proof (cases ms)
    case Nil
    with k show ?thesis by simp
  next
    case (Cons m ms')
    obtain q where "join (map ?p ms) = ?p m @ q" using join_Cons_app [of "?p m"] Cons by auto
    then have "\<exists>l. skip (join (map ?p ms) @ nl @ CHR ''}'' # r) = CHR 0x22 # l"
      using u by (cases m) (simp add: print_string_def)
    moreover have "parse_members k' (join (map ?p ms) @ nl @ CHR ''}'' # r) = Some (ms, r)"
    proof (rule parse_members_print)
      fix j k r
      assume j: "j \<in> snd ` set ms" and "ends_number r" "2 * length (print_with deeper sp ?u j) \<le> k"
      moreover from j JObj.prems(1) have "wf_json j" by (auto simp: list_all_iff)
      moreover from j obtain x where "x \<in> set ms" "j = snd x" by blast
      ultimately show "parse_value k (print_with deeper sp ?u j @ r) = Some (j, r)"
        using JObj.IH [of x j] u by (cases x) auto
    qed (use JObj.prems k Cons u assms(5) in auto)
    ultimately show ?thesis using k Cons by auto
  qed
qed (auto simp: expect_def print_string_def parse_escape, (case_tac k; simp add: expect_def parse_escape)+)

lemma parse_value_print:
  assumes "wf_json j" and "ends_number r" and "2 * length (print_json j) \<le> k"
  shows "parse_value k (print_json j @ r) = Some (j, r)"
  using parse_value_with [of j r "\<lambda>_. []" "[]" "[]" k] assms by (simp add: print_json_with)

text \<open>
  Parsing inverts printing: every tree with well-formed number literals, whatever bytes its
  strings and keys hold.
\<close>

lemma json_roundtrip [simp]:
  assumes "wf_json j"
  shows "json_parse (json_print j) = Some j"
  using parse_value_print [OF assms, of "[]" "Suc (2 * length (print_json j))"]
  by (simp add: json_parse_def json_print_def skip_def)

lemma json_indent_roundtrip [simp]:
  assumes "wf_json j"
  shows "json_parse (json_print_indent j) = Some j"
proof -
  let ?s = "print_with (\<lambda>nl. nl @ ''  '') '' '' [CHR 0x0A] j"
  have "parse_value (Suc (2 * length ?s)) (?s @ []) = Some (j, [])"
    using assms by (intro parse_value_with) (simp_all add: is_space_def ends_number_def)
  then show ?thesis by (simp add: json_parse_def json_print_indent_def skip_def del: parse_value.simps)
qed

end
