(* ===== verification/Ipc_Rpc.thy ===== *)
theory Ipc_Rpc
  imports Json Ipc_Codec "HOL-Library.List_Lexorder" "HOL-Library.Char_ord"
begin

text \<open>
  \<open>internal/ipc/rpc.go\<close>: JSON-RPC envelopes. A \<open>json.RawMessage\<close> is the tree it holds
  (\<open>None\<close> when it is nil); an \<open>any\<close> is the tree with its numbers as \<open>float64\<close> and its
  objects as maps. \<open>float\<close> is the round trip of a number literal through \<open>float64\<close>
  (\<open>None\<close> out of range), a parameter.
\<close>

section \<open>Messages\<close>

definition protocolVersion :: string where
  "protocolVersion = ''2.0''"

record rpc_error =
  Code :: int
  Message :: string
  Data :: "json option"

record request =
  ReqID :: json
  ReqMethod :: string
  ReqParams :: "json option"

record response =
  RespID :: json
  Result :: "json option"
  Error :: "rpc_error option"

record notification =
  NotMethod :: string
  NotParams :: "json option"

datatype message =
    MessageRequest request
  | MessageNotification notification
  | MessageResponse response

section \<open>Encoding\<close>

definition show_int :: "int \<Rightarrow> string" where
  "show_int n = (if n < 0 then CHR ''-'' # show_nat (nat (- n)) else show_nat (nat n))"

text \<open>A field with \<open>omitempty\<close>.\<close>

definition opt_field :: "string \<Rightarrow> json option \<Rightarrow> (string \<times> json) list" where
  "opt_field name v = (case v of None \<Rightarrow> [] | Some j \<Rightarrow> [(name, j)])"

definition rpc_error_json :: "rpc_error \<Rightarrow> json" where
  "rpc_error_json e =
     JObj ([(''code'', JNum (show_int (Code e))), (''message'', JStr (Message e))] @ opt_field ''data'' (Data e))"

definition request_json :: "request \<Rightarrow> json" where
  "request_json r =
     JObj ([(''jsonrpc'', JStr protocolVersion), (''id'', ReqID r), (''method'', JStr (ReqMethod r))] @
       opt_field ''params'' (ReqParams r))"

definition notification_json :: "notification \<Rightarrow> json" where
  "notification_json n =
     JObj ([(''jsonrpc'', JStr protocolVersion), (''method'', JStr (NotMethod n))] @
       opt_field ''params'' (NotParams n))"

definition response_json :: "response \<Rightarrow> json" where
  "response_json r =
     JObj ([(''jsonrpc'', JStr protocolVersion), (''id'', RespID r)] @ opt_field ''result'' (Result r) @
       opt_field ''error'' (map_option rpc_error_json (Error r)))"

definition encode_request :: "request \<Rightarrow> bytes" where
  "encode_request r = json_print (request_json r)"

definition encode_notification :: "notification \<Rightarrow> bytes" where
  "encode_notification n = json_print (notification_json n)"

definition encode_response :: "response \<Rightarrow> bytes" where
  "encode_response r = json_print (response_json r)"

section \<open>Decoding a struct\<close>

text \<open>
  \<open>json.Unmarshal\<close> into a struct: members in order, a key matching a field by ASCII case
  folding, a later member overwriting an earlier one, \<open>null\<close> leaving a string or a number
  as it is and a pointer nil, a value of another type an error; unknown keys are skipped.
\<close>

definition lower_char :: "char \<Rightarrow> char" where
  "lower_char c = (let n = of_char c :: nat in if 65 \<le> n \<and> n \<le> 90 then char_of (n + 32) else c)"

definition key_is :: "string \<Rightarrow> string \<Rightarrow> bool" where
  "key_is name k \<longleftrightarrow> List.map lower_char k = name"

definition set_string :: "string \<Rightarrow> json \<Rightarrow> string option" where
  "set_string old j = (case j of JNull \<Rightarrow> Some old | JStr s \<Rightarrow> Some s | _ \<Rightarrow> None)"

definition parse_int_literal :: "string \<Rightarrow> int option" where
  "parse_int_literal s =
     (let (neg, ds) = (case s of c # r \<Rightarrow> if c = CHR ''-'' then (True, r) else (False, s) | [] \<Rightarrow> (False, s));
          n = (if neg then - int (read_nat ds) else int (read_nat ds)) in
      if ds \<noteq> [] \<and> list_all is_digit ds \<and> - (2 ^ 63) \<le> n \<and> n < 2 ^ 63 then Some n else None)"

definition set_int :: "int \<Rightarrow> json \<Rightarrow> int option" where
  "set_int old j = (case j of JNull \<Rightarrow> Some old | JNum lit \<Rightarrow> parse_int_literal lit | _ \<Rightarrow> None)"

fun decode_rpc_error :: "(string \<times> json) list \<Rightarrow> rpc_error \<Rightarrow> rpc_error option" where
  "decode_rpc_error [] e = Some e"
| "decode_rpc_error ((k, j) # ms) e =
     (if key_is ''code'' k
      then Option.bind (set_int (Code e) j) (\<lambda>n. decode_rpc_error ms (e\<lparr>Code := n\<rparr>))
      else if key_is ''message'' k
      then Option.bind (set_string (Message e) j) (\<lambda>s. decode_rpc_error ms (e\<lparr>Message := s\<rparr>))
      else if key_is ''data'' k then decode_rpc_error ms (e\<lparr>Data := Some j\<rparr>)
      else decode_rpc_error ms e)"

definition zero_rpc_error :: rpc_error where
  "zero_rpc_error = \<lparr>Code = 0, Message = [], Data = None\<rparr>"

definition set_rpc_error :: "rpc_error option \<Rightarrow> json \<Rightarrow> rpc_error option option" where
  "set_rpc_error old j =
     (case j of
        JNull \<Rightarrow> Some None
      | JObj ms \<Rightarrow> map_option Some (decode_rpc_error ms (case old of None \<Rightarrow> zero_rpc_error | Some e \<Rightarrow> e))
      | _ \<Rightarrow> None)"

record envelope =
  JSONRPC :: string
  EnvID :: "json option"
  EnvMethod :: string
  EnvParams :: "json option"
  EnvResult :: "json option"
  EnvError :: "rpc_error option"

definition zero_envelope :: envelope where
  "zero_envelope = \<lparr>JSONRPC = [], EnvID = None, EnvMethod = [], EnvParams = None, EnvResult = None, EnvError = None\<rparr>"

fun decode_envelope :: "(string \<times> json) list \<Rightarrow> envelope \<Rightarrow> envelope option" where
  "decode_envelope [] e = Some e"
| "decode_envelope ((k, j) # ms) e =
     (if key_is ''jsonrpc'' k
      then Option.bind (set_string (JSONRPC e) j) (\<lambda>s. decode_envelope ms (e\<lparr>JSONRPC := s\<rparr>))
      else if key_is ''id'' k then decode_envelope ms (e\<lparr>EnvID := Some j\<rparr>)
      else if key_is ''method'' k
      then Option.bind (set_string (EnvMethod e) j) (\<lambda>s. decode_envelope ms (e\<lparr>EnvMethod := s\<rparr>))
      else if key_is ''params'' k then decode_envelope ms (e\<lparr>EnvParams := Some j\<rparr>)
      else if key_is ''result'' k then decode_envelope ms (e\<lparr>EnvResult := Some j\<rparr>)
      else if key_is ''error'' k
      then Option.bind (set_rpc_error (EnvError e) j) (\<lambda>x. decode_envelope ms (e\<lparr>EnvError := x\<rparr>))
      else decode_envelope ms e)"

definition unmarshal_envelope :: "bytes \<Rightarrow> envelope option" where
  "unmarshal_envelope payload =
     (case json_parse payload of
        Some (JObj ms) \<Rightarrow> decode_envelope ms zero_envelope
      | Some JNull \<Rightarrow> Some zero_envelope
      | _ \<Rightarrow> None)"

text \<open>Into an \<open>any\<close>: numbers through \<open>float64\<close>, objects as maps (keys sorted when printed).\<close>

fun put_member :: "string \<Rightarrow> json \<Rightarrow> (string \<times> json) list \<Rightarrow> (string \<times> json) list" where
  "put_member k j [] = [(k, j)]"
| "put_member k j ((k', j') # ms) =
     (if k = k' then (k, j) # ms
      else if k < k' then (k, j) # (k', j') # ms
      else (k', j') # put_member k j ms)"

fun any_value :: "(string \<Rightarrow> string option) \<Rightarrow> json \<Rightarrow> json option"
  and any_values :: "(string \<Rightarrow> string option) \<Rightarrow> json list \<Rightarrow> json list option"
  and any_members :: "(string \<Rightarrow> string option) \<Rightarrow> (string \<times> json) list \<Rightarrow> (string \<times> json) list \<Rightarrow> (string \<times> json) list option" where
  "any_value float JNull = Some JNull"
| "any_value float (JBool b) = Some (JBool b)"
| "any_value float (JNum lit) = map_option JNum (float lit)"
| "any_value float (JStr s) = Some (JStr s)"
| "any_value float (JArr js) = map_option JArr (any_values float js)"
| "any_value float (JObj ms) = map_option JObj (any_members float ms [])"
| "any_values float [] = Some []"
| "any_values float (j # js) =
     Option.bind (any_value float j) (\<lambda>j. map_option (\<lambda>js. j # js) (any_values float js))"
| "any_members float [] acc = Some acc"
| "any_members float ((k, j) # ms) acc =
     Option.bind (any_value float j) (\<lambda>j. any_members float ms (put_member k j acc))"

section \<open>DecodeMessage\<close>

definition invalid_message :: "string \<Rightarrow> go_error" where
  "invalid_message why = Wrapf why ErrInvalidMessage"

definition decode_message :: "(string \<Rightarrow> string option) \<Rightarrow> bytes \<Rightarrow> go_error + message" where
  "decode_message float payload =
     (case unmarshal_envelope payload of
        None \<Rightarrow> Inl (invalid_message ''unmarshal'')
      | Some env \<Rightarrow>
          if EnvResult env \<noteq> None \<or> EnvError env \<noteq> None then
            (case (case EnvID env of None \<Rightarrow> Some JNull | Some j \<Rightarrow> any_value float j) of
               None \<Rightarrow> Inl (invalid_message ''bad id'')
             | Some i \<Rightarrow>
                 Inr (MessageResponse \<lparr>RespID = i, Result = EnvResult env, Error = EnvError env\<rparr>))
          else if EnvMethod env = [] then Inl (invalid_message ''missing method'')
          else
            (case EnvID env of
               None \<Rightarrow> Inr (MessageNotification \<lparr>NotMethod = EnvMethod env, NotParams = EnvParams env\<rparr>)
             | Some j \<Rightarrow>
                 (case any_value float j of
                    None \<Rightarrow> Inl (invalid_message ''bad id'')
                  | Some i \<Rightarrow>
                      Inr (MessageRequest \<lparr>ReqID = i, ReqMethod = EnvMethod env, ReqParams = EnvParams env\<rparr>))))"

lemma errors_is_invalid_message [simp]: "errors_is (invalid_message why) ErrInvalidMessage"
  by (simp add: invalid_message_def)

section \<open>Round trip\<close>

lemma lower_id: "list_all (\<lambda>c. (of_char c :: nat) > 90) k \<Longrightarrow> map lower_char k = k"
  by (induction k) (simp_all add: lower_char_def)

lemma key_is_same [simp]:
  "key_is ''jsonrpc'' ''jsonrpc''" "key_is ''id'' ''id''" "key_is ''method'' ''method''"
  "key_is ''params'' ''params''" "key_is ''result'' ''result''" "key_is ''error'' ''error''"
  "key_is ''code'' ''code''" "key_is ''message'' ''message''" "key_is ''data'' ''data''"
  by (simp_all add: key_is_def lower_char_def)

lemma key_is_diff [simp]:
  "key_is n ''jsonrpc'' \<longleftrightarrow> n = ''jsonrpc''" "key_is n ''id'' \<longleftrightarrow> n = ''id''"
  "key_is n ''method'' \<longleftrightarrow> n = ''method''" "key_is n ''params'' \<longleftrightarrow> n = ''params''"
  "key_is n ''result'' \<longleftrightarrow> n = ''result''" "key_is n ''error'' \<longleftrightarrow> n = ''error''"
  "key_is n ''code'' \<longleftrightarrow> n = ''code''" "key_is n ''message'' \<longleftrightarrow> n = ''message''"
  "key_is n ''data'' \<longleftrightarrow> n = ''data''"
  by (auto simp: key_is_def lower_char_def)

lemma show_nat_head: "0 < n \<Longrightarrow> \<exists>c r. show_nat n = c # r \<and> c \<noteq> CHR ''0''"
proof (induction n rule: show_nat.induct)
  case (1 n)
  show ?case
  proof (cases "n < 10")
    case True
    have "(of_char (CHR ''0'') :: nat) = 48" by simp
    then have "digit_char n \<noteq> CHR ''0''"
      using True "1.prems" of_digit_char [of n] by (metis add_cancel_left_right less_irrefl)
    with True show ?thesis by (simp add: show_nat_small)
  next
    case False
    then have "0 < n div 10" by (simp add: div_greater_zero_iff)
    with 1 False obtain c r where "show_nat (n div 10) = c # r" "c \<noteq> CHR ''0''" by blast
    with False show ?thesis by (simp add: show_nat_step)
  qed
qed

lemma digits_dropWhile: "list_all is_digit s \<Longrightarrow> dropWhile is_digit s = []"
  by (induction s) simp_all

lemma valid_digits: "list_all is_digit (c # r) \<Longrightarrow> c \<noteq> CHR ''0'' \<or> r = [] \<Longrightarrow> valid_number (c # r)"
  by (cases "c = CHR ''-''")
    (auto simp: valid_number_def digits1_def digits_dropWhile is_digit_def Let_def)

lemma valid_negative: "valid_number (c # r) \<Longrightarrow> is_digit c \<Longrightarrow> valid_number (CHR ''-'' # c # r)"
  by (cases "c = CHR ''-''") (auto simp: valid_number_def Let_def is_digit_def)

lemma digits_num_char: "list_all is_digit s \<Longrightarrow> list_all num_char s"
  by (auto simp: list_all_iff num_char_def)

lemma show_nat_valid: "valid_number (show_nat n)"
proof -
  obtain c r where s: "show_nat n = c # r" by (cases "show_nat n") auto
  have "c \<noteq> CHR ''0'' \<or> r = []"
  proof (cases "n = 0")
    case True
    then show ?thesis using s by (simp add: show_nat_small)
  next
    case False
    then show ?thesis using s show_nat_head [of n] by auto
  qed
  with show_nat_digits [of n] s show ?thesis by (metis valid_digits)
qed

lemma wf_show_int: "wf_json (JNum (show_int n))"
proof -
  obtain c r where s: "show_nat (nat (- n)) = c # r" by (cases "show_nat (nat (- n))") auto
  then have "is_digit c" using show_nat_digits [of "nat (- n)"] by simp
  then show ?thesis
    using show_nat_valid [of "nat (- n)"] show_nat_valid [of "nat n"] s
      digits_num_char [OF show_nat_digits [of "nat n"]] digits_num_char [OF show_nat_digits [of "nat (- n)"]]
      valid_negative [of c r]
    by (auto simp: show_int_def num_char_def)
qed

lemma parse_int_show_int:
  assumes "- (2 ^ 63) \<le> n" and "n < 2 ^ 63"
  shows "parse_int_literal (show_int n) = Some n"
proof (cases "n < 0")
  case True
  then show ?thesis
    using assms show_nat_digits [of "nat (- n)"] by (simp add: parse_int_literal_def show_int_def Let_def)
next
  case False
  obtain c r where s: "show_nat (nat n) = c # r" by (cases "show_nat (nat n)") auto
  then have "c \<noteq> CHR ''-''" using show_nat_digits [of "nat n"] by (auto simp: is_digit_def)
  moreover have "read_nat (c # r) = nat n" using s read_show_nat [of "nat n"] by simp
  ultimately show ?thesis
    using False assms s show_nat_digits [of "nat n"] by (simp add: parse_int_literal_def show_int_def Let_def)
qed

text \<open>The messages whose parts survive the trip.\<close>

definition wf_raw :: "json option \<Rightarrow> bool" where
  "wf_raw v \<longleftrightarrow> (case v of None \<Rightarrow> True | Some j \<Rightarrow> wf_json j)"

definition wf_rpc_error :: "rpc_error \<Rightarrow> bool" where
  "wf_rpc_error e \<longleftrightarrow> - (2 ^ 63) \<le> Code e \<and> Code e < 2 ^ 63 \<and> wf_raw (Data e)"

definition wf_id :: "(string \<Rightarrow> string option) \<Rightarrow> json \<Rightarrow> bool" where
  "wf_id float j \<longleftrightarrow> wf_json j \<and> any_value float j = Some j"

fun wf_message :: "(string \<Rightarrow> string option) \<Rightarrow> message \<Rightarrow> bool" where
  "wf_message float (MessageRequest r) \<longleftrightarrow>
     ReqMethod r \<noteq> [] \<and> wf_id float (ReqID r) \<and> wf_raw (ReqParams r)"
| "wf_message float (MessageNotification n) \<longleftrightarrow> NotMethod n \<noteq> [] \<and> wf_raw (NotParams n)"
| "wf_message float (MessageResponse r) \<longleftrightarrow>
     wf_id float (RespID r) \<and> (Result r \<noteq> None \<or> Error r \<noteq> None) \<and> wf_raw (Result r) \<and>
     (case Error r of None \<Rightarrow> True | Some e \<Rightarrow> wf_rpc_error e)"

fun encode_message :: "message \<Rightarrow> bytes" where
  "encode_message (MessageRequest r) = encode_request r"
| "encode_message (MessageNotification n) = encode_notification n"
| "encode_message (MessageResponse r) = encode_response r"

lemma wf_opt_field: "wf_raw v \<Longrightarrow> list_all (\<lambda>(k, j). wf_json j) (opt_field name v)"
  by (auto simp: wf_raw_def opt_field_def split: option.splits)

lemma set_rpc_error_json:
  "wf_rpc_error e \<Longrightarrow> set_rpc_error None (rpc_error_json e) = Some (Some e) \<and> wf_json (rpc_error_json e)"
  using wf_show_int [of "Code e"]
  by (cases e) (auto simp: set_rpc_error_def rpc_error_json_def wf_rpc_error_def set_int_def set_string_def
      parse_int_show_int zero_rpc_error_def opt_field_def wf_raw_def split: option.splits)

lemma unmarshal_printed:
  "wf_json (JObj ms) \<Longrightarrow> unmarshal_envelope (json_print (JObj ms)) = decode_envelope ms zero_envelope"
  unfolding unmarshal_envelope_def by (simp only: json_roundtrip option.case json.case)

lemma unmarshal_request:
  "wf_id float (ReqID r) \<Longrightarrow> wf_raw (ReqParams r) \<Longrightarrow>
   unmarshal_envelope (encode_request r) =
     Some \<lparr>JSONRPC = protocolVersion, EnvID = Some (ReqID r), EnvMethod = ReqMethod r,
       EnvParams = ReqParams r, EnvResult = None, EnvError = None\<rparr>"
  unfolding encode_request_def request_json_def
  by (subst unmarshal_printed)
    (auto simp: wf_id_def wf_raw_def opt_field_def set_string_def zero_envelope_def split: option.splits)

lemma unmarshal_notification:
  "wf_raw (NotParams n) \<Longrightarrow>
   unmarshal_envelope (encode_notification n) =
     Some \<lparr>JSONRPC = protocolVersion, EnvID = None, EnvMethod = NotMethod n,
       EnvParams = NotParams n, EnvResult = None, EnvError = None\<rparr>"
  unfolding encode_notification_def notification_json_def
  by (subst unmarshal_printed)
    (auto simp: wf_raw_def opt_field_def set_string_def zero_envelope_def split: option.splits)

lemma unmarshal_response:
  assumes "wf_id float (RespID r)" and "wf_raw (Result r)"
    and "case Error r of None \<Rightarrow> True | Some e \<Rightarrow> wf_rpc_error e"
  shows "unmarshal_envelope (encode_response r) =
     Some \<lparr>JSONRPC = protocolVersion, EnvID = Some (RespID r), EnvMethod = [],
       EnvParams = None, EnvResult = Result r, EnvError = Error r\<rparr>"
  unfolding encode_response_def response_json_def
  using assms set_rpc_error_json
  by (subst unmarshal_printed)
    (auto simp: wf_id_def wf_raw_def opt_field_def set_string_def zero_envelope_def split: option.splits)

section \<open>Properties of the envelopes\<close>

lemma message_decodes:
  assumes "wf_message float m"
  shows "decode_message float (encode_message m) = Inr m"
proof (cases m)
  case (MessageRequest r)
  with assms show ?thesis
    using unmarshal_request [of float r] by (simp add: decode_message_def wf_id_def)
next
  case (MessageNotification n)
  with assms show ?thesis
    using unmarshal_notification [of n] by (simp add: decode_message_def)
next
  case (MessageResponse r)
  with assms show ?thesis
    using unmarshal_response [of float r] by (auto simp: decode_message_def wf_id_def)
qed

text \<open>
  C35: messages survive the wire. A request or notification with a method, and a response
  with a result or an error, is decoded from its own encoding as the same kind of message
  with the same id, method, parameters, result and error, for every id that
  survives \<open>any\<close> (a string, say) and every parameter tree.
\<close>

theorem message_roundtrip:
  assumes "wf_message float m"
  shows "decode_message float (encode_message m) = Inr m"
  by (rule message_decodes [OF assms])

theorem message_roundtrip_witness:
  "decode_message Some (encode_message (MessageRequest
     \<lparr>ReqID = JStr ''xqs-vnc-1'', ReqMethod = ''channel.open'', ReqParams = Some (JObj [(''hint'', JStr ''a<b'')])\<rparr>)) =
   Inr (MessageRequest
     \<lparr>ReqID = JStr ''xqs-vnc-1'', ReqMethod = ''channel.open'', ReqParams = Some (JObj [(''hint'', JStr ''a<b'')])\<rparr>)"
  by (rule message_roundtrip) (simp add: wf_id_def wf_raw_def)

text \<open>
  how a payload is classified. A decoded object is a response exactly when it has a
  result member or a non-null error, whatever else it has (even both, or a method); otherwise it needs a
  non-empty method and is a request exactly when it has an id member, \<open>null\<close> included. The
  \<open>jsonrpc\<close> member is never looked at.
\<close>

theorem message_classification:
  assumes "unmarshal_envelope payload = Some env"
  shows "case decode_message float payload of
      Inr (MessageResponse r) \<Rightarrow> (EnvResult env \<noteq> None \<or> EnvError env \<noteq> None) \<and>
        Result r = EnvResult env \<and> Error r = EnvError env
    | Inr (MessageRequest r) \<Rightarrow> EnvResult env = None \<and> EnvError env = None \<and> EnvID env \<noteq> None \<and>
        ReqMethod r = EnvMethod env \<and> EnvMethod env \<noteq> [] \<and> ReqParams r = EnvParams env
    | Inr (MessageNotification n) \<Rightarrow> EnvResult env = None \<and> EnvError env = None \<and> EnvID env = None \<and>
        NotMethod n = EnvMethod env \<and> EnvMethod env \<noteq> [] \<and> NotParams n = EnvParams env
    | Inl e \<Rightarrow> errors_is e ErrInvalidMessage \<and>
        ((EnvResult env = None \<and> EnvError env = None \<and> EnvMethod env = []) \<or>
         (\<exists>j. EnvID env = Some j \<and> any_value float j = None))"
  using assms
  by (auto simp: decode_message_def split: option.splits)

theorem message_classification_witness:
  "case decode_message Some (bytes_of ''{}'') of Inr _ \<Rightarrow> False | Inl e \<Rightarrow> errors_is e ErrInvalidMessage"
proof -
  have "unmarshal_envelope (bytes_of ''{}'') = Some zero_envelope"
    using unmarshal_printed [of "[]"] by (simp add: json_print_def join_def)
  from message_classification [OF this, of Some] show ?thesis
    by (auto simp: zero_envelope_def split: sum.splits message.splits)
qed

end
