(* ===== verification/Ipc_Client.thy ===== *)
theory Ipc_Client
  imports Ipc_Rpc "HOL-Library.Multiset"
begin

text \<open>
  \<open>internal/ipc/client.go\<close>: the JSON-RPC client. Calls wait on a one-place channel that
  \<open>Deliver\<close> fills by id; the interleaving of calls, deliveries and timeouts is a step
  relation.
\<close>

section \<open>The client\<close>

text \<open>
  \<open>pending\<close> is the set of registered ids; \<open>slot\<close> is the content of the one-place channel of
  each call (ids are never reused, so it outlives its registration).
\<close>

record client =
  idSeq :: int
  pending :: "string set"
  slot :: "string \<rightharpoonup> response"

definition new_client :: client where
  "new_client = \<lparr>idSeq = 0, pending = {}, slot = Map.empty\<rparr>"

definition call_id :: "int \<Rightarrow> string" where
  "call_id n = ''xqs-vnc-'' @ show_int n"

definition next_id :: "client \<Rightarrow> string \<times> client" where
  "next_id c = (let n = int64 (idSeq c + 1) in (call_id n, c\<lparr>idSeq := n\<rparr>))"

definition register_call :: "string \<Rightarrow> client \<Rightarrow> client" where
  "register_call i c = c\<lparr>pending := insert i (pending c), slot := (slot c)(i := None)\<rparr>"

text \<open>The deferred \<open>delete(c.pending, id)\<close>.\<close>

definition unregister_call :: "string \<Rightarrow> client \<Rightarrow> client" where
  "unregister_call i c = c\<lparr>pending := pending c - {i}\<rparr>"

text \<open>\<open>Call\<close> up to its \<open>select\<close>: the id it waits on, or the error with which it returns.\<close>

definition call_begin ::
    "(kind \<Rightarrow> u32 \<Rightarrow> bytes \<Rightarrow> 's \<Rightarrow> (unit, 's) outcome) \<Rightarrow> string \<Rightarrow> json option \<Rightarrow> client \<Rightarrow> 's \<Rightarrow>
     (go_error + string) \<times> client \<times> 's" where
  "call_begin enc method params c s =
     (let (i, c) = next_id c;
          c = register_call i c;
          payload = encode_request \<lparr>ReqID = JStr i, ReqMethod = method, ReqParams = params\<rparr> in
      case enc KindJSONRPC 0 payload s of
        (Inl err, s) \<Rightarrow> (Inl (Wrapf ''ipc: client: send request %s'' err), unregister_call i c, s)
      | (Inr _, s) \<Rightarrow> (Inr i, c, s))"

text \<open>
  The two cases of the \<open>select\<close>. \<open>unm\<close> is \<open>json.Unmarshal\<close> of the result member into the
  caller's struct, whose zero value is \<open>zero\<close>.
\<close>

definition call_result :: "(json \<Rightarrow> 'r option) \<Rightarrow> 'r \<Rightarrow> response \<Rightarrow> go_error + 'r" where
  "call_result unm zero resp =
     (case Error resp of
        Some e \<Rightarrow> Inl (RPCError (Code e) (Message e))
      | None \<Rightarrow>
         (case Result resp of
            None \<Rightarrow> Inr zero
          | Some j \<Rightarrow>
             (case unm j of
                None \<Rightarrow> Inl (Wrapf ''ipc: client: decode result for %s'' ErrInvalidMessage)
              | Some r \<Rightarrow> Inr r)))"

definition call_answered :: "string \<Rightarrow> client \<Rightarrow> (response \<times> client) option" where
  "call_answered i c =
     map_option (\<lambda>resp. (resp, unregister_call i (c\<lparr>slot := (slot c)(i := None)\<rparr>))) (slot c i)"

definition call_expired :: "string \<Rightarrow> client \<Rightarrow> go_error \<times> client" where
  "call_expired i c = (Wrapf ''ipc: client: call %s'' (TimeoutError ''context deadline exceeded''), unregister_call i c)"

definition notify ::
    "(kind \<Rightarrow> u32 \<Rightarrow> bytes \<Rightarrow> 's \<Rightarrow> (unit, 's) outcome) \<Rightarrow> string \<Rightarrow> json option \<Rightarrow> 's \<Rightarrow> (unit, 's) outcome" where
  "notify enc method params s =
     io_wrap (Wrapf ''ipc: client: send notification %s'')
       (enc KindJSONRPC 0 (encode_notification \<lparr>NotMethod = method, NotParams = params\<rparr>) s)"

text \<open>
  \<open>Deliver\<close>: the lookup under the lock, then the non-blocking send into the call's channel.
\<close>

definition deliver_lookup :: "response \<Rightarrow> client \<Rightarrow> string option" where
  "deliver_lookup resp c =
     (case RespID resp of
        JStr i \<Rightarrow> if i \<in> pending c then Some i else None
      | _ \<Rightarrow> None)"

definition deliver_put :: "string \<Rightarrow> response \<Rightarrow> client \<Rightarrow> bool \<times> client" where
  "deliver_put i resp c =
     (case slot c i of
        None \<Rightarrow> (True, c\<lparr>slot := (slot c)(i \<mapsto> resp)\<rparr>)
      | Some _ \<Rightarrow> (False, c))"

definition deliver :: "response \<Rightarrow> client \<Rightarrow> bool \<times> client" where
  "deliver resp c =
     (case deliver_lookup resp c of
        None \<Rightarrow> (False, c)
      | Some i \<Rightarrow> deliver_put i resp c)"

section \<open>Concurrent calls\<close>

text \<open>
  \<open>calls\<close> counts the calls made; \<open>waiting\<close> are the ids of the calls in their \<open>select\<close>, \<open>found\<close> the deliveries between
  lookup and send, \<open>answers\<close> what calls have returned with, in order.
\<close>

record client_system =
  cl :: client
  waiting :: "string set"
  found :: "(string \<times> response) multiset"
  answers :: "(string \<times> response) list"
  calls :: nat

inductive client_step :: "client_system \<Rightarrow> client_system \<Rightarrow> bool" where
  begun: "next_id (cl w) = (i, c) \<Longrightarrow>
    client_step w (w\<lparr>cl := register_call i c, waiting := insert i (waiting w), calls := Suc (calls w)\<rparr>)"
| unsent: "next_id (cl w) = (i, c) \<Longrightarrow>
    client_step w (w\<lparr>cl := unregister_call i (register_call i c), calls := Suc (calls w)\<rparr>)"
| looked: "deliver_lookup resp (cl w) = Some i \<Longrightarrow>
    client_step w (w\<lparr>found := add_mset (i, resp) (found w)\<rparr>)"
| put: "(i, resp) \<in># found w \<Longrightarrow> deliver_put i resp (cl w) = (b, c) \<Longrightarrow>
    client_step w (w\<lparr>cl := c, found := found w - {#(i, resp)#}\<rparr>)"
| answered: "i \<in> waiting w \<Longrightarrow> call_answered i (cl w) = Some (resp, c) \<Longrightarrow>
    client_step w (w\<lparr>cl := c, waiting := waiting w - {i}, answers := answers w @ [(i, resp)]\<rparr>)"
| expired: "i \<in> waiting w \<Longrightarrow>
    client_step w (w\<lparr>cl := snd (call_expired i (cl w)), waiting := waiting w - {i}\<rparr>)"

definition client_start :: client_system where
  "client_start = \<lparr>cl = new_client, waiting = {}, found = {#}, answers = [], calls = 0\<rparr>"

lemma call_id_inject [simp]: "call_id m = call_id n \<longleftrightarrow> m = n"
proof -
  have d: "CHR ''-'' \<noteq> hd (show_nat k)" for k
    using show_nat_digits [of k] by (cases "show_nat k") (auto simp: is_digit_def)
  have "show_int m = show_int n \<longleftrightarrow> m = n"
    using d by (auto simp: show_int_def) (metis list.sel(1))+
  then show ?thesis by (simp add: call_id_def)
qed

text \<open>Issued ids are those of the sequence numbers so far.\<close>

definition issued :: "client \<Rightarrow> string set" where
  "issued c = call_id ` {1..idSeq c}"

definition client_inv :: "client_system \<Rightarrow> bool" where
  "client_inv w \<longleftrightarrow>
     idSeq (cl w) = int (calls w) \<and> pending (cl w) = waiting w \<and> waiting w \<subseteq> issued (cl w) \<and>
     (\<forall>i r. slot (cl w) i = Some r \<longrightarrow> i \<in> issued (cl w) \<and> RespID r = JStr i) \<and>
     (\<forall>(i, r) \<in># found w. i \<in> issued (cl w) \<and> RespID r = JStr i) \<and>
     (\<forall>(i, r) \<in> set (answers w). i \<in> issued (cl w) \<and> RespID r = JStr i \<and> i \<notin> waiting w) \<and>
     distinct (map fst (answers w))"

lemma next_id_fresh:
  assumes "next_id c = (i, c')" and "0 \<le> idSeq c" and "idSeq c + 1 < 2 ^ 63"
  shows "c' = c\<lparr>idSeq := idSeq c + 1\<rparr> \<and> i = call_id (idSeq c + 1) \<and> i \<notin> issued c \<and>
    issued c' = insert i (issued c)"
proof -
  have "int64 (idSeq c + 1) = idSeq c + 1" using assms(2,3) by (intro int64_id) simp_all
  moreover have "{1..idSeq c + 1} = insert (idSeq c + 1) {1..idSeq c}"
    using assms(2) by (auto simp: atLeastAtMostPlus1_int_conv)
  ultimately show ?thesis
    using assms(1) by (auto simp: next_id_def Let_def issued_def)
qed

lemma issued_simps [simp]:
  "issued (register_call i c) = issued c" "issued (unregister_call i c) = issued c"
  "issued (c\<lparr>slot := f\<rparr>) = issued c" "issued (c\<lparr>pending := P\<rparr>) = issued c"
  by (simp_all add: issued_def register_call_def unregister_call_def)

lemma client_inv_step:
  assumes "client_step w w'" and "client_inv w" and "int (calls w') < 2 ^ 63"
  shows "client_inv w'"
  using assms(1)
proof cases
  case (begun i c)
  with assms(2,3) next_id_fresh [of "cl w" i c] show ?thesis
    by (auto simp: client_inv_def register_call_def)
next
  case (unsent i c)
  with assms(2,3) next_id_fresh [of "cl w" i c] show ?thesis
    by (auto simp: client_inv_def register_call_def unregister_call_def)
next
  case (looked resp i)
  with assms(2) show ?thesis
    by (auto simp: client_inv_def deliver_lookup_def split: json.splits if_splits)
next
  case (put i resp b c)
  with assms(2) have "i \<in> issued (cl w)" "RespID resp = JStr i"
    by (auto simp: client_inv_def)
  moreover obtain F where "found w = add_mset (i, resp) F"
    using put by (metis insert_DiffM)
  ultimately show ?thesis
    using put assms(2) by (auto simp: client_inv_def deliver_put_def split: option.splits if_splits)
next
  case (answered i resp c)
  with assms(2) show ?thesis
    by (auto simp: client_inv_def call_answered_def unregister_call_def split: if_splits)
next
  case (expired i)
  with assms(2) show ?thesis
    by (auto simp: client_inv_def call_expired_def unregister_call_def)
qed

lemma calls_mono: "client_step w w' \<Longrightarrow> calls w \<le> calls w'"
  by (erule client_step.cases) simp_all

interpretation client: transition_invariant client_step "\<lambda>w. w = client_start"
  "\<lambda>w. int (calls w) < 2 ^ 63 \<longrightarrow> client_inv w"
proof
  fix w
  assume "w = client_start"
  then show "int (calls w) < 2 ^ 63 \<longrightarrow> client_inv w"
    by (simp add: client_inv_def client_start_def new_client_def issued_def)
next
  fix w w'
  assume inv: "int (calls w) < 2 ^ 63 \<longrightarrow> client_inv w" and st: "client_step w w'"
  show "int (calls w') < 2 ^ 63 \<longrightarrow> client_inv w'"
  proof
    assume "int (calls w') < 2 ^ 63"
    with calls_mono [OF st] inv client_inv_step [OF st] show "client_inv w'" by simp
  qed
qed

section \<open>Properties of the client\<close>

text \<open>
  C12: answers reach their own call. However calls, deliveries and timeouts interleave, every
  call that returns with a response returns with one whose id is the id of its request, no
  call returns twice, and the registered ids are exactly those of the calls still waiting,
  so none leaks. (The sequence number is 64 bits wide.)
\<close>

theorem call_response_correlation:
  assumes "client_step\<^sup>*\<^sup>* client_start w" and "int (calls w) < 2 ^ 63"
  shows "list_all (\<lambda>(i, r). RespID r = JStr i) (answers w) \<and> distinct (map fst (answers w)) \<and>
    pending (cl w) = waiting w \<and> set (map fst (answers w)) \<inter> waiting w = {}"
proof -
  have "client_inv w"
    using client.reachable_inv [OF refl assms(1)] assms(2) by simp
  then show ?thesis
    by (auto simp: client_inv_def list_all_iff)
qed

definition demo_response :: response where
  "demo_response = \<lparr>RespID = JStr (call_id 1), Result = Some JNull, Error = None\<rparr>"

lemma demo_client_run:
  "\<exists>w. client_step\<^sup>*\<^sup>* client_start w \<and> answers w = [(call_id 1, demo_response)] \<and> calls w = 1"
proof -
  let ?i = "call_id 1"
  let ?c1 = "\<lparr>idSeq = 1, pending = {?i}, slot = Map.empty\<rparr>"
  let ?w1 = "\<lparr>cl = ?c1, waiting = {?i}, found = {#}, answers = [], calls = 1\<rparr>"
  let ?w2 = "?w1\<lparr>found := {#(?i, demo_response)#}\<rparr>"
  let ?w3 = "?w1\<lparr>cl := ?c1\<lparr>slot := [?i \<mapsto> demo_response]\<rparr>\<rparr>"
  let ?w4 = "?w3\<lparr>cl := \<lparr>idSeq = 1, pending = {}, slot = Map.empty\<rparr>, waiting := {},
      answers := [(?i, demo_response)]\<rparr>"
  have "client_step client_start ?w1"
    using begun [of client_start ?i "new_client\<lparr>idSeq := 1\<rparr>"]
    by (simp add: next_id_def client_start_def new_client_def register_call_def Let_def)
  moreover have "client_step ?w1 ?w2"
    using looked [of demo_response ?w1 ?i] by (simp add: deliver_lookup_def demo_response_def)
  moreover have "client_step ?w2 ?w3"
    using put [of ?i demo_response ?w2 True "?c1\<lparr>slot := [?i \<mapsto> demo_response]\<rparr>"]
    by (simp add: deliver_put_def)
  moreover have "client_step ?w3 ?w4"
    using answered [of ?i ?w3 demo_response "\<lparr>idSeq = 1, pending = {}, slot = Map.empty\<rparr>"]
    by (simp add: call_answered_def unregister_call_def)
  ultimately have "client_step\<^sup>*\<^sup>* client_start ?w4"
    by (meson converse_rtranclp_into_rtranclp rtranclp.rtrancl_refl)
  then show ?thesis by (intro exI [of _ ?w4]) simp
qed

theorem call_response_correlation_witness:
  "\<exists>w :: client_system. answers w = [(call_id 1, demo_response)] \<and> list_all (\<lambda>(i, r). RespID r = JStr i) (answers w)"
proof -
  obtain w where w: "client_step\<^sup>*\<^sup>* client_start w" "answers w = [(call_id 1, demo_response)]" "calls w = 1"
    using demo_client_run by blast
  have "int (calls w) < 2 ^ 63" unfolding w(3) by simp
  with call_response_correlation [OF w(1)] w(2) show ?thesis by blast
qed

text \<open>
  \<open>Deliver\<close> places a response for exactly the registered call with its id, once, and
  drops every other one without a trace: it reports success exactly when the id is a string,
  a call with that id is registered and has no response yet.
\<close>

theorem deliver_spec:
  "(fst (deliver resp c) \<longleftrightarrow> (\<exists>i \<in> pending c. RespID resp = JStr i \<and> slot c i = None)) \<and>
   (if fst (deliver resp c) then \<exists>i. RespID resp = JStr i \<and> snd (deliver resp c) = c\<lparr>slot := (slot c)(i \<mapsto> resp)\<rparr>
    else snd (deliver resp c) = c)"
proof (cases "\<exists>i \<in> pending c. RespID resp = JStr i \<and> slot c i = None")
  case True
  then obtain i where i: "i \<in> pending c" "RespID resp = JStr i" "slot c i = None" by blast
  then have d: "deliver resp c = (True, c\<lparr>slot := (slot c)(i \<mapsto> resp)\<rparr>)"
    by (simp add: deliver_def deliver_lookup_def deliver_put_def)
  show ?thesis
    using i by (auto simp: d)
next
  case False
  then have d: "deliver resp c = (False, c)"
    by (auto simp: deliver_def deliver_lookup_def deliver_put_def split: json.split option.split)
  show ?thesis
    using False by (simp add: d)
qed

end
