(* ===== verification/Json_Struct.thy ===== *)
theory Json_Struct
  imports Ipc_Client
begin

text \<open>
  \<open>encoding/json\<close> on the parameter and result structs of the plugin: a struct is described by
  what one member does to it, and its decoder folds that over the members in order. Used by
  \<open>internal/transport/open.go\<close> and \<open>internal/session\<close>.
\<close>

section \<open>Fields\<close>

text \<open>A key names a field up to ASCII case; \<open>name\<close> is the tag, in its own spelling.\<close>

definition field_is :: "string \<Rightarrow> string \<Rightarrow> bool" where
  "field_is name k \<longleftrightarrow> map lower_char k = map lower_char name"

definition set_bool :: "bool \<Rightarrow> json \<Rightarrow> bool option" where
  "set_bool old j = (case j of JNull \<Rightarrow> Some old | JBool b \<Rightarrow> Some b | _ \<Rightarrow> None)"

definition set_u32 :: "u32 \<Rightarrow> json \<Rightarrow> u32 option" where
  "set_u32 old j =
     (case j of
        JNull \<Rightarrow> Some old
      | JNum lit \<Rightarrow>
          if lit \<noteq> [] \<and> list_all is_digit lit \<and> read_nat lit < 2 ^ 32 then Some (word_of_nat (read_nat lit)) else None
      | _ \<Rightarrow> None)"

text \<open>A \<open>float64\<close> is kept as the literal it prints as, the value of \<open>float\<close>.\<close>

definition set_float :: "(string \<Rightarrow> string option) \<Rightarrow> string \<Rightarrow> json \<Rightarrow> string option" where
  "set_float float old j = (case j of JNull \<Rightarrow> Some old | JNum lit \<Rightarrow> float lit | _ \<Rightarrow> None)"

text \<open>A string field with \<open>omitempty\<close>.\<close>

definition opt_string :: "string \<Rightarrow> string \<Rightarrow> (string \<times> json) list" where
  "opt_string name s = (if s = [] then [] else [(name, JStr s)])"

section \<open>Structs\<close>

fun struct_fold :: "(string \<Rightarrow> json \<Rightarrow> 'r \<Rightarrow> 'r option) \<Rightarrow> (string \<times> json) list \<Rightarrow> 'r \<Rightarrow> 'r option" where
  "struct_fold member [] r = Some r"
| "struct_fold member ((k, j) # ms) r = Option.bind (member k j r) (struct_fold member ms)"

definition unmarshal_struct :: "(string \<Rightarrow> json \<Rightarrow> 'r \<Rightarrow> 'r option) \<Rightarrow> 'r \<Rightarrow> json \<Rightarrow> 'r option" where
  "unmarshal_struct member zero j =
     (case j of JNull \<Rightarrow> Some zero | JObj ms \<Rightarrow> struct_fold member ms zero | _ \<Rightarrow> None)"

lemma unmarshal_struct_simps [simp]:
  "unmarshal_struct member zero JNull = Some zero"
  "unmarshal_struct member zero (JObj ms) = struct_fold member ms zero"
  "unmarshal_struct member zero (JBool b) = None"
  "unmarshal_struct member zero (JNum lit) = None"
  "unmarshal_struct member zero (JStr s) = None"
  "unmarshal_struct member zero (JArr js) = None"
  by (simp_all add: unmarshal_struct_def)

lemma set_bool_simps [simp]:
  "set_bool old JNull = Some old"
  "set_bool old (JBool b) = Some b"
  "set_bool old (JStr s) = None"
  "set_bool old (JNum lit) = None"
  "set_bool old (JArr js) = None"
  "set_bool old (JObj ms) = None"
  by (simp_all add: set_bool_def)

lemma set_string_simps [simp]:
  "set_string old JNull = Some old"
  "set_string old (JStr s) = Some s"
  "set_string old (JBool b) = None"
  "set_string old (JNum lit) = None"
  "set_string old (JArr js) = None"
  "set_string old (JObj ms) = None"
  by (simp_all add: set_string_def)

text \<open>The printed decimal of a 32-bit number is read back.\<close>

lemma set_u32_show [simp]: "set_u32 old (JNum (show_nat (unat i))) = Some i"
  using unsigned_less [of i, where 'a = nat] show_nat_digits [of "unat i"]
  by (simp add: set_u32_def)

lemma struct_fold_append:
  "struct_fold member (ms @ ns) r = Option.bind (struct_fold member ms r) (struct_fold member ns)"
proof (induction ms arbitrary: r)
  case (Cons m ms)
  then show ?case by (cases m; cases "member (fst m) (snd m) r") auto
qed simp

section \<open>The caller\<close>

text \<open>
  The interface \<open>RPCCaller\<close> of \<open>internal/transport/open.go\<close>: a request, answered with the
  host's response or a failure, and a notification. \<open>'h\<close> is the rest of the world: the host
  and the stream to it. Theory \<open>Ipc_Client\<close> models the implementation, \<open>ipc.Client\<close>.
\<close>

record 'h rpc_caller =
  Call :: "string \<Rightarrow> json \<Rightarrow> 'h \<Rightarrow> (response, 'h) outcome"
  Notify :: "string \<Rightarrow> json \<Rightarrow> 'h \<Rightarrow> (unit, 'h) outcome"

definition call_rpc ::
    "'h rpc_caller \<Rightarrow> string \<Rightarrow> json \<Rightarrow> (json \<Rightarrow> 'r option) \<Rightarrow> 'r \<Rightarrow> 'h \<Rightarrow> ('r, 'h) outcome" where
  "call_rpc caller method params unm zero h =
     io_bind (Call caller method params h) (\<lambda>resp h. (call_result unm zero resp, h))"

end
