(* ===== verification/Transport_Credit.thy ===== *)
theory Transport_Credit
  imports Transport_Channel "HOL-Library.Multiset"
begin

text \<open>
  \<open>internal/transport/credit.go\<close>: a channel-bus channel with credit windows. One
  definition per atomic section of the code (a critical section of \<open>c.mu\<close>, one
  \<open>Encode\<close>, one channel operation); theory \<open>Transport_Window\<close> interleaves them.
\<close>

section \<open>The channel\<close>

definition creditFramePayloadLen :: nat where
  "creditFramePayloadLen = 8"

definition recvChCap :: nat where
  "recvChCap = 64"

record credit_channel =
  chanId :: u32
  maxPayload :: int
  sendCred :: int
  isClosed :: bool
  recvCh :: "bytes list"
  doneClosed :: bool

definition new_credit_channel :: "u32 \<Rightarrow> int \<Rightarrow> int \<Rightarrow> credit_channel" where
  "new_credit_channel i initialCredit maxPay =
     \<lparr>chanId = i, maxPayload = maxPay, sendCred = initialCredit, isClosed = False, recvCh = [],
      doneClosed = False\<rparr>"

section \<open>The sending side\<close>

definition send_refused :: "bytes \<Rightarrow> credit_channel \<Rightarrow> bool" where
  "send_refused payload c \<longleftrightarrow> int (length payload) > maxPayload c"

definition oversize_payload :: "bytes \<Rightarrow> credit_channel \<Rightarrow> go_error" where
  "oversize_payload payload c =
     Errorf ''transport: payload %d bytes exceeds max %d for channel %d''
       [length payload, nat (maxPayload c), unat (chanId c)]"

text \<open>
  The locked section of \<open>Send\<close>: \<open>None\<close> when the goroutine parks in \<open>c.cond.Wait()\<close>.
\<close>

definition send_acquire :: "credit_channel \<Rightarrow> (go_error + credit_channel) option" where
  "send_acquire c =
     (if \<not> isClosed c \<and> sendCred c \<le> 0 then None
      else if isClosed c then Some (Inl ErrClosed)
      else Some (Inr (c\<lparr>sendCred := int64 (sendCred c - 1)\<rparr>)))"

text \<open>That of \<open>TrySend\<close>, which never parks.\<close>

definition try_acquire :: "credit_channel \<Rightarrow> go_error + credit_channel" where
  "try_acquire c =
     (if isClosed c then Inl ErrClosed
      else if sendCred c \<le> 0 then Inl ErrNoCredit
      else Inr (c\<lparr>sendCred := int64 (sendCred c - 1)\<rparr>))"

definition refund :: "credit_channel \<Rightarrow> credit_channel" where
  "refund c = c\<lparr>sendCred := int64 (sendCred c + 1)\<rparr>"

text \<open>The frame of a reserved send, put on the wire outside the lock.\<close>

definition send_frame ::
    "(kind \<Rightarrow> u32 \<Rightarrow> bytes \<Rightarrow> 's \<Rightarrow> (unit, 's) outcome) \<Rightarrow> credit_channel \<Rightarrow> bytes \<Rightarrow> 's \<Rightarrow> (unit, 's) outcome" where
  "send_frame enc c payload s =
     io_wrap (Wrapf ''transport: send on channel %d'') (enc KindChannelData (chanId c) payload s)"

text \<open>
  The two calls as a whole, when nothing else runs in between: the state is the channel and the
  state of the writer. \<open>Send\<close> returns \<open>None\<close> where it would block.
\<close>

definition after_acquire ::
    "(kind \<Rightarrow> u32 \<Rightarrow> bytes \<Rightarrow> 's \<Rightarrow> (unit, 's) outcome) \<Rightarrow> bytes \<Rightarrow> credit_channel \<Rightarrow> 's \<Rightarrow> (unit, credit_channel \<times> 's) outcome" where
  "after_acquire enc payload c s =
     (case send_frame enc c payload s of
        (Inl err, s) \<Rightarrow> (Inl err, (refund c, s))
      | (Inr _, s) \<Rightarrow> (Inr (), (c, s)))"

definition send ::
    "(kind \<Rightarrow> u32 \<Rightarrow> bytes \<Rightarrow> 's \<Rightarrow> (unit, 's) outcome) \<Rightarrow> bytes \<Rightarrow> credit_channel \<times> 's \<Rightarrow>
     (unit, credit_channel \<times> 's) outcome option" where
  "send enc payload = (\<lambda>(c, s).
     if send_refused payload c then Some (Inl (oversize_payload payload c), (c, s))
     else case send_acquire c of
       None \<Rightarrow> None
     | Some (Inl err) \<Rightarrow> Some (Inl err, (c, s))
     | Some (Inr c) \<Rightarrow> Some (after_acquire enc payload c s))"

definition try_send ::
    "(kind \<Rightarrow> u32 \<Rightarrow> bytes \<Rightarrow> 's \<Rightarrow> (unit, 's) outcome) \<Rightarrow> bytes \<Rightarrow> credit_channel \<times> 's \<Rightarrow>
     (unit, credit_channel \<times> 's) outcome" where
  "try_send enc payload = (\<lambda>(c, s).
     if send_refused payload c then (Inl (oversize_payload payload c), (c, s))
     else case try_acquire c of
       Inl err \<Rightarrow> (Inl err, (c, s))
     | Inr c \<Rightarrow> after_acquire enc payload c s)"

definition receive_credit_grant :: "int \<Rightarrow> credit_channel \<Rightarrow> credit_channel" where
  "receive_credit_grant n c = (if n \<le> 0 then c else c\<lparr>sendCred := int64 (sendCred c + n)\<rparr>)"

definition remaining :: "credit_channel \<Rightarrow> int" where
  "remaining c = sendCred c"

section \<open>The receiving side\<close>

definition credit_payload :: "u32 \<Rightarrow> u32 \<Rightarrow> bytes" where
  "credit_payload i n = put_u32 i @ put_u32 n"

definition grant_credit ::
    "(kind \<Rightarrow> u32 \<Rightarrow> bytes \<Rightarrow> 's \<Rightarrow> (unit, 's) outcome) \<Rightarrow> int \<Rightarrow> credit_channel \<Rightarrow> 's \<Rightarrow> (unit, 's) outcome" where
  "grant_credit enc n c s =
     (if n \<le> 0 then (Inr (), s)
      else if isClosed c then (Inl ErrClosed, s)
      else io_wrap (Wrapf ''transport: grant credit on channel %d'')
             (enc KindCredit (chanId c) (credit_payload (chanId c) (word_of_int n)) s))"

text \<open>
  \<open>Recv\<close>: a buffered payload if there is one (also after a close, by the inner
  \<open>select\<close>), \<open>ok == false\<close> on a closed and drained channel, else it blocks (\<open>None\<close>).
\<close>

definition recv :: "credit_channel \<Rightarrow> (bytes option \<times> credit_channel) option" where
  "recv c =
     (case recvCh c of
        p # ps \<Rightarrow> Some (Some p, c\<lparr>recvCh := ps\<rparr>)
      | [] \<Rightarrow> if doneClosed c then Some (None, c) else None)"

text \<open>
  \<open>deliverData\<close> is a \<open>select\<close> of two cases: the possible results, none when it blocks (a full
  buffer on an open channel). On a closed channel with room both cases are ready.
\<close>

definition deliver_data :: "bytes \<Rightarrow> credit_channel \<Rightarrow> credit_channel list" where
  "deliver_data payload c =
     (if length (recvCh c) < recvChCap then [c\<lparr>recvCh := recvCh c @ [payload]\<rparr>] else []) @
     (if doneClosed c then [c] else [])"

text \<open>
  \<open>Close\<close>: the flag under the lock, then \<open>close(c.done)\<close>, then the broadcast that wakes
  the parked senders (\<open>Transport_Window\<close>).
\<close>

definition close_flag :: "credit_channel \<Rightarrow> credit_channel" where
  "close_flag c = c\<lparr>isClosed := True\<rparr>"

definition close_done :: "credit_channel \<Rightarrow> credit_channel" where
  "close_done c = c\<lparr>doneClosed := True\<rparr>"

definition close :: "credit_channel \<Rightarrow> credit_channel" where
  "close c = (if doneClosed c then c else close_done (close_flag c))"

section \<open>Sequential behaviour\<close>

definition wf_credit_channel :: "credit_channel \<Rightarrow> bool" where
  "wf_credit_channel c \<longleftrightarrow> 0 \<le> sendCred c \<and> sendCred c < 2 ^ 63"

lemma send_acquire_simps [simp]:
  "\<not> isClosed c \<Longrightarrow> sendCred c \<le> 0 \<Longrightarrow> send_acquire c = None"
  "isClosed c \<Longrightarrow> send_acquire c = Some (Inl ErrClosed)"
  "\<not> isClosed c \<Longrightarrow> 0 < sendCred c \<Longrightarrow> sendCred c < 2 ^ 63 \<Longrightarrow>
     send_acquire c = Some (Inr (c\<lparr>sendCred := sendCred c - 1\<rparr>))"
  by (simp_all add: send_acquire_def)

lemma try_acquire_simps [simp]:
  "isClosed c \<Longrightarrow> try_acquire c = Inl ErrClosed"
  "\<not> isClosed c \<Longrightarrow> sendCred c \<le> 0 \<Longrightarrow> try_acquire c = Inl ErrNoCredit"
  "\<not> isClosed c \<Longrightarrow> 0 < sendCred c \<Longrightarrow> sendCred c < 2 ^ 63 \<Longrightarrow>
     try_acquire c = Inr (c\<lparr>sendCred := sendCred c - 1\<rparr>)"
  by (simp_all add: try_acquire_def)

lemma refund_acquired:
  "wf_credit_channel c \<Longrightarrow> refund (c\<lparr>sendCred := sendCred c - 1\<rparr>) = c"
  by (cases c) (simp add: refund_def wf_credit_channel_def)

text \<open>\<open>TrySend\<close> is \<open>Send\<close> where \<open>Send\<close> does not block, and \<open>ErrNoCredit\<close> where it does.\<close>

lemma try_send_send:
  "wf_credit_channel (fst cs) \<Longrightarrow>
   try_send enc payload cs = (case send enc payload cs of Some r \<Rightarrow> r | None \<Rightarrow> (Inl ErrNoCredit, cs))"
  by (cases cs; cases "isClosed (fst cs)"; cases "sendCred (fst cs) \<le> 0")
    (auto simp: try_send_def send_def wf_credit_channel_def)

lemma send_blocks_iff:
  "wf_credit_channel c \<Longrightarrow> send enc payload (c, s) = None \<longleftrightarrow>
     int (length payload) \<le> maxPayload c \<and> \<not> isClosed c \<and> sendCred c = 0"
  by (cases "isClosed c"; cases "sendCred c = 0")
    (auto simp: send_def send_refused_def wf_credit_channel_def, metis prod.exhaust)

section \<open>The frame writer\<close>

text \<open>
  The interface \<open>FrameWriter\<close>: a frame whose \<open>Encode\<close> succeeds is the next frame on the
  wire, one whose \<open>Encode\<close> fails is not on it. \<open>ok\<close> is the writer's own invariant.
\<close>

locale frame_writer =
  fixes enc :: "kind \<Rightarrow> u32 \<Rightarrow> bytes \<Rightarrow> 's \<Rightarrow> (unit, 's) outcome"
    and frames :: "'s \<Rightarrow> frame list"
    and ok :: "'s \<Rightarrow> bool"
  assumes enc_Inr: "ok s \<Longrightarrow> enc k i p s = (Inr u, s') \<Longrightarrow>
      ok s' \<and> frames s' = frames s @ [\<lparr>Kind = k, ChannelID = i, Payload = p\<rparr>]"
    and enc_Inl: "ok s \<Longrightarrow> enc k i p s = (Inl e, s') \<Longrightarrow> ok s' \<and> frames s' = frames s"
begin

text \<open>A successful send spends one credit and puts one data frame of the channel on the wire.\<close>

lemma try_send_Inr:
  assumes "try_send enc payload (c, s) = (Inr u, (c', s'))" and "wf_credit_channel c" and "ok s"
  shows "\<not> isClosed c \<and> int (length payload) \<le> maxPayload c \<and> 0 < sendCred c \<and>
    c' = c\<lparr>sendCred := sendCred c - 1\<rparr> \<and> ok s' \<and>
    frames s' = frames s @ [\<lparr>Kind = KindChannelData, ChannelID = chanId c, Payload = payload\<rparr>]"
proof -
  from assms have free: "\<not> isClosed c" "0 < sendCred c" "int (length payload) \<le> maxPayload c"
    and a: "after_acquire enc payload (c\<lparr>sendCred := sendCred c - 1\<rparr>) s = (Inr u, (c', s'))"
    by (cases "isClosed c"; cases "sendCred c \<le> 0";
        auto simp: try_send_def send_refused_def wf_credit_channel_def split: if_splits)+
  from a have "enc KindChannelData (chanId c) payload s = (Inr u, s')"
    and "c' = c\<lparr>sendCred := sendCred c - 1\<rparr>"
    by (auto simp: after_acquire_def send_frame_def io_wrap_Inr_iff split: prod.splits sum.splits)
  with free enc_Inr [OF assms(3)] show ?thesis by blast
qed

text \<open>A failed one leaves the window and the wire as they were.\<close>

lemma try_send_Inl:
  assumes "try_send enc payload (c, s) = (Inl e, (c', s'))" and "wf_credit_channel c" and "ok s"
  shows "c' = c \<and> ok s' \<and> frames s' = frames s"
proof (cases "isClosed c \<or> sendCred c \<le> 0 \<or> send_refused payload c")
  case True
  with assms show ?thesis
    by (cases "isClosed c"; cases "sendCred c \<le> 0") (auto simp: try_send_def wf_credit_channel_def split: if_splits)
next
  case False
  with assms have "after_acquire enc payload (c\<lparr>sendCred := sendCred c - 1\<rparr>) s = (Inl e, (c', s'))"
    by (simp add: try_send_def wf_credit_channel_def)
  then obtain e' where "enc KindChannelData (chanId c) payload s = (Inl e', s')"
    and "c' = refund (c\<lparr>sendCred := sendCred c - 1\<rparr>)"
    by (auto simp: after_acquire_def send_frame_def io_wrap_Inl_iff split: prod.splits sum.splits)
  with enc_Inl [OF assms(3)] show ?thesis
    by (simp add: refund_acquired [OF assms(2)])
qed

text \<open>The payloads of the channel's own data frames.\<close>

definition data_sent :: "u32 \<Rightarrow> 's \<Rightarrow> bytes list" where
  "data_sent i s = map Payload (filter (\<lambda>f. Kind f = KindChannelData \<and> ChannelID f = i) (frames s))"

text \<open>Hence a credit channel over a frame writer is a frame sink.\<close>

lemma credit_channel_sink:
  "frame_sink (try_send enc) (\<lambda>(c, s). data_sent (chanId c) s) (\<lambda>(c, s). wf_credit_channel c \<and> ok s)"
proof
  fix cs p u cs'
  assume ok: "case cs of (c, s) \<Rightarrow> wf_credit_channel c \<and> ok s" and t: "try_send enc p cs = (Inr u, cs')"
  obtain c s c' s' where cs: "cs = (c, s)" "cs' = (c', s')" by (metis prod.exhaust)
  from try_send_Inr [of p c s u c' s'] ok t
  show "(case cs' of (c, s) \<Rightarrow> wf_credit_channel c \<and> ok s) \<and>
      (case cs' of (c, s) \<Rightarrow> data_sent (chanId c) s) = (case cs of (c, s) \<Rightarrow> data_sent (chanId c) s) @ [p]"
    by (auto simp: cs data_sent_def wf_credit_channel_def)
next
  fix cs p e cs'
  assume ok: "case cs of (c, s) \<Rightarrow> wf_credit_channel c \<and> ok s" and t: "try_send enc p cs = (Inl e, cs')"
  obtain c s c' s' where cs: "cs = (c, s)" "cs' = (c', s')" by (metis prod.exhaust)
  from try_send_Inl [of p c s e c' s'] ok t
  show "(case cs' of (c, s) \<Rightarrow> wf_credit_channel c \<and> ok s) \<and>
      (case cs' of (c, s) \<Rightarrow> data_sent (chanId c) s) = (case cs of (c, s) \<Rightarrow> data_sent (chanId c) s)"
    by (auto simp: cs data_sent_def)
qed

end

text \<open>The plugin's own writer: the encoder of \<open>internal/ipc\<close> on a byte stream.\<close>

lemma encode_conn_Inr:
  assumes "encode conn_write k i p c = (Inr u, c')" and "well_framed (sent c)"
  shows "well_framed (sent c') \<and>
    parse_frames (sent c') = parse_frames (sent c) @ [\<lparr>Kind = k, ChannelID = i, Payload = p\<rparr>]"
proof -
  from assms(1) have "wf_frame \<lparr>Kind = k, ChannelID = i, Payload = p\<rparr>"
    and "sent c' = sent c @ frame_bytes \<lparr>Kind = k, ChannelID = i, Payload = p\<rparr>"
    by (auto simp: encode_def wf_frame_def io_wrap_Inr_iff split: if_splits dest!: conn_write_Inr)
  with well_framed_append [OF assms(2)] show ?thesis by simp
qed

lemma encode_conn_Inl: "encode conn_write k i p c = (Inl e, c') \<Longrightarrow> c' = c"
  by (auto simp: encode_def io_wrap_Inl_iff conn_write_Inl split: if_splits)

interpretation stdout: frame_writer "encode conn_write" "\<lambda>c. parse_frames (sent c)" "\<lambda>c. well_framed (sent c)"
  by unfold_locales (auto dest: encode_conn_Inr encode_conn_Inl)

interpretation credit_sink: frame_sink "try_send (encode conn_write)"
  "\<lambda>(c, s). stdout.data_sent (chanId c) s" "\<lambda>(c, s). wf_credit_channel c \<and> well_framed (sent s)"
  by (rule stdout.credit_channel_sink)

end
