(* ===== verification/Transport_Window.thy ===== *)
theory Transport_Window
  imports Transport_Credit
begin

text \<open>
  The credit channel under concurrency: any number of goroutines in \<open>Send\<close> and
  \<open>TrySend\<close>, the frame loop delivering data and grants, a receiver, and a closer, with their
  atomic sections (theory \<open>Transport_Credit\<close>) interleaved in any order. A goroutine in
  \<open>Send\<close> is the payload it holds: parked on the condition variable, woken but not yet
  running, or in flight between its reservation and its \<open>Encode\<close>.
\<close>

section \<open>The system\<close>

record 's window_system =
  chan :: credit_channel
  wire :: 's
  parked :: "bytes multiset"
  woken :: "bytes multiset"
  inflight :: "bytes multiset"
  closing :: bool
  granted :: int
  delivered :: "bytes list"
  received :: "bytes list"

text \<open>\<open>cond.Broadcast\<close>, and the locked section of a \<open>Send\<close> that holds \<open>payload\<close>.\<close>

definition broadcast :: "'s window_system \<Rightarrow> 's window_system" where
  "broadcast w = w\<lparr>woken := woken w + parked w, parked := {#}\<rparr>"

definition send_section :: "bytes \<Rightarrow> 's window_system \<Rightarrow> 's window_system" where
  "send_section payload w =
     (case send_acquire (chan w) of
        None \<Rightarrow> w\<lparr>parked := add_mset payload (parked w)\<rparr>
      | Some (Inl err) \<Rightarrow> w
      | Some (Inr c) \<Rightarrow> w\<lparr>chan := c, inflight := add_mset payload (inflight w)\<rparr>)"

text \<open>\<open>cond.Signal\<close> wakes one parked goroutine, if there is one.\<close>

inductive signalled :: "'s window_system \<Rightarrow> 's window_system \<Rightarrow> bool" where
  none: "parked w = {#} \<Longrightarrow> signalled w w"
| one: "q \<in># parked w \<Longrightarrow>
    signalled w (w\<lparr>woken := add_mset q (woken w), parked := parked w - {#q#}\<rparr>)"

text \<open>
  One step. \<open>enc\<close> is the shared frame writer; \<open>other\<close> are the frames that other users of it
  write in between.
\<close>

inductive window_step ::
    "(kind \<Rightarrow> u32 \<Rightarrow> bytes \<Rightarrow> 's \<Rightarrow> (unit, 's) outcome) \<Rightarrow> 's window_system \<Rightarrow> 's window_system \<Rightarrow> bool"
  for enc where
  enter: "\<not> send_refused p (chan w) \<Longrightarrow> window_step enc w (send_section p w)"
| resume: "p \<in># woken w \<Longrightarrow>
    window_step enc w (send_section p (w\<lparr>woken := woken w - {#p#}\<rparr>))"
| attempt: "\<not> send_refused p (chan w) \<Longrightarrow> try_acquire (chan w) = Inr c \<Longrightarrow>
    window_step enc w (w\<lparr>chan := c, inflight := add_mset p (inflight w)\<rparr>)"
| encoded: "p \<in># inflight w \<Longrightarrow> send_frame enc (chan w) p (wire w) = (Inr u, s) \<Longrightarrow>
    window_step enc w (w\<lparr>wire := s, inflight := inflight w - {#p#}\<rparr>)"
| refunded: "p \<in># inflight w \<Longrightarrow> send_frame enc (chan w) p (wire w) = (Inl e, s) \<Longrightarrow>
    signalled (w\<lparr>wire := s, inflight := inflight w - {#p#}, chan := refund (chan w)\<rparr>) w' \<Longrightarrow>
    window_step enc w w'"
| grant: "0 < n \<Longrightarrow> n < 2 ^ 32 \<Longrightarrow>
    window_step enc w (broadcast (w\<lparr>chan := receive_credit_grant n (chan w), granted := granted w + n\<rparr>))"
| grant_back: "grant_credit enc n (chan w) (wire w) = (r, s) \<Longrightarrow> window_step enc w (w\<lparr>wire := s\<rparr>)"
| shut: "\<not> isClosed (chan w) \<Longrightarrow> window_step enc w (w\<lparr>chan := close_flag (chan w), closing := True\<rparr>)"
| shut_done: "closing w \<Longrightarrow>
    window_step enc w (broadcast (w\<lparr>chan := close_done (chan w), closing := False\<rparr>))"
| deliver: "c \<in> set (deliver_data p (chan w)) \<Longrightarrow>
    window_step enc w (w\<lparr>chan := c, delivered := delivered w @ (if c = chan w then [] else [p])\<rparr>)"
| receive: "recv (chan w) = Some (Some p, c) \<Longrightarrow>
    window_step enc w (w\<lparr>chan := c, received := received w @ [p]\<rparr>)"
| other: "k \<noteq> KindChannelData \<or> i \<noteq> chanId (chan w) \<Longrightarrow> enc k i p (wire w) = (r, s) \<Longrightarrow>
    window_step enc w (w\<lparr>wire := s\<rparr>)"

definition window_start :: "u32 \<Rightarrow> int \<Rightarrow> int \<Rightarrow> 's \<Rightarrow> 's window_system" where
  "window_start i initialCredit maxPay s =
     \<lparr>chan = new_credit_channel i initialCredit maxPay, wire = s, parked = {#}, woken = {#},
      inflight = {#}, closing = False, granted = 0, delivered = [], received = []\<rparr>"

section \<open>The invariant\<close>

text \<open>The data frames of channel \<open>i\<close> among the frames on the wire.\<close>

definition own_frames :: "u32 \<Rightarrow> frame list \<Rightarrow> frame list" where
  "own_frames i fs = filter (\<lambda>f. Kind f = KindChannelData \<and> ChannelID f = i) fs"

lemma own_frames_append [simp]: "own_frames i (fs @ gs) = own_frames i fs @ own_frames i gs"
  by (simp add: own_frames_def)

text \<open>
  \<open>used\<close> credits are in flight or on the wire. Every credit is available, in flight or on the
  wire; no sender is parked while a credit is free and nobody is on the way to take it; the
  receiver has got what was delivered, in order.
\<close>

definition window_inv :: "int \<Rightarrow> u32 \<Rightarrow> int \<Rightarrow> frame list \<Rightarrow> 's window_system \<Rightarrow> bool" where
  "window_inv initialCredit i maxPay fs w \<longleftrightarrow>
     chanId (chan w) = i \<and> maxPayload (chan w) = maxPay \<and>
     0 \<le> sendCred (chan w) \<and> 0 \<le> granted w \<and>
     sendCred (chan w) + int (size (inflight w)) + int (length (own_frames i fs)) =
       initialCredit + granted w \<and>
     (parked w \<noteq> {#} \<longrightarrow> closing w \<or> (\<not> isClosed (chan w) \<and> sendCred (chan w) \<le> int (size (woken w)))) \<and>
     (closing w \<longrightarrow> isClosed (chan w)) \<and>
     (\<forall>p \<in># parked w + woken w + inflight w. int (length p) \<le> maxPay) \<and>
     list_all (\<lambda>f. int (length (Payload f)) \<le> maxPay) (own_frames i fs) \<and>
     delivered w = received w @ recvCh (chan w) \<and> length (recvCh (chan w)) \<le> recvChCap"

lemmas window_inv_simps = window_inv_def send_refused_def send_section_def broadcast_def
  receive_credit_grant_def refund_def close_flag_def close_done_def

text \<open>One lemma per kind of step.\<close>

lemma window_inv_send_section:
  assumes "window_inv ic i mp fs (w\<lparr>woken := add_mset p W\<rparr>) \<or> (window_inv ic i mp fs (w\<lparr>woken := W\<rparr>) \<and> int (length p) \<le> mp)"
    and "ic + granted w < 2 ^ 63"
  shows "window_inv ic i mp fs (send_section p (w\<lparr>woken := W\<rparr>))"
proof (cases "isClosed (chan w)")
  case True
  with assms show ?thesis
    by (auto simp: window_inv_simps)
next
  case False
  have bound: "sendCred (chan w) < 2 ^ 63"
    using assms(1,2) by (auto simp: window_inv_def)
  show ?thesis
  proof (cases "sendCred (chan w) \<le> 0")
    case True
    with False assms show ?thesis
      by (auto simp: window_inv_simps)
  next
    case pos: False
    with False bound have "send_acquire (chan w) = Some (Inr (chan w\<lparr>sendCred := sendCred (chan w) - 1\<rparr>))"
      by simp
    with pos False assms show ?thesis
      by (auto simp: window_inv_simps)
  qed
qed

lemma send_section_frame [simp]:
  "wire (send_section p w) = wire w" "granted (send_section p w) = granted w"
  by (auto simp: send_section_def split: option.splits sum.splits)

lemma broadcast_frame [simp]: "wire (broadcast w) = wire w" "granted (broadcast w) = granted w"
  by (simp_all add: broadcast_def)

lemma signalled_frame: "signalled w w' \<Longrightarrow> wire w' = wire w \<and> granted w' = granted w"
  by (auto elim: signalled.cases)

lemma window_inv_signalled:
  assumes "signalled w w'" and "p \<in># inflight v"
    and "w = v\<lparr>wire := s, inflight := inflight v - {#p#}, chan := refund (chan v)\<rparr>"
    and "window_inv ic i mp fs v" and "ic + granted v < 2 ^ 63"
  shows "window_inv ic i mp fs w'"
proof -
  obtain I where I: "inflight v = add_mset p I"
    using assms(2) by (metis insert_DiffM)
  have ref: "refund (chan v) = (chan v)\<lparr>sendCred := sendCred (chan v) + 1\<rparr>"
    using assms(4,5) I by (simp add: refund_def window_inv_def)
  from assms(1) show ?thesis
  proof cases
    case none
    with assms(3,4) I ref show ?thesis
      by (simp add: window_inv_def)
  next
    case (one q)
    then obtain P where P: "parked w = add_mset q P"
      by (metis insert_DiffM)
    with one assms(3,4) I ref show ?thesis
      by (auto simp: window_inv_def)
  qed
qed

lemma window_inv_broadcast:
  "window_inv ic i mp fs w \<Longrightarrow> window_inv ic i mp fs (broadcast w)"
  by (auto simp: window_inv_def broadcast_def)

lemma window_inv_grant:
  assumes "window_inv ic i mp fs w" and "0 < n" and "ic + granted w + n < 2 ^ 63"
  shows "window_inv ic i mp fs (broadcast (w\<lparr>chan := receive_credit_grant n (chan w), granted := granted w + n\<rparr>))"
proof -
  have "int64 (sendCred (chan w) + n) = sendCred (chan w) + n"
    using assms by (intro int64_id) (auto simp: window_inv_def)
  then show ?thesis
    using assms by (auto simp: window_inv_def broadcast_def receive_credit_grant_def)
qed

lemma window_inv_deliver:
  assumes "c \<in> set (deliver_data p (chan w))" and "window_inv ic i mp fs w"
  shows "window_inv ic i mp fs (w\<lparr>chan := c, delivered := delivered w @ (if c = chan w then [] else [p])\<rparr>)"
proof (cases "c = chan w")
  case True
  with assms(2) show ?thesis by (simp add: window_inv_def)
next
  case False
  with assms(1) have "c = (chan w)\<lparr>recvCh := recvCh (chan w) @ [p]\<rparr>"
    and "length (recvCh (chan w)) < recvChCap"
    by (auto simp: deliver_data_def split: if_splits)
  with False assms(2) show ?thesis by (simp add: window_inv_def)
qed

lemma window_inv_receive:
  assumes "recv (chan w) = Some (Some p, c)" and "window_inv ic i mp fs w"
  shows "window_inv ic i mp fs (w\<lparr>chan := c, received := received w @ [p]\<rparr>)"
  using assms by (auto simp: recv_def window_inv_def split: list.splits if_splits)

lemma window_inv_close:
  "window_inv ic i mp fs w \<Longrightarrow>
     window_inv ic i mp fs (w\<lparr>chan := close_flag (chan w), closing := True\<rparr>)"
  "closing w \<Longrightarrow> window_inv ic i mp fs w \<Longrightarrow>
     window_inv ic i mp fs (broadcast (w\<lparr>chan := close_done (chan w), closing := False\<rparr>))"
  by (auto simp: window_inv_def close_flag_def close_done_def broadcast_def)

lemma window_inv_try:
  assumes "try_acquire (chan w) = Inr c" and "\<not> send_refused p (chan w)"
    and "window_inv ic i mp fs w" and "ic + granted w < 2 ^ 63"
  shows "window_inv ic i mp fs (w\<lparr>chan := c, inflight := add_mset p (inflight w)\<rparr>)"
proof -
  have "\<not> isClosed (chan w)" "0 < sendCred (chan w)"
    using assms(1) by (auto simp: try_acquire_def split: if_splits)
  moreover have "sendCred (chan w) < 2 ^ 63"
    using assms(3,4) by (auto simp: window_inv_def)
  ultimately have "c = (chan w)\<lparr>sendCred := sendCred (chan w) - 1\<rparr>"
    using assms(1) by simp
  then show ?thesis
    using assms(2,3) \<open>0 < sendCred (chan w)\<close> by (auto simp: window_inv_def send_refused_def)
qed

lemma window_inv_wire [simp]: "window_inv ic i mp fs (w\<lparr>wire := s\<rparr>) = window_inv ic i mp fs w"
  by (simp add: window_inv_def)

lemma window_inv_other_frame:
  "Kind f \<noteq> KindChannelData \<or> ChannelID f \<noteq> i \<Longrightarrow>
   window_inv ic i mp (fs @ [f]) w = window_inv ic i mp fs w"
  by (auto simp: window_inv_def own_frames_def)

lemma window_inv_encoded:
  assumes "p \<in># inflight w" and "window_inv ic i mp fs w"
  shows "window_inv ic i mp (fs @ [\<lparr>Kind = KindChannelData, ChannelID = i, Payload = p\<rparr>])
    (w\<lparr>inflight := inflight w - {#p#}\<rparr>)"
proof -
  obtain I where "inflight w = add_mset p I"
    using assms(1) by (metis insert_DiffM)
  with assms(2) show ?thesis
    by (simp add: window_inv_def own_frames_def)
qed

context frame_writer
begin

lemma window_inv_step:
  assumes "window_step enc w w'" and "ok (wire w)" and "window_inv ic i mp (frames (wire w)) w"
    and "ic + granted w' < 2 ^ 63"
  shows "ok (wire w') \<and> window_inv ic i mp (frames (wire w')) w' \<and> granted w \<le> granted w'"
  using assms
proof cases
  case (enter p)
  have "w\<lparr>woken := woken w\<rparr> = w" by simp
  with enter assms show ?thesis
    using window_inv_send_section [of ic i mp "frames (wire w)" p "woken w" w]
    by (auto simp: send_refused_def window_inv_def)
next
  case (resume p)
  then obtain W where W: "woken w = add_mset p W" by (metis insert_DiffM)
  then have eq: "w\<lparr>woken := add_mset p W\<rparr> = w" by (cases w) simp
  have "window_inv ic i mp (frames (wire w)) (w\<lparr>woken := add_mset p W\<rparr>)"
    unfolding eq by (rule assms(3))
  from window_inv_send_section [OF disjI1 [OF this]] W resume assms(2,4) show ?thesis by simp
next
  case (attempt p c)
  with assms show ?thesis
    using window_inv_try [of w c p] by simp
next
  case (encoded p u s)
  then have "enc KindChannelData (chanId (chan w)) p (wire w) = (Inr u, s)"
    by (simp add: send_frame_def io_wrap_Inr_iff)
  from enc_Inr [OF assms(2) this] encoded assms show ?thesis
    using window_inv_encoded [of p w ic i mp "frames (wire w)"] by (simp add: window_inv_def)
next
  case (refunded p e s)
  then obtain e' where "enc KindChannelData (chanId (chan w)) p (wire w) = (Inl e', s)"
    by (auto simp: send_frame_def io_wrap_Inl_iff)
  from enc_Inl [OF assms(2) this] refunded assms show ?thesis
    using signalled_frame [OF refunded(3)]
      window_inv_signalled [OF refunded(3) refunded(1) refl assms(3)] by simp
next
  case (grant n)
  with assms show ?thesis
    using window_inv_grant [of ic i mp "frames (wire w)" w n] by simp
next
  case (grant_back n r s)
  show ?thesis
  proof (cases "n \<le> 0 \<or> isClosed (chan w)")
    case True
    with grant_back assms show ?thesis by (auto simp: grant_credit_def split: if_splits)
  next
    case False
    with grant_back obtain r' where e: "enc KindCredit (chanId (chan w))
        (credit_payload (chanId (chan w)) (word_of_int n)) (wire w) = (r', s)"
      by (cases "enc KindCredit (chanId (chan w)) (credit_payload (chanId (chan w)) (word_of_int n)) (wire w)";
          cases "fst (enc KindCredit (chanId (chan w)) (credit_payload (chanId (chan w)) (word_of_int n)) (wire w))")
        (auto simp: grant_credit_def)
    then show ?thesis
      using grant_back assms enc_Inr [OF assms(2)] enc_Inl [OF assms(2)]
      by (cases r') (auto simp: window_inv_other_frame dest!: enc_Inr [OF assms(2)] enc_Inl [OF assms(2)])
  qed
next
  case shut
  with assms show ?thesis by (simp add: window_inv_close)
next
  case shut_done
  with assms show ?thesis by (simp add: window_inv_close)
next
  case (deliver c p)
  with assms show ?thesis using window_inv_deliver [of c p w] by simp
next
  case (receive p c)
  with assms show ?thesis using window_inv_receive [of w p c] by simp
next
  case (other k j p r s)
  have i: "chanId (chan w) = i" using assms(3) by (simp add: window_inv_def)
  show ?thesis
  proof (cases r)
    case (Inl e)
    with other assms enc_Inl [OF assms(2)] show ?thesis by auto
  next
    case (Inr u)
    with other i assms enc_Inr [OF assms(2)] show ?thesis by (auto simp: window_inv_other_frame)
  qed
qed

end

section \<open>Reachable states\<close>

definition window_ok :: "int \<Rightarrow> u32 \<Rightarrow> int \<Rightarrow> conn window_system \<Rightarrow> bool" where
  "window_ok ic i mp w \<longleftrightarrow> well_framed (sent (wire w)) \<and> 0 \<le> granted w \<and>
     (ic + granted w < 2 ^ 63 \<longrightarrow> window_inv ic i mp (parse_frames (sent (wire w))) w)"

lemma granted_step: "window_step enc w w' \<Longrightarrow> granted w \<le> granted w'"
  by (erule window_step.cases) (auto dest!: signalled_frame)

lemma window_ok_step:
  assumes "window_ok ic i mp w" and "window_step (encode conn_write) w w'"
  shows "window_ok ic i mp w'"
proof (cases "ic + granted w' < 2 ^ 63")
  case True
  with granted_step [OF assms(2)] assms(1) have
    "window_inv ic i mp (parse_frames (sent (wire w))) w" and "well_framed (sent (wire w))"
    by (auto simp: window_ok_def)
  from stdout.window_inv_step [OF assms(2) this(2,1) True] show ?thesis
    using granted_step [OF assms(2)] assms(1) by (auto simp: window_ok_def)
next
  case False
  have "well_framed (sent (wire w'))"
    using assms(2)
  proof cases
    case (refunded p e s)
    with assms(1) show ?thesis
      by (auto simp: window_ok_def send_frame_def io_wrap_Inl_iff dest!: signalled_frame encode_conn_Inl)
  next
    case (grant_back n r s)
    with assms(1) show ?thesis
      by (cases r) (auto simp: window_ok_def grant_credit_def io_wrap_Inl_iff io_wrap_Inr_iff
          split: if_splits dest!: encode_conn_Inl encode_conn_Inr)
  next
    case (other k j p r s)
    with assms(1) show ?thesis
      by (cases r) (auto simp: window_ok_def dest!: encode_conn_Inl encode_conn_Inr)
  qed (use assms(1) in \<open>auto simp: window_ok_def send_frame_def io_wrap_Inr_iff
        dest!: encode_conn_Inr encode_conn_Inl\<close>)
  with False granted_step [OF assms(2)] assms(1) show ?thesis
    by (simp add: window_ok_def)
qed

interpretation window: transition_invariant "window_step (encode conn_write)"
  "\<lambda>w. \<exists>s. w = window_start i ic mp s \<and> sent s = [] \<and> 0 \<le> ic" "window_ok ic i mp" for i ic mp
proof
  fix w :: "conn window_system"
  assume "\<exists>s. w = window_start i ic mp s \<and> sent s = [] \<and> 0 \<le> ic"
  then show "window_ok ic i mp w"
    by (auto simp: window_ok_def window_start_def new_credit_channel_def window_inv_def own_frames_def
        recvChCap_def)
qed (rule window_ok_step)

lemma window_reachable:
  assumes "(window_step (encode conn_write))\<^sup>*\<^sup>* (window_start i ic mp (s :: conn)) w"
    and "sent s = []" and "0 \<le> ic" and "ic + granted w < 2 ^ 63"
  shows "well_framed (sent (wire w))"
    and "window_inv ic i mp (parse_frames (sent (wire w))) w"
proof -
  have "window_ok ic i mp w"
    using assms(2,3) by (intro window.reachable_inv [OF _ assms(1)]) blast
  then show "well_framed (sent (wire w))" and "window_inv ic i mp (parse_frames (sent (wire w))) w"
    using assms(4) by (simp_all add: window_ok_def)
qed

section \<open>Properties of the credit window\<close>

text \<open>
  C4: the plugin never sends past its credit. However any number of \<open>Send\<close> and \<open>TrySend\<close>
  calls, grants, closes and other users of the shared writer interleave, what is on the wire
  is a sequence of complete frames, and the data frames of the channel among them are at
  most the initial credit plus everything granted so far, each within the channel's frame
  size. The sum of credits is assumed to fit the code's 64-bit counter.
\<close>

theorem never_sends_past_credit:
  assumes "(window_step (encode conn_write))\<^sup>*\<^sup>* (window_start i ic mp (s :: conn)) w"
    and "sent s = []" and "0 \<le> ic" and "ic + granted w < 2 ^ 63"
  shows "well_framed (sent (wire w)) \<and>
    int (length (own_frames i (parse_frames (sent (wire w))))) \<le> ic + granted w \<and>
    list_all (\<lambda>f. int (length (Payload f)) \<le> mp) (own_frames i (parse_frames (sent (wire w))))"
  using window_reachable [OF assms] by (auto simp: window_inv_def)

definition demo_wire :: conn where
  "demo_wire = \<lparr>avail = [], fin = EOF, sent = [], wr_left = None, wr_err = ErrClosed\<rparr>"

definition demo_sent :: "conn window_system" where
  "demo_sent = (window_start 5 8 65536 demo_wire)\<lparr>
     chan := (new_credit_channel 5 8 65536)\<lparr>sendCred := 7\<rparr>,
     wire := demo_wire\<lparr>sent := frame_bytes \<lparr>Kind = KindChannelData, ChannelID = 5, Payload = [1]\<rparr>\<rparr>\<rparr>"

lemma demo_sent_reachable:
  "(window_step (encode conn_write))\<^sup>*\<^sup>* (window_start 5 8 65536 demo_wire) demo_sent"
proof -
  let ?w1 = "send_section [1] (window_start 5 8 65536 demo_wire)"
  have w1: "?w1 = (window_start 5 8 65536 demo_wire)\<lparr>
      chan := (new_credit_channel 5 8 65536)\<lparr>sendCred := 7\<rparr>, inflight := {#[1]#}\<rparr>"
    by (simp add: send_section_def window_start_def new_credit_channel_def)
  have "window_step (encode conn_write) (window_start 5 8 65536 demo_wire) ?w1"
    by (rule enter) (simp add: send_refused_def window_start_def new_credit_channel_def)
  moreover have "send_frame (encode conn_write) (chan ?w1) [1] (wire ?w1) =
      (Inr (), demo_wire\<lparr>sent := frame_bytes \<lparr>Kind = KindChannelData, ChannelID = 5, Payload = [1]\<rparr>\<rparr>)"
    unfolding w1
    by (simp add: send_frame_def encode_def window_start_def new_credit_channel_def demo_wire_def
        is_reserved_or_unknown_kind_def MaxFrameLength_def)
  then have "window_step (encode conn_write) ?w1 (?w1\<lparr>wire := demo_wire\<lparr>sent := frame_bytes
      \<lparr>Kind = KindChannelData, ChannelID = 5, Payload = [1]\<rparr>\<rparr>, inflight := inflight ?w1 - {#[1]#}\<rparr>)"
    by (intro encoded) (simp_all add: w1)
  then have "window_step (encode conn_write) ?w1 demo_sent"
    unfolding w1 by (simp add: demo_sent_def window_start_def)
  ultimately show ?thesis by simp
qed

theorem never_sends_past_credit_witness:
  "int (length (own_frames 5 (parse_frames (sent (wire demo_sent))))) \<le> 8 + granted demo_sent"
  using never_sends_past_credit [OF demo_sent_reachable]
  by (simp add: demo_wire_def demo_sent_def window_start_def)

text \<open>
  C11: no credit leaks and no wakeup is lost. In every reachable state the credits that are
  free, reserved by a send in flight, or spent on the wire add up to what was granted; and
  whenever senders are parked while nobody is about to take a credit and no close is under
  way, the channel is open and its window is really exhausted.
\<close>

theorem credit_conserved_and_no_lost_wakeup:
  assumes "(window_step (encode conn_write))\<^sup>*\<^sup>* (window_start i ic mp (s :: conn)) w"
    and "sent s = []" and "0 \<le> ic" and "ic + granted w < 2 ^ 63"
  shows "sendCred (chan w) + int (size (inflight w)) +
      int (length (own_frames i (parse_frames (sent (wire w))))) = ic + granted w \<and>
    0 \<le> sendCred (chan w) \<and>
    (parked w \<noteq> {#} \<and> woken w = {#} \<and> \<not> closing w \<longrightarrow> \<not> isClosed (chan w) \<and> sendCred (chan w) = 0)"
  using window_reachable [OF assms] by (auto simp: window_inv_def)

theorem credit_conserved_and_no_lost_wakeup_witness:
  "sendCred (chan demo_sent) + int (size (inflight demo_sent)) +
      int (length (own_frames 5 (parse_frames (sent (wire demo_sent))))) = 8 + granted demo_sent"
  using credit_conserved_and_no_lost_wakeup [OF demo_sent_reachable]
  by (simp add: demo_wire_def demo_sent_def window_start_def)

text \<open>
  the receiver gets what was delivered, all of it and in order. In every reachable state
  the payloads delivered are those received followed by those still buffered, and at most 64
  are buffered; on a channel that is not closed a delivery is never dropped, it waits.
\<close>

theorem receive_in_order:
  assumes "(window_step (encode conn_write))\<^sup>*\<^sup>* (window_start i ic mp (s :: conn)) w"
    and "sent s = []" and "0 \<le> ic" and "ic + granted w < 2 ^ 63"
  shows "delivered w = received w @ recvCh (chan w) \<and> length (recvCh (chan w)) \<le> 64 \<and>
    (\<not> doneClosed (chan w) \<and> c \<in> set (deliver_data p (chan w)) \<longrightarrow>
       c = (chan w)\<lparr>recvCh := recvCh (chan w) @ [p]\<rparr>)"
  using window_reachable [OF assms]
  by (auto simp: window_inv_def recvChCap_def deliver_data_def split: if_splits)

theorem receive_in_order_witness:
  "delivered demo_sent = received demo_sent @ recvCh (chan demo_sent)"
  using receive_in_order [OF demo_sent_reachable]
  by (simp add: demo_wire_def demo_sent_def window_start_def)

end
