(* ===== verification/Transport_Registry.thy ===== *)
theory Transport_Registry
  imports Transport_Window
begin

text \<open>
  The \<open>Registry\<close> of \<open>internal/transport/credit.go\<close>: the routing of channel-bus frames to the
  credit channel they belong to, with the wait for a registration that is under way.
\<close>

section \<open>The registry\<close>

type_synonym registry = "u32 \<rightharpoonup> credit_channel"

definition new_registry :: registry where
  "new_registry = Map.empty"

definition register :: "credit_channel \<Rightarrow> registry \<Rightarrow> registry" where
  "register c r = r(chanId c \<mapsto> c)"

text \<open>
  \<open>awaitChannel\<close>: look the id up; if it is absent, wait for the next registration and look
  again. The list holds the registrations that happen, in order, before the grace elapses;
  the result is the channel found, and the registry as it is then.
\<close>

fun await_channel :: "u32 \<Rightarrow> credit_channel list \<Rightarrow> registry \<Rightarrow> credit_channel option \<times> registry" where
  "await_channel i regs r =
     (case r i of
        Some c \<Rightarrow> (Some c, r)
      | None \<Rightarrow>
         (case regs of
            [] \<Rightarrow> (None, r)
          | c # regs \<Rightarrow> await_channel i regs (register c r)))"

declare await_channel.simps [simp del]

text \<open>
  What a frame does to its channel: the possible next states of the channel, none when the
  handler blocks (a full receive buffer), or the violation that ends the process.
\<close>

definition handle_frame :: "frame \<Rightarrow> credit_channel \<Rightarrow> go_error + credit_channel list" where
  "handle_frame f c =
     (if Kind f = KindChannelData then Inr (deliver_data (Payload f) c)
      else if Kind f = KindCredit then
        if length (Payload f) \<noteq> creditFramePayloadLen
        then Inl (ProtocolViolationError ''malformed credit frame payload'' (Kind f)
               (word_of_nat (length (Payload f))))
        else
          let payloadChannelID = get_u32 (take 4 (Payload f)) in
          if payloadChannelID \<noteq> ChannelID f
          then Inl (ProtocolViolationError ''credit frame payload channelId mismatch with header'' (Kind f)
                 (word_of_nat (length (Payload f))))
          else
            let n = get_u32 (take 4 (drop 4 (Payload f))) in
            Inr [receive_credit_grant (int (unat n)) c]
      else Inl (ProtocolViolationError ''unexpected kind on channel-bus'' (Kind f)
             (word_of_nat (length (Payload f)))))"

definition handle_channel_frame ::
    "credit_channel list \<Rightarrow> frame \<Rightarrow> registry \<Rightarrow> go_error + registry list" where
  "handle_channel_frame regs f r =
     (case await_channel (ChannelID f) regs r of
        (None, r) \<Rightarrow> Inl (ProtocolViolationError ''channelId not open'' (Kind f) (word_of_nat (length (Payload f))))
      | (Some c, r) \<Rightarrow>
         (case handle_frame f c of
            Inl e \<Rightarrow> Inl e
          | Inr cs \<Rightarrow> Inr (map (\<lambda>c'. r(ChannelID f \<mapsto> c')) cs)))"

section \<open>Routing\<close>

text \<open>Every channel is stored under its own id.\<close>

definition wf_registry :: "registry \<Rightarrow> bool" where
  "wf_registry r \<longleftrightarrow> (\<forall>i c. r i = Some c \<longrightarrow> chanId c = i)"

lemma wf_new_registry [simp]: "wf_registry new_registry"
  by (simp add: wf_registry_def new_registry_def)

lemma wf_register [simp]: "wf_registry r \<Longrightarrow> wf_registry (register c r)"
  by (simp add: wf_registry_def register_def)

lemma await_channel_registered: "r i = Some c \<Longrightarrow> await_channel i regs r = (Some c, r)"
  by (simp add: await_channel.simps)

lemma await_channel_unknown:
  "r i = None \<Longrightarrow> i \<notin> chanId ` set regs \<Longrightarrow> fst (await_channel i regs r) = None"
  by (induction regs arbitrary: r) (simp_all add: await_channel.simps [of i] register_def)

lemma await_channel_wf:
  "wf_registry r \<Longrightarrow> await_channel i regs r = (x, r') \<Longrightarrow>
     wf_registry r' \<and> r' i = x \<and> (x = None \<longrightarrow> i \<notin> chanId ` set regs)"
proof (induction regs arbitrary: r)
  case Nil
  then show ?case
    by (auto simp: await_channel.simps [of i] split: option.splits)
next
  case (Cons c regs)
  show ?case
  proof (cases "r i")
    case None
    with Cons.prems have "await_channel i regs (register c r) = (x, r')"
      by (simp add: await_channel.simps [of i "c # regs"])
    from Cons.IH [OF _ this] Cons.prems(1)
    have ih: "wf_registry r' \<and> r' i = x \<and> (x = None \<longrightarrow> i \<notin> chanId ` set regs)" by simp
    have "chanId c \<noteq> i" if "x = None"
    proof
      assume "chanId c = i"
      with \<open>await_channel i regs (register c r) = (x, r')\<close> have "x = Some c"
        by (simp add: await_channel_registered register_def)
      with that show False by simp
    qed
    with ih show ?thesis by auto
  next
    case (Some d)
    with Cons.prems show ?thesis by (auto simp: await_channel_registered)
  qed
qed

lemma await_channel_in_flight:
  assumes "r i = None" and "chanId c = i" and "i \<notin> chanId ` set before"
  shows "fst (await_channel i (before @ c # later) r) = Some c"
  using assms
  by (induction before arbitrary: r) (simp_all add: await_channel.simps [of i] register_def)

lemma handle_frame_keeps_id: "handle_frame f c = Inr cs \<Longrightarrow> c' \<in> set cs \<Longrightarrow> chanId c' = chanId c"
  by (auto simp: handle_frame_def deliver_data_def receive_credit_grant_def Let_def split: if_splits)

lemma handle_frame_Inr_iff:
  "(\<exists>cs. handle_frame f c = Inr cs) \<longleftrightarrow>
     Kind f = KindChannelData \<or>
     (Kind f = KindCredit \<and> (\<exists>n. Payload f = credit_payload (ChannelID f) n))"
proof -
  have "length p = 8 \<Longrightarrow> p = credit_payload (get_u32 (take 4 p)) (get_u32 (take 4 (drop 4 p)))" for p :: bytes
    by (simp add: credit_payload_def put_get_u32)
  moreover have "length (credit_payload i n) = 8" "get_u32 (take 4 (credit_payload i n)) = i" for i n
    by (simp_all add: credit_payload_def)
  ultimately show ?thesis
    by (auto simp: handle_frame_def creditFramePayloadLen_def Let_def) metis
qed

section \<open>Properties of the routing\<close>

text \<open>
  C38: exactly the frames of the channel protocol are accepted. On a registry whose
  channels are stored under their ids, a frame is handled without a protocol violation if and only if its
  channel is registered, or gets registered within the grace, and it is a data frame, or a
  credit frame whose 8-byte payload repeats the header's channel id.
\<close>

theorem channel_frame_accepted_iff:
  assumes "wf_registry r"
  shows "(\<exists>rs. handle_channel_frame regs f r = Inr rs) \<longleftrightarrow>
    (r (ChannelID f) \<noteq> None \<or> ChannelID f \<in> chanId ` set regs) \<and>
    (Kind f = KindChannelData \<or>
     (Kind f = KindCredit \<and> (\<exists>n. Payload f = put_u32 (ChannelID f) @ put_u32 n)))"
proof (cases "await_channel (ChannelID f) regs r")
  case (Pair x r')
  show ?thesis
  proof (cases x)
    case None
    then have "r (ChannelID f) = None \<and> ChannelID f \<notin> chanId ` set regs"
      using await_channel_wf [OF assms Pair] Pair
      by (cases "r (ChannelID f)") (auto simp: await_channel_registered)
    with Pair None show ?thesis by (simp add: handle_channel_frame_def)
  next
    case (Some c)
    then have "r (ChannelID f) \<noteq> None \<or> ChannelID f \<in> chanId ` set regs"
      using await_channel_unknown [of r "ChannelID f" regs] Pair by fastforce
    with Pair Some show ?thesis
      using handle_frame_Inr_iff [of f c]
      by (auto simp: handle_channel_frame_def credit_payload_def split: sum.splits)
  qed
qed

theorem channel_frame_accepted_iff_witness:
  "\<exists>rs. handle_channel_frame [new_credit_channel 3 4 1024] \<lparr>Kind = KindCredit, ChannelID = 3, Payload = put_u32 3 @ put_u32 2\<rparr>
     new_registry = Inr rs"
  by (subst channel_frame_accepted_iff) (auto simp: new_credit_channel_def)

text \<open>
  a frame touches only its own channel, and does to it what it says. After a data frame
  for a registered open channel with room, its payload is the last in that channel's buffer; after a
  credit frame of \<open>n\<close>, its window is \<open>n\<close> larger; every other channel is as before, and
  the registry stays well formed.
\<close>

theorem channel_frame_effect:
  assumes "wf_registry r" and "r (ChannelID f) = Some c" and "handle_channel_frame regs f r = Inr rs"
    and "r' \<in> set rs" and "\<not> doneClosed c" and "wf_credit_channel c" and "sendCred c + 2 ^ 32 < 2 ^ 63"
  shows "wf_registry r' \<and> (\<forall>j. j \<noteq> ChannelID f \<longrightarrow> r' j = r j) \<and>
    (if Kind f = KindChannelData
     then r' (ChannelID f) = Some (c\<lparr>recvCh := recvCh c @ [Payload f]\<rparr>)
     else r' (ChannelID f) = Some (c\<lparr>sendCred := sendCred c + int (unat (get_u32 (drop 4 (Payload f))))\<rparr>))"
proof -
  from assms(2,3) obtain cs where cs: "handle_frame f c = Inr cs"
    and rs: "rs = map (\<lambda>c'. r(ChannelID f \<mapsto> c')) cs"
    by (auto simp: handle_channel_frame_def await_channel_registered split: sum.splits)
  with assms(4) obtain c' where c': "c' \<in> set cs" "r' = r(ChannelID f \<mapsto> c')" by auto
  have "wf_registry r'"
    using assms(1,2) c' handle_frame_keeps_id [OF cs c'(1)] by (auto simp: wf_registry_def)
  moreover have "if Kind f = KindChannelData
     then c' = c\<lparr>recvCh := recvCh c @ [Payload f]\<rparr>
     else c' = c\<lparr>sendCred := sendCred c + int (unat (get_u32 (drop 4 (Payload f))))\<rparr>"
  proof (cases "Kind f = KindChannelData")
    case True
    with cs c'(1) assms(5) show ?thesis
      by (auto simp: handle_frame_def deliver_data_def split: if_splits)
  next
    case False
    with cs have k: "length (Payload f) = 8"
      and cs': "cs = [receive_credit_grant (int (unat (get_u32 (take 4 (drop 4 (Payload f)))))) c]"
      by (auto simp: handle_frame_def creditFramePayloadLen_def Let_def split: if_splits)
    define n where "n = unat (get_u32 (drop 4 (Payload f)))"
    have "n < 2 ^ 32"
      using unsigned_less [of "get_u32 (drop 4 (Payload f))", where 'a = nat] by (simp add: n_def)
    then have "int64 (sendCred c + int n) = sendCred c + int n"
      using assms(6,7) by (intro int64_id) (auto simp: wf_credit_channel_def)
    with False c'(1) cs' k show ?thesis
      unfolding n_def by (cases c) (auto simp: receive_credit_grant_def)
  qed
  ultimately show ?thesis
    using c'(2) by auto
qed

definition demo_credit :: credit_channel where
  "demo_credit = new_credit_channel 3 4 1024"

lemma demo_credit_simps [simp]:
  "chanId demo_credit = 3" "sendCred demo_credit = 4" "recvCh demo_credit = []"
  "\<not> isClosed demo_credit" "\<not> doneClosed demo_credit"
  by (simp_all add: demo_credit_def new_credit_channel_def)

lemma demo_handled:
  "handle_channel_frame [] \<lparr>Kind = KindChannelData, ChannelID = 3, Payload = [7]\<rparr> [3 \<mapsto> demo_credit] =
     Inr [[3 \<mapsto> demo_credit\<lparr>recvCh := [[7]]\<rparr>]]"
  by (simp add: handle_channel_frame_def await_channel_registered handle_frame_def deliver_data_def
      recvChCap_def)

theorem channel_frame_effect_witness:
  "wf_registry [3 \<mapsto> demo_credit\<lparr>recvCh := [[7]]\<rparr>]"
proof -
  have "wf_registry [3 \<mapsto> demo_credit]" by (simp add: wf_registry_def)
  from channel_frame_effect [OF this _ demo_handled, of demo_credit "[3 \<mapsto> demo_credit\<lparr>recvCh := [[7]]\<rparr>]"]
  show ?thesis by (simp add: wf_credit_channel_def)
qed

end
