(* ===== verification/Transport_Open.thy ===== *)
theory Transport_Open
  imports Json_Struct Transport_Registry Relay_Coupling
begin

text \<open>
  \<open>internal/transport/open.go\<close>: \<open>channel.open\<close> and \<open>channel.close\<close>, and the methods of
  \<open>Channel\<close> that reach its credit channel. Channels are shared by the registry, the session
  and the relay, so they live in a store and are named by references.
\<close>

section \<open>Purposes\<close>

definition PurposeTCPRelay :: string where "PurposeTCPRelay = ''tcp-relay''"
definition PurposeEmbedStream :: string where "PurposeEmbedStream = ''embed-stream''"

definition tcpRelayMaxFramePayload :: int where "tcpRelayMaxFramePayload = 1024 * 1024"
definition embedStreamMaxFramePayload :: int where "embedStreamMaxFramePayload = 64 * 1024"

definition purpose_params :: "string \<Rightarrow> go_error + int \<times> int" where
  "purpose_params purpose =
     (if purpose = PurposeTCPRelay then Inr (TCPRelayInitialCredit, tcpRelayMaxFramePayload)
      else if purpose = PurposeEmbedStream then Inr (EmbedStreamInitialCredit, embedStreamMaxFramePayload)
      else Inl (Errorf (''transport: unknown channel purpose '' @ purpose) []))"

section \<open>The wire structs\<close>

definition channel_open_params :: "string \<Rightarrow> string \<Rightarrow> string \<Rightarrow> json" where
  "channel_open_params purpose parent hint =
     JObj ([(''purpose'', JStr purpose)] @ opt_string ''parentSessionId'' parent @ opt_string ''hint'' hint)"

definition channel_open_result :: "string \<Rightarrow> json \<Rightarrow> u32 \<Rightarrow> u32 option" where
  "channel_open_result k j r = (if field_is ''channelId'' k then set_u32 r j else Some r)"

definition channel_close_params :: "u32 \<Rightarrow> string \<Rightarrow> string \<Rightarrow> json" where
  "channel_close_params i reason msg =
     JObj ([(''channelId'', JNum (show_nat (unat i)))] @ opt_string ''reason'' reason @ opt_string ''message'' msg)"

section \<open>The store\<close>

text \<open>
  A \<open>Channel\<close>: its source and sink, one credit channel (\<open>None\<close> for another
  \<open>FrameSource\<close>), its addresses, and whether \<open>closed\<close> has been closed.
\<close>

record endpoint =
  Source :: "credit_channel option"
  Local :: addr
  Remote :: addr
  ChunkSize :: int
  Shut :: bool

definition new_channel :: "credit_channel option \<Rightarrow> addr \<Rightarrow> addr \<Rightarrow> int \<Rightarrow> endpoint" where
  "new_channel cc local remote m =
     \<lparr>Source = cc, Local = local, Remote = remote,
      ChunkSize = (if m \<le> 0 then int DefaultMaxFramePayload else m), Shut = False\<rparr>"

type_synonym channel_ref = nat

text \<open>
  The store of channels, the registry (which points into the store), and the rest of the
  world: the host.
\<close>

record 'h proc =
  objs :: "endpoint list"
  reg :: "u32 \<rightharpoonup> channel_ref"
  host :: 'h

definition on_endpoint :: "channel_ref \<Rightarrow> (endpoint \<Rightarrow> endpoint) \<Rightarrow> 'h proc \<Rightarrow> 'h proc" where
  "on_endpoint r f p = p\<lparr>objs := (objs p)[r := f (objs p ! r)]\<rparr>"

text \<open>The value the registry of \<open>Transport_Registry\<close> sees.\<close>

definition registry_of :: "'h proc \<Rightarrow> registry" where
  "registry_of p = (\<lambda>i. Option.bind (reg p i) (\<lambda>r. Source (objs p ! r)))"

section \<open>Open and close\<close>

definition open_channel ::
    "'h rpc_caller \<Rightarrow> bool \<Rightarrow> string \<Rightarrow> string \<Rightarrow> string \<Rightarrow> 'h proc \<Rightarrow> (channel_ref, 'h proc) outcome" where
  "open_channel caller registered purpose parent hint p =
     (case purpose_params purpose of
        Inl err \<Rightarrow> (Inl err, p)
      | Inr (initialCredit, maxPay) \<Rightarrow>
         (case call_rpc caller ''channel.open'' (channel_open_params purpose parent hint)
                 (unmarshal_struct channel_open_result 0) 0 (host p) of
            (Inl err, h) \<Rightarrow> (Inl (Wrapf ''transport: channel.open(%s)'' err), p\<lparr>host := h\<rparr>)
          | (Inr i, h) \<Rightarrow>
              (let cc = new_credit_channel i initialCredit maxPay;
                   a = \<lparr>AddrChannelID = i, Purpose = purpose\<rparr>;
                   r = length (objs p) in
               (Inr r,
                p\<lparr>objs := objs p @ [new_channel (Some cc) a a maxPay],
                  reg := if registered then (reg p)(i \<mapsto> r) else reg p,
                  host := h\<rparr>))))"

text \<open>\<open>Channel.Close\<close>: \<open>closeOnce\<close>.\<close>

definition endpoint_close :: "endpoint \<Rightarrow> endpoint" where
  "endpoint_close e = e\<lparr>Shut := True\<rparr>"

definition close_channel ::
    "'h rpc_caller option \<Rightarrow> channel_ref \<Rightarrow> string \<Rightarrow> string \<Rightarrow> 'h proc \<Rightarrow> (unit, 'h proc) outcome" where
  "close_channel caller r reason msg p =
     (case Source (objs p ! r) of
        None \<Rightarrow> (Inr (), on_endpoint r endpoint_close p)
      | Some cc \<Rightarrow>
          let p = on_endpoint r (\<lambda>e. endpoint_close (e\<lparr>Source := Some (close cc)\<rparr>)) p in
          (case caller of
             None \<Rightarrow> (Inr (), p)
           | Some c \<Rightarrow>
              (case Notify c ''channel.close'' (channel_close_params (chanId cc) reason msg) (host p) of
                 (err, h) \<Rightarrow> (err, p\<lparr>host := h\<rparr>))))"

text \<open>\<open>Channel.GrantCredit\<close> and \<open>Channel.SendCreditRemaining\<close>.\<close>

definition channel_grant_credit ::
    "(kind \<Rightarrow> u32 \<Rightarrow> bytes \<Rightarrow> 'h \<Rightarrow> (unit, 'h) outcome) \<Rightarrow> channel_ref \<Rightarrow> int \<Rightarrow> 'h proc \<Rightarrow> (unit, 'h proc) outcome" where
  "channel_grant_credit enc r n p =
     (case Source (objs p ! r) of
        None \<Rightarrow> (Inl (Errorf ''transport: GrantCredit requires a credit-windowed channel'' []), p)
      | Some cc \<Rightarrow> (case grant_credit enc n cc (host p) of (res, h) \<Rightarrow> (res, p\<lparr>host := h\<rparr>)))"

definition send_credit_remaining :: "channel_ref \<Rightarrow> 'h proc \<Rightarrow> int \<times> bool" where
  "send_credit_remaining r p =
     (case Source (objs p ! r) of None \<Rightarrow> (0, False) | Some cc \<Rightarrow> (remaining cc, True))"

section \<open>The store invariant\<close>

text \<open>
  Every reference the registry holds is in the store, at a channel with that id; every channel
  splits writes at its credit channel's ceiling; a shut channel of \<open>CloseChannel\<close> has its
  credit channel closed.
\<close>

definition wf_endpoint :: "endpoint \<Rightarrow> bool" where
  "wf_endpoint e \<longleftrightarrow> 0 < ChunkSize e \<and>
     (case Source e of
        None \<Rightarrow> True
      | Some cc \<Rightarrow> ChunkSize e = maxPayload cc \<and> ChunkSize e \<le> int MaxFrameLength \<and>
          AddrChannelID (Local e) = chanId cc \<and> Remote e = Local e \<and> (Shut e \<longrightarrow> doneClosed cc) \<and>
          (doneClosed cc \<longrightarrow> isClosed cc))"

definition wf_proc :: "'h proc \<Rightarrow> bool" where
  "wf_proc p \<longleftrightarrow> list_all wf_endpoint (objs p) \<and>
     (\<forall>i r. reg p i = Some r \<longrightarrow> r < length (objs p) \<and> map_option chanId (Source (objs p ! r)) = Some i)"

named_theorems proc_defs
lemmas [proc_defs] = open_channel_def close_channel_def on_endpoint_def endpoint_close_def new_channel_def
  purpose_params_def PurposeTCPRelay_def PurposeEmbedStream_def tcpRelayMaxFramePayload_def
  embedStreamMaxFramePayload_def TCPRelayInitialCredit_def EmbedStreamInitialCredit_def

lemma purpose_params_Inr:
  "purpose_params purpose = Inr (ic, mp) \<longleftrightarrow>
     (purpose, ic, mp) \<in> {(''tcp-relay'', 4, 1048576), (''embed-stream'', 8, 65536)}"
  by (auto simp: proc_defs)

lemma open_channel_Inr:
  assumes "open_channel caller b purpose parent hint p = (Inr r, p')"
  obtains ic mp i h where
    "(purpose, ic, mp) \<in> {(''tcp-relay'', 4, 1048576), (''embed-stream'', 8, 65536)}"
    "call_rpc caller ''channel.open'' (channel_open_params purpose parent hint)
       (unmarshal_struct channel_open_result 0) 0 (host p) = (Inr i, h)"
    "r = length (objs p)"
    "p' = p\<lparr>objs := objs p @ [\<lparr>Source = Some (new_credit_channel i ic mp),
             Local = \<lparr>AddrChannelID = i, Purpose = purpose\<rparr>, Remote = \<lparr>AddrChannelID = i, Purpose = purpose\<rparr>,
             ChunkSize = mp, Shut = False\<rparr>],
           reg := if b then (reg p)(i \<mapsto> r) else reg p, host := h\<rparr>"
proof -
  obtain ic mp where pp: "purpose_params purpose = Inr (ic, mp)"
    using assms by (cases "purpose_params purpose") (auto simp: open_channel_def)
  then have "0 < mp" by (auto simp: purpose_params_Inr)
  with pp assms that [of ic mp] show ?thesis
    by (fastforce simp: open_channel_def new_channel_def purpose_params_Inr Let_def
        split: prod.splits sum.splits)
qed

lemma open_channel_Inl:
  "open_channel caller b purpose parent hint p = (Inl e, p') \<Longrightarrow> objs p' = objs p \<and> reg p' = reg p"
  by (auto simp: open_channel_def Let_def split: prod.splits sum.splits)

lemma wf_opened [simp]:
  "0 < mp \<Longrightarrow> mp \<le> int MaxFrameLength \<Longrightarrow>
   wf_endpoint \<lparr>Source = Some (new_credit_channel i ic mp), Local = \<lparr>AddrChannelID = i, Purpose = q\<rparr>,
     Remote = \<lparr>AddrChannelID = i, Purpose = q\<rparr>, ChunkSize = mp, Shut = False\<rparr>"
  by (simp add: wf_endpoint_def new_credit_channel_def)

lemma wf_proc_alloc:
  "wf_proc p \<Longrightarrow> wf_endpoint e \<Longrightarrow> map_option chanId (Source e) = Some i \<Longrightarrow>
   wf_proc (p\<lparr>objs := objs p @ [e], reg := if b then (reg p)(i \<mapsto> length (objs p)) else reg p, host := h\<rparr>)"
  unfolding wf_proc_def by (fastforce simp: nth_append less_Suc_eq split: if_splits)

lemma wf_proc_host [simp]: "wf_proc (p\<lparr>host := h\<rparr>) = wf_proc p"
  by (simp add: wf_proc_def)

text \<open>An update in place keeps the id of the channel.\<close>

lemma on_endpoint_wf:
  assumes "wf_proc p" and "r < length (objs p)" and "wf_endpoint (f (objs p ! r))"
    and "map_option chanId (Source (f (objs p ! r))) = map_option chanId (Source (objs p ! r))"
  shows "wf_proc (on_endpoint r f p)"
  using assms
  by (auto simp: wf_proc_def on_endpoint_def list_all_length nth_list_update simp del: map_option_eq_Some)

lemma open_channel_wf:
  assumes "wf_proc p" and o: "open_channel caller b purpose parent hint p = (res, p')"
  shows "wf_proc p'"
proof (cases res)
  case (Inl e)
  with o assms(1) show ?thesis
    using open_channel_Inl [of caller b purpose parent hint p e p'] by (simp add: wf_proc_def)
next
  case (Inr r)
  obtain ic mp i h where
    "(purpose, ic, mp) \<in> {(''tcp-relay'', 4, 1048576), (''embed-stream'', 8, 65536)}" and r: "r = length (objs p)"
    and p': "p' = p\<lparr>objs := objs p @ [\<lparr>Source = Some (new_credit_channel i ic mp),
             Local = \<lparr>AddrChannelID = i, Purpose = purpose\<rparr>, Remote = \<lparr>AddrChannelID = i, Purpose = purpose\<rparr>,
             ChunkSize = mp, Shut = False\<rparr>],
           reg := if b then (reg p)(i \<mapsto> r) else reg p, host := h\<rparr>"
    using o Inr by (auto elim: open_channel_Inr)
  then have "0 < mp" "mp \<le> int MaxFrameLength" by (auto simp: MaxFrameLength_def)
  then show ?thesis
    unfolding p' r by (intro wf_proc_alloc assms wf_opened) (simp_all add: new_credit_channel_def)
qed

lemma close_fields [simp]:
  "chanId (close c) = chanId c" "maxPayload (close c) = maxPayload c" "recvCh (close c) = recvCh c"
  "sendCred (close c) = sendCred c" "doneClosed (close c)" "close (close c) = close c"
  "(doneClosed c \<longrightarrow> isClosed c) \<Longrightarrow> isClosed (close c)"
  by (simp_all add: close_def close_flag_def close_done_def)

lemma close_channel_shape:
  "close_channel caller r reason msg p = (res, p') \<Longrightarrow>
     reg p' = reg p \<and>
     objs p' = (objs p)[r := (objs p ! r)\<lparr>Source := map_option close (Source (objs p ! r)), Shut := True\<rparr>]"
  by (cases "objs p ! r")
    (auto simp: close_channel_def on_endpoint_def endpoint_close_def Let_def split: option.splits prod.splits)

lemma close_channel_wf:
  assumes "wf_proc p" and c: "close_channel caller r reason msg p = (res, p')" and "r < length (objs p)"
  shows "wf_proc p'"
proof -
  let ?f = "\<lambda>e. e\<lparr>Source := map_option close (Source e), Shut := True\<rparr>"
  have p': "p' = (on_endpoint r ?f p)\<lparr>host := host p'\<rparr>"
    using close_channel_shape [OF c] by (cases p') (simp add: on_endpoint_def)
  have "wf_endpoint (objs p ! r)"
    using assms by (simp add: wf_proc_def list_all_length)
  then have "wf_endpoint (?f (objs p ! r))"
    by (auto simp: wf_endpoint_def split: option.splits)
  moreover have "map_option chanId (Source (?f (objs p ! r))) = map_option chanId (Source (objs p ! r))"
    by (cases "Source (objs p ! r)") simp_all
  ultimately have "wf_proc (on_endpoint r ?f p)"
    using assms by (intro on_endpoint_wf) auto
  then show ?thesis
    by (subst p') simp
qed

section \<open>Properties\<close>

text \<open>
  what \<open>channel.open\<close> opens. If the host's answer decodes to a channel id, the new channel
  has the window and the frame ceiling of its purpose (4 frames and 1 MiB for \<open>tcp-relay\<close>, 8
  frames and 64 KiB for \<open>embed-stream\<close>), it is empty and not closed, the registry routes that id
  to it and every other id as before, and no other channel is touched; on any failure (unknown
  purpose, the host's error, an undecodable answer) neither the store nor the registry changes.
\<close>

theorem open_channel_spec:
  assumes "wf_proc p" and "open_channel caller True purpose parent hint p = (res, p')"
  shows "case res of
      Inl e \<Rightarrow> objs p' = objs p \<and> registry_of p' = registry_of p
    | Inr r \<Rightarrow> \<exists>i ic mp. (purpose, ic, mp) \<in> {(''tcp-relay'', 4, 1048576), (''embed-stream'', 8, 65536)} \<and>
        Source (objs p' ! r) = Some \<lparr>chanId = i, maxPayload = mp, sendCred = ic, isClosed = False, recvCh = [],
          doneClosed = False\<rparr> \<and>
        ChunkSize (objs p' ! r) = mp \<and> \<not> Shut (objs p' ! r) \<and>
        registry_of p' = (registry_of p)(i := Source (objs p' ! r)) \<and> take r (objs p') = objs p"
proof (cases res)
  case (Inl e)
  with assms open_channel_Inl [of caller True purpose parent hint p e p'] show ?thesis
    by (simp add: registry_of_def)
next
  case (Inr r)
  have old: "reg p j = Some q \<Longrightarrow> q < length (objs p)" for j q
    using assms(1) by (auto simp: wf_proc_def)
  have "Option.bind (reg p j) (\<lambda>q. Source ((objs p @ [e]) ! q)) = Option.bind (reg p j) (\<lambda>q. Source (objs p ! q))" for j e
    using old by (cases "reg p j") (auto simp: nth_append)
  with assms(2) Inr show ?thesis
    by (auto elim!: open_channel_Inr simp: registry_of_def new_credit_channel_def fun_eq_iff)
qed

text \<open>A host that answers every request with the channel id 7, and every notification with success.\<close>

definition demo_caller :: "unit rpc_caller" where
  "demo_caller =
     \<lparr>Call = (\<lambda>method params h. (Inr \<lparr>RespID = JStr ''xqs-vnc-1'', Result = Some (JObj [(''channelId'', JNum ''7'')]),
        Error = None\<rparr>, h)),
      Notify = (\<lambda>method params h. (Inr (), h))\<rparr>"

lemma demo_notify [simp]: "Notify demo_caller method params h = (Inr (), h)"
  by (simp add: demo_caller_def)

definition demo_proc :: "unit proc" where
  "demo_proc = \<lparr>objs = [], reg = Map.empty, host = ()\<rparr>"

lemma wf_demo_proc [simp]: "wf_proc demo_proc"
  by (simp add: wf_proc_def demo_proc_def)

lemma demo_channel_id [simp]: "channel_open_result ''channelId'' (JNum ''7'') 0 = Some 7"
  by (simp add: channel_open_result_def field_is_def set_u32_def is_digit_def read_nat_def digit_val_def)

lemma demo_open:
  "open_channel demo_caller True ''tcp-relay'' ''s'' ''h:5900'' demo_proc =
     (Inr 0, \<lparr>objs = [\<lparr>Source = Some (new_credit_channel 7 4 1048576), Local = \<lparr>AddrChannelID = 7, Purpose = ''tcp-relay''\<rparr>,
        Remote = \<lparr>AddrChannelID = 7, Purpose = ''tcp-relay''\<rparr>, ChunkSize = 1048576, Shut = False\<rparr>],
        reg = [7 \<mapsto> 0], host = ()\<rparr>)"
  by (simp add: proc_defs demo_caller_def demo_proc_def call_rpc_def call_result_def Let_def)

theorem open_channel_spec_witness:
  "\<exists>i ic mp p'. open_channel demo_caller True ''tcp-relay'' ''s'' ''h:5900'' demo_proc = (Inr 0, p') \<and>
     (''tcp-relay'', ic, mp) \<in> {(''tcp-relay'', 4, 1048576), (''embed-stream'', 8, 65536)} \<and>
     registry_of p' = (registry_of demo_proc)(i := Source (objs p' ! 0))"
  using open_channel_spec [OF wf_demo_proc demo_open] demo_open by auto

text \<open>
  C40: a write on an opened channel is never refused for its size. Every chunk that
  \<open>Channel.Write\<close> makes of any data, on a channel \<open>OpenChannel\<close> has just opened, passes the
  credit channel's size check and the frame codec, and on an \<open>embed-stream\<close> channel it is at
  most 64 KiB, the host's own ceiling for that purpose.
\<close>

theorem opened_writes_fit:
  assumes "open_channel caller b purpose parent hint p = (Inr r, p')"
    and "chunk \<in> set (split_payload payload (ChunkSize (objs p' ! r)))"
  shows "\<exists>cc. Source (objs p' ! r) = Some cc \<and> \<not> send_refused chunk cc \<and> chunk \<noteq> [] \<and>
    wf_frame \<lparr>Kind = KindChannelData, ChannelID = chanId cc, Payload = chunk\<rparr> \<and>
    length chunk \<le> (if purpose = ''embed-stream'' then 65536 else 1048576)"
proof -
  obtain ic mp i h where mp: "(purpose, ic, mp) \<in> {(''tcp-relay'', 4, 1048576), (''embed-stream'', 8, 65536)}"
    and p': "Source (objs p' ! r) = Some (new_credit_channel i ic mp)" "ChunkSize (objs p' ! r) = mp"
    using assms(1) by (elim open_channel_Inr) simp
  have "0 < mp" "mp = (if purpose = ''embed-stream'' then 65536 else 1048576)" using mp by auto
  then have "chunk \<noteq> [] \<and> length chunk \<le> (if purpose = ''embed-stream'' then 65536 else 1048576)"
    using assms(2) p'(2) split_loop_sizes [of "max_payload mp" payload]
    by (auto simp: split_payload_loop list_all_iff max_payload_def)
  with p' \<open>mp = _\<close> show ?thesis
    by (auto simp: send_refused_def new_credit_channel_def wf_frame_def MaxFrameLength_def
        is_reserved_or_unknown_kind_def KindChannelData_def KindCredit_def KindJSONRPC_def split: if_splits)
qed

theorem opened_writes_fit_witness:
  "\<exists>p' cc. open_channel demo_caller True ''tcp-relay'' ''s'' ''h:5900'' demo_proc = (Inr 0, p') \<and>
     [1, 2] \<in> set (split_payload [1, 2] (ChunkSize (objs p' ! 0))) \<and> Source (objs p' ! 0) = Some cc \<and>
     \<not> send_refused [1, 2] cc"
proof -
  let ?p = "snd (open_channel demo_caller True ''tcp-relay'' ''s'' ''h:5900'' demo_proc)"
  have "[1, 2] \<in> set (split_payload [1, 2] (ChunkSize (objs ?p ! 0)))"
    by (simp add: demo_open split_payload_def)
  moreover have o: "open_channel demo_caller True ''tcp-relay'' ''s'' ''h:5900'' demo_proc = (Inr 0, ?p)"
    by (simp add: demo_open)
  ultimately show ?thesis using opened_writes_fit by blast
qed

text \<open>
  \<open>CloseChannel\<close> always closes locally. Whatever the notification to the host does, the
  channel ends up shut with its credit channel closed: a further \<open>Send\<close> fails with \<open>ErrClosed\<close> at
  once, data received before the close stays readable, no other channel and no registry entry
  changes; the result is the notification's. A second close changes nothing in the store.
\<close>

theorem close_channel_spec:
  assumes "wf_proc p" and "r < length (objs p)" and "Source (objs p ! r) = Some cc"
    and "close_channel caller r reason msg p = (res, p')"
  shows "Shut (objs p' ! r) \<and> Source (objs p' ! r) = Some (close cc) \<and>
    send_acquire (close cc) = Some (Inl ErrClosed) \<and> recvCh (close cc) = recvCh cc \<and>
    (\<forall>q. q \<noteq> r \<longrightarrow> objs p' ! q = objs p ! q) \<and> reg p' = reg p \<and>
    res = (case caller of None \<Rightarrow> Inr ()
           | Some c \<Rightarrow> fst (Notify c ''channel.close'' (channel_close_params (chanId cc) reason msg) (host p))) \<and>
    objs (snd (close_channel caller' r reason' msg' p')) = objs p'"
proof -
  have o: "objs p' = (objs p)[r := (objs p ! r)\<lparr>Source := Some (close cc), Shut := True\<rparr>]"
    using close_channel_shape [OF assms(4)] assms(3) by simp
  have "wf_endpoint (objs p ! r)" using assms(1,2) by (simp add: wf_proc_def list_all_length)
  with assms(3) have "doneClosed cc \<longrightarrow> isClosed cc" by (simp add: wf_endpoint_def)
  moreover have "objs (snd (close_channel caller' r reason' msg' p')) = objs p'"
    using close_channel_shape [of caller' r reason' msg' p'] o assms(2) by (metis (no_types, lifting)
      close_fields(6) endpoint.surjective endpoint.update_convs(1,5) list_update_overwrite nth_list_update_eq
      option.map(2) prod.collapse endpoint.select_convs(1))
  moreover have "res = (case caller of None \<Rightarrow> Inr ()
           | Some c \<Rightarrow> fst (Notify c ''channel.close'' (channel_close_params (chanId cc) reason msg) (host p)))"
    using assms(3,4) by (auto simp: close_channel_def Let_def on_endpoint_def split: option.splits prod.splits)
  ultimately show ?thesis
    using o assms(2) close_channel_shape [OF assms(4)] by auto
qed

theorem close_channel_spec_witness:
  "\<exists>p p'. wf_proc p \<and> close_channel (Some demo_caller) 0 ''reconnect'' [] p = (Inr (), p') \<and> Shut (objs p' ! 0) \<and>
     \<not> Shut (objs p ! 0)"
proof -
  let ?p = "snd (open_channel demo_caller True ''tcp-relay'' ''s'' ''h:5900'' demo_proc)"
  let ?q = "close_channel (Some demo_caller) 0 ''reconnect'' [] ?p"
  have "wf_proc ?p"
    using open_channel_wf [OF wf_demo_proc] by (metis prod.collapse)
  moreover have "fst ?q = Inr ()"
    unfolding demo_open by (simp add: close_channel_def on_endpoint_def Let_def)
  ultimately show ?thesis
    using close_channel_spec [of ?p 0 "new_credit_channel 7 4 1048576" "Some demo_caller" "''reconnect''" "[]" "Inr ()" "snd ?q"]
    by (intro exI [of _ ?p] exI [of _ "snd ?q"]) (auto simp: demo_open prod_eq_iff)
qed

end
