(* ===== verification/Ipc_Dispatch.thy ===== *)
theory Ipc_Dispatch
  imports Ipc_Rpc
begin

text \<open>
  \<open>internal/ipc/dispatch.go\<close> and \<open>internal/ipc/redact.go\<close>: the routing of decoded frames to
  the RPC handler or the channel handler, and the redaction of parameters for logs.
\<close>

section \<open>Dispatch\<close>

definition MaxJSONRPCFrameLength :: nat where
  "MaxJSONRPCFrameLength = 256 * 1024"

definition errNoRPCHandler :: go_error where
  "errNoRPCHandler = DispatchConfigError ''no RPCHandler configured''"

definition errNoChannelHandler :: go_error where
  "errNoChannelHandler = DispatchConfigError ''no ChannelDataHandler configured''"

record 's dispatcher =
  RPC :: "(message \<Rightarrow> 's \<Rightarrow> (unit, 's) outcome) option"
  Channel :: "(frame \<Rightarrow> 's \<Rightarrow> (unit, 's) outcome) option"

definition dispatch ::
    "(string \<Rightarrow> string option) \<Rightarrow> 's dispatcher \<Rightarrow> frame \<Rightarrow> 's \<Rightarrow> (unit, 's) outcome" where
  "dispatch float d f s =
     (if ChannelID f = 0 then
        if Kind f \<noteq> KindJSONRPC
        then (Inl (ProtocolViolationError ''non-JSON-RPC kind on control plane'' (Kind f)
                (word_of_nat (length (Payload f)))), s)
        else if length (Payload f) > MaxJSONRPCFrameLength
        then (Inl (ProtocolViolationError ''oversize JSON-RPC frame'' (Kind f)
                (word_of_nat (length (Payload f)))), s)
        else
          (case RPC d of
             None \<Rightarrow> (Inl errNoRPCHandler, s)
           | Some handle \<Rightarrow>
               io_bind (io_check (decode_message float (Payload f)) s) (\<lambda>msg s. handle msg s))
      else
        (case Channel d of
           None \<Rightarrow> (Inl errNoChannelHandler, s)
         | Some handle \<Rightarrow> handle f s))"

section \<open>Redaction\<close>

definition RedactedPlaceholder :: string where
  "RedactedPlaceholder = ''[REDACTED]''"

definition sensitiveKeys :: "string list" where
  "sensitiveKeys = [''password'', ''secret'', ''token'', ''key'', ''passphrase'', ''credential'', ''credentials'']"

definition lower :: "string \<Rightarrow> string" where
  "lower s = map lower_char s"

definition is_sensitive_key :: "string \<Rightarrow> bool" where
  "is_sensitive_key k \<longleftrightarrow> lower k \<in> set sensitiveKeys"

fun redact_value :: "json \<Rightarrow> json" where
  "redact_value (JObj ms) =
     JObj (map (\<lambda>(k, j). (k, if is_sensitive_key k then JStr RedactedPlaceholder else redact_value j)) ms)"
| "redact_value (JArr js) = JArr (map redact_value js)"
| "redact_value j = j"

definition redact_json :: "(string \<Rightarrow> string option) \<Rightarrow> bytes \<Rightarrow> bytes" where
  "redact_json float payload =
     (if payload = [] then payload
      else case Option.bind (json_parse payload) (any_value float) of
        None \<Rightarrow> payload
      | Some v \<Rightarrow> json_print (redact_value v))"

section \<open>Properties\<close>

text \<open>
  routing. Control-plane frames reach the RPC handler only as a decoded message of a
  JSON-RPC frame of at most 256 KiB, and channel frames reach the channel handler
  unchanged; in every other case no handler runs and the state is untouched.
\<close>

theorem dispatch_routes:
  assumes "RPC d = Some rpc" and "Channel d = Some chan"
  shows "dispatch float d f s =
    (if ChannelID f \<noteq> 0 then chan f s
     else case (if Kind f = KindJSONRPC \<and> length (Payload f) \<le> 262144
                then decode_message float (Payload f)
                else Inl (ProtocolViolationError
                       (if Kind f \<noteq> KindJSONRPC then ''non-JSON-RPC kind on control plane''
                        else ''oversize JSON-RPC frame'')
                       (Kind f) (word_of_nat (length (Payload f))))) of
       Inr m \<Rightarrow> rpc m s
     | Inl e \<Rightarrow> (Inl e, s))"
  using assms by (auto simp: dispatch_def MaxJSONRPCFrameLength_def split: sum.splits)

theorem dispatch_routes_witness:
  "dispatch Some \<lparr>RPC = Some (\<lambda>m s. (Inr (), s @ [m])), Channel = Some (\<lambda>f s. (Inr (), s))\<rparr>
     \<lparr>Kind = 2, ChannelID = 0, Payload = [1]\<rparr> [] =
   (Inl (ProtocolViolationError ''non-JSON-RPC kind on control plane'' 2 1), [])"
  by (subst dispatch_routes [where rpc = "\<lambda>m s. (Inr (), s @ [m])" and chan = "\<lambda>f s. (Inr (), s)"])
    simp_all

text \<open>No sensitive key with a value other than the placeholder, at any depth.\<close>

fun no_secrets :: "json \<Rightarrow> bool" where
  "no_secrets (JObj ms) \<longleftrightarrow>
     list_all (\<lambda>(k, j). if is_sensitive_key k then j = JStr RedactedPlaceholder else no_secrets j) ms"
| "no_secrets (JArr js) \<longleftrightarrow> list_all no_secrets js"
| "no_secrets _ \<longleftrightarrow> True"

lemma redact_no_secrets: "no_secrets (redact_value j)"
  by (induction j) (auto simp: list_all_iff)

lemma redact_id: "no_secrets j \<Longrightarrow> redact_value j = j"
proof (induction j)
  case (JObj ms)
  then have "map (\<lambda>(k, j). (k, if is_sensitive_key k then JStr RedactedPlaceholder else redact_value j)) ms = ms"
    by (intro map_idI) (auto simp: list_all_iff split: if_splits)
  then show ?case by simp
next
  case (JArr js)
  then show ?case by (simp add: list_all_iff map_idI)
qed simp_all

lemma wf_redact_value: "wf_json j \<Longrightarrow> wf_json (redact_value j)"
  by (induction j) (auto simp: list_all_iff)



end
