(* ===== verification/Rpc_Server.thy ===== *)
theory Rpc_Server
  imports Ipc_Dispatch Transport_Credit
begin

text \<open>
  What the RPC handlers of the plugin share: the helpers that write a response, and the
  contract every handler of control-plane messages keeps, one response per request. The handlers
  of \<open>internal/lifecycle\<close>, \<open>internal/session\<close> and the router of \<open>cmd/xqs-vnc\<close> are its
  instances.
\<close>

section \<open>Responses on the wire\<close>

definition ok_response :: "json \<Rightarrow> json \<Rightarrow> response" where
  "ok_response i result = \<lparr>RespID = i, Result = Some result, Error = None\<rparr>"

definition error_response :: "json \<Rightarrow> int \<Rightarrow> string \<Rightarrow> response" where
  "error_response i code msg =
     \<lparr>RespID = i, Result = None, Error = Some \<lparr>Code = code, Message = msg, Data = None\<rparr>\<rparr>"

text \<open>
  The response a peer decodes from a frame, if it is one. Of the messages on the control plane
  only responses count here: the plugin's own requests and notifications share the stream.
\<close>

definition frame_response :: "(string \<Rightarrow> string option) \<Rightarrow> frame \<Rightarrow> response option" where
  "frame_response float f =
     (if Kind f = KindJSONRPC \<and> ChannelID f = 0
      then case decode_message float (Payload f) of Inr (MessageResponse r) \<Rightarrow> Some r | _ \<Rightarrow> None
      else None)"

definition responses_of :: "(string \<Rightarrow> string option) \<Rightarrow> frame list \<Rightarrow> response list" where
  "responses_of float fs = List.map_filter (frame_response float) fs"

lemma responses_of_append [simp]:
  "responses_of float (fs @ gs) = responses_of float fs @ responses_of float gs"
  by (simp add: responses_of_def List.map_filter_def)

lemma responses_of_simps [simp]:
  "responses_of float [] = []"
  "responses_of float (f # fs) =
     (case frame_response float f of None \<Rightarrow> responses_of float fs | Some r \<Rightarrow> r # responses_of float fs)"
  by (simp_all add: responses_of_def List.map_filter_def split: option.splits)

definition response_frame :: "response \<Rightarrow> frame" where
  "response_frame r = \<lparr>Kind = KindJSONRPC, ChannelID = 0, Payload = encode_response r\<rparr>"

lemma frame_response_response [simp]:
  "wf_message float (MessageResponse r) \<Longrightarrow> frame_response float (response_frame r) = Some r"
  using message_decodes [of float "MessageResponse r"] by (simp add: frame_response_def response_frame_def)

lemma frame_response_notification [simp]:
  "wf_message float (MessageNotification n) \<Longrightarrow>
   frame_response float \<lparr>Kind = KindJSONRPC, ChannelID = 0, Payload = encode_notification n\<rparr> = None"
  using message_decodes [of float "MessageNotification n"] by (simp add: frame_response_def)

lemma wf_ok_response [simp]:
  "wf_message float (MessageResponse (ok_response i j)) \<longleftrightarrow> wf_id float i \<and> wf_json j"
  by (simp add: ok_response_def wf_raw_def)

lemma wf_error_response [simp]:
  "wf_message float (MessageResponse (error_response i code msg)) \<longleftrightarrow>
     wf_id float i \<and> - (2 ^ 63) \<le> code \<and> code < 2 ^ 63"
  by (simp add: error_response_def wf_raw_def wf_rpc_error_def)

section \<open>The contract of a handler\<close>

text \<open>Handling messages one after another, up to the first error.\<close>

fun serve :: "('m \<Rightarrow> 's \<Rightarrow> (unit, 's) outcome) \<Rightarrow> 'm list \<Rightarrow> 's \<Rightarrow> (unit, 's) outcome" where
  "serve handle [] s = (Inr (), s)"
| "serve handle (m # ms) s = io_bind (handle m s) (\<lambda>_ s. serve handle ms s)"

fun request_of :: "message \<Rightarrow> request option" where
  "request_of (MessageRequest r) = Some r"
| "request_of _ = None"

definition requests_of :: "message list \<Rightarrow> request list" where
  "requests_of ms = List.map_filter request_of ms"

text \<open>
  A handler answers a request it handles without error with exactly one response, \<open>reply\<close>,
  which carries the request's id and either a result or an error; it answers nothing else.
\<close>

locale rpc_server =
  fixes handle :: "message \<Rightarrow> 's \<Rightarrow> (unit, 's) outcome"
    and replies :: "'s \<Rightarrow> response list"
    and ok :: "'s \<Rightarrow> bool"
    and wf :: "message \<Rightarrow> bool"
    and reply :: "request \<Rightarrow> response"
  assumes handle_Inr: "ok s \<Longrightarrow> wf m \<Longrightarrow> handle m s = (Inr u, s') \<Longrightarrow>
      ok s' \<and> replies s' = replies s @ map reply (requests_of [m])"
    and handle_Inl: "ok s \<Longrightarrow> wf m \<Longrightarrow> handle m s = (Inl e, s') \<Longrightarrow>
      ok s' \<and> replies s' = replies s"
    and reply_id: "RespID (reply r) = ReqID r"
    and reply_one: "(Result (reply r) = None) \<noteq> (Error (reply r) = None)"
begin

lemma serve_answers:
  "ok s \<Longrightarrow> list_all wf ms \<Longrightarrow> serve handle ms s = (Inr u, s') \<Longrightarrow>
   ok s' \<and> replies s' = replies s @ map reply (requests_of ms)"
proof (induction ms arbitrary: s)
  case Nil
  then show ?case by (simp add: requests_of_def List.map_filter_def)
next
  case (Cons m ms)
  then obtain t where "handle m s = (Inr (), t)" and "serve handle ms t = (Inr u, s')"
    by (auto simp: io_bind_Inr_iff)
  with Cons handle_Inr [of s m "()" t] show ?case
    by (auto simp: requests_of_def List.map_filter_def)
qed

lemma serve_ids:
  assumes "ok s" and "list_all wf ms" and "serve handle ms s = (Inr u, s')"
  shows "map RespID (replies s') = map RespID (replies s) @ map ReqID (requests_of ms)"
  using serve_answers [OF assms] by (simp add: reply_id)

end

text \<open>A fresh stream to the host.\<close>

definition demo_stdout :: conn where
  "demo_stdout = \<lparr>avail = [], fin = EOF, sent = [], wr_left = None, wr_err = ErrClosed\<rparr>"

end
