(* ===== verification/Session_State.thy ===== *)
theory Session_State
  imports Transport_Open Rpc_Server
begin

text \<open>
  \<open>internal/session\<close>: the state of a session and the operations on it that make at most one
  call to the host: \<open>state.go\<close>, \<open>embed.go\<close>, the notifications of \<open>viewport.go\<close> and
  \<open>backpressure.go\<close>, the password of \<open>teardown.go\<close> and the connect fields of \<open>connect.go\<close>.
\<close>

section \<open>The session\<close>

datatype state = StateConnecting | StateReady | StateError

fun state_string :: "state \<Rightarrow> string" where
  "state_string StateConnecting = ''connecting''"
| "state_string StateReady = ''ready''"
| "state_string StateError = ''error''"

text \<open>A \<open>float64\<close> is the literal it prints as (see \<open>Json_Struct\<close>).\<close>

record embed_viewport =
  WidthPx :: int
  HeightPx :: int
  DevicePixelRatio :: string
  ViewActive :: bool

record register_embed_result =
  RegToken :: string
  UIUrl :: string
  TunnelUrl :: string
  ExpiresAt :: string

text \<open>
  \<open>Session\<close>. The fields \<open>caller\<close>, \<open>frameWriter\<close>, \<open>registry\<close> and \<open>relay\<close> are the same for
  every session of the process and are arguments of the operations; \<open>mu\<close> is the atomicity of the
  operations. A nil password is the empty one. A gate is named by a number.
\<close>

record session =
  sid :: string
  embedEntry :: string
  state :: state
  password :: bytes
  readOnly :: bool
  hostName :: string
  port :: int
  tcpChannel :: "channel_ref option"
  embedChannel :: "channel_ref option"
  torndown :: bool
  viewport :: embed_viewport
  active :: bool
  embedToken :: register_embed_result
  backpressureGate :: "nat option"

definition zero_viewport :: embed_viewport where
  "zero_viewport = \<lparr>WidthPx = 0, HeightPx = 0, DevicePixelRatio = ''0'', ViewActive = False\<rparr>"

definition zero_embed_result :: register_embed_result where
  "zero_embed_result = \<lparr>RegToken = [], UIUrl = [], TunnelUrl = [], ExpiresAt = []\<rparr>"

type_synonym session_ref = nat

text \<open>
  The world of the session layer: the channels and the host, the sessions ever made, the
  handler's table of them, the sessions whose \<open>orchestrate\<close> has been started, and the gates:
  those closed and the next unused one.
\<close>

record 'h world =
  proc :: "'h proc"
  sess :: "session list"
  sessions :: "string \<rightharpoonup> session_ref"
  started :: "session_ref list"
  openedGates :: "nat set"
  nextGate :: nat

definition on_session :: "session_ref \<Rightarrow> (session \<Rightarrow> session) \<Rightarrow> 'h world \<Rightarrow> 'h world" where
  "on_session r f w = w\<lparr>sess := (sess w)[r := f (sess w ! r)]\<rparr>"

definition on_host :: "('h \<Rightarrow> ('a, 'h) outcome) \<Rightarrow> 'h world \<Rightarrow> ('a, 'h world) outcome" where
  "on_host f w = (case f (host (proc w)) of (res, h) \<Rightarrow> (res, w\<lparr>proc := (proc w)\<lparr>host := h\<rparr>\<rparr>))"

definition on_proc :: "('h proc \<Rightarrow> ('a, 'h proc) outcome) \<Rightarrow> 'h world \<Rightarrow> ('a, 'h world) outcome" where
  "on_proc f w = (case f (proc w) of (res, p) \<Rightarrow> (res, w\<lparr>proc := p\<rparr>))"

section \<open>state.go\<close>

definition update_state_params :: "string \<Rightarrow> state \<Rightarrow> string \<Rightarrow> json" where
  "update_state_params i st msg =
     JObj ([(''sessionId'', JStr i), (''state'', JStr (state_string st))] @ opt_string ''error'' msg)"

definition update_state_result :: "string \<Rightarrow> json \<Rightarrow> bool \<Rightarrow> bool option" where
  "update_state_result k j r = (if field_is ''ok'' k then set_bool r j else Some r)"

definition update_state ::
    "'h rpc_caller option \<Rightarrow> session_ref \<Rightarrow> state \<Rightarrow> string \<Rightarrow> 'h world \<Rightarrow> 'h world" where
  "update_state caller r st msg w =
     (let w = on_session r (\<lambda>s. s\<lparr>state := st\<rparr>) w in
      case caller of
        None \<Rightarrow> w
      | Some c \<Rightarrow>
          snd (on_host (call_rpc c ''session.updateState'' (update_state_params (sid (sess w ! r)) st msg)
                 (unmarshal_struct update_state_result False) False) w))"

section \<open>embed.go\<close>

definition tunnelIDMain :: string where
  "tunnelIDMain = ''main''"

definition register_embed_params :: "string \<Rightarrow> string \<Rightarrow> string list \<Rightarrow> json" where
  "register_embed_params i entry tunnels =
     JObj ([(''sessionId'', JStr i), (''uiEntry'', JStr entry)] @
       (if tunnels = [] then [] else [(''tunnelIds'', JArr (map JStr tunnels))]))"

definition register_embed_member :: "string \<Rightarrow> json \<Rightarrow> register_embed_result \<Rightarrow> register_embed_result option" where
  "register_embed_member k j r =
     (if field_is ''embedToken'' k then map_option (\<lambda>s. r\<lparr>RegToken := s\<rparr>) (set_string (RegToken r) j)
      else if field_is ''uiUrl'' k then map_option (\<lambda>s. r\<lparr>UIUrl := s\<rparr>) (set_string (UIUrl r) j)
      else if field_is ''tunnelUrl'' k then map_option (\<lambda>s. r\<lparr>TunnelUrl := s\<rparr>) (set_string (TunnelUrl r) j)
      else if field_is ''expiresAt'' k then map_option (\<lambda>s. r\<lparr>ExpiresAt := s\<rparr>) (set_string (ExpiresAt r) j)
      else Some r)"

definition register_embed ::
    "'h rpc_caller option \<Rightarrow> session_ref \<Rightarrow> 'h world \<Rightarrow> (register_embed_result, 'h world) outcome" where
  "register_embed caller r w =
     (case caller of
        None \<Rightarrow> (Inl (Errorf ''session: registerEmbed: no RPCCaller configured'' []), w)
      | Some c \<Rightarrow>
          io_bind (io_wrap (Wrapf ''session: session.registerEmbed: %w'')
            (on_host (call_rpc c ''session.registerEmbed''
               (register_embed_params (sid (sess w ! r)) (embedEntry (sess w ! r)) [tunnelIDMain])
               (unmarshal_struct register_embed_member zero_embed_result) zero_embed_result) w)) (\<lambda>res w.
          (Inr res, on_session r (\<lambda>s. s\<lparr>embedToken := res\<rparr>) w)))"

section \<open>The password\<close>

definition zeroed :: "bytes \<Rightarrow> bytes" where
  "zeroed b = map (\<lambda>_. 0) b"

definition clear_password :: "session_ref \<Rightarrow> 'h world \<Rightarrow> 'h world" where
  "clear_password r w = on_session r (\<lambda>s. s\<lparr>password := zeroed (password s)\<rparr>) w"

section \<open>Backpressure\<close>

definition set_backpressure :: "bool \<Rightarrow> session_ref \<Rightarrow> 'h world \<Rightarrow> 'h world" where
  "set_backpressure on r w =
     (if on then
        (case backpressureGate (sess w ! r) of
           None \<Rightarrow> (on_session r (\<lambda>s. s\<lparr>backpressureGate := Some (nextGate w)\<rparr>) w)\<lparr>nextGate := nextGate w + 1\<rparr>
         | Some _ \<Rightarrow> w)
      else
        (case backpressureGate (sess w ! r) of
           None \<Rightarrow> w
         | Some g \<Rightarrow> (on_session r (\<lambda>s. s\<lparr>backpressureGate := None\<rparr>) w)\<lparr>openedGates := insert g (openedGates w)\<rparr>))"

section \<open>Notifications\<close>

text \<open>
  \<open>json.Unmarshal\<close> of the parameters: absent parameters are an error, except after
  \<open>unmarshalIgnoreEmpty\<close>, which keeps the zero struct.
\<close>

definition unmarshal_params :: "(json \<Rightarrow> 'r option) \<Rightarrow> json option \<Rightarrow> 'r option" where
  "unmarshal_params unm params = Option.bind params unm"

definition unmarshal_ignore_empty :: "(json \<Rightarrow> 'r option) \<Rightarrow> 'r \<Rightarrow> json option \<Rightarrow> 'r option" where
  "unmarshal_ignore_empty unm zero params = (case params of None \<Rightarrow> Some zero | Some j \<Rightarrow> unm j)"

definition session_id_params :: "string \<Rightarrow> json \<Rightarrow> string \<Rightarrow> string option" where
  "session_id_params k j r = (if field_is ''sessionId'' k then set_string r j else Some r)"

definition embed_viewport_params ::
    "(string \<Rightarrow> string option) \<Rightarrow> string \<Rightarrow> json \<Rightarrow> string \<times> embed_viewport \<Rightarrow> (string \<times> embed_viewport) option" where
  "embed_viewport_params float k j p =
     (case p of (i, v) \<Rightarrow>
        if field_is ''sessionId'' k then map_option (\<lambda>x. (x, v)) (set_string i j)
        else if field_is ''widthPx'' k then map_option (\<lambda>x. (i, v\<lparr>WidthPx := x\<rparr>)) (set_int (WidthPx v) j)
        else if field_is ''heightPx'' k then map_option (\<lambda>x. (i, v\<lparr>HeightPx := x\<rparr>)) (set_int (HeightPx v) j)
        else if field_is ''devicePixelRatio'' k
        then map_option (\<lambda>x. (i, v\<lparr>DevicePixelRatio := x\<rparr>)) (set_float float (DevicePixelRatio v) j)
        else if field_is ''active'' k then map_option (\<lambda>x. (i, v\<lparr>ViewActive := x\<rparr>)) (set_bool (ViewActive v) j)
        else Some (i, v))"

definition embed_activity_params :: "string \<Rightarrow> json \<Rightarrow> string \<times> bool \<Rightarrow> (string \<times> bool) option" where
  "embed_activity_params k j p =
     (case p of (i, a) \<Rightarrow>
        if field_is ''sessionId'' k then map_option (\<lambda>x. (x, a)) (set_string i j)
        else if field_is ''active'' k then map_option (\<lambda>x. (i, x)) (set_bool a j)
        else Some (i, a))"

definition handle_embed_viewport :: "(string \<Rightarrow> string option) \<Rightarrow> notification \<Rightarrow> 'h world \<Rightarrow> 'h world" where
  "handle_embed_viewport float n w =
     (case unmarshal_params (unmarshal_struct (embed_viewport_params float) ([], zero_viewport)) (NotParams n) of
        None \<Rightarrow> w
      | Some (i, v) \<Rightarrow>
         (case sessions w i of None \<Rightarrow> w | Some r \<Rightarrow> on_session r (\<lambda>s. s\<lparr>viewport := v\<rparr>) w))"

definition handle_embed_activity :: "notification \<Rightarrow> 'h world \<Rightarrow> 'h world" where
  "handle_embed_activity n w =
     (case unmarshal_params (unmarshal_struct embed_activity_params ([], False)) (NotParams n) of
        None \<Rightarrow> w
      | Some (i, a) \<Rightarrow>
         (case sessions w i of None \<Rightarrow> w | Some r \<Rightarrow> on_session r (\<lambda>s. s\<lparr>active := a\<rparr>) w))"

definition handle_tunnel_backpressure :: "notification \<Rightarrow> 'h world \<Rightarrow> 'h world" where
  "handle_tunnel_backpressure n w =
     (case unmarshal_ignore_empty (unmarshal_struct session_id_params []) [] (NotParams n) of
        None \<Rightarrow> w
      | Some i \<Rightarrow> (case sessions w i of None \<Rightarrow> w | Some r \<Rightarrow> set_backpressure True r w))"

definition handle_tunnel_resume :: "notification \<Rightarrow> 'h world \<Rightarrow> 'h world" where
  "handle_tunnel_resume n w =
     (case unmarshal_ignore_empty (unmarshal_struct session_id_params []) [] (NotParams n) of
        None \<Rightarrow> w
      | Some i \<Rightarrow> (case sessions w i of None \<Rightarrow> w | Some r \<Rightarrow> set_backpressure False r w))"

section \<open>What the operations change\<close>

lemma on_session_simps [simp]:
  "proc (on_session r f w) = proc w" "sess (on_session r f w) = (sess w)[r := f (sess w ! r)]"
  "sessions (on_session r f w) = sessions w" "started (on_session r f w) = started w"
  "openedGates (on_session r f w) = openedGates w" "nextGate (on_session r f w) = nextGate w"
  by (simp_all add: on_session_def)

lemma on_session_on_session [simp]:
  "r < length (sess w) \<Longrightarrow> on_session r f (on_session r g w) = on_session r (f \<circ> g) w"
  by (simp add: on_session_def)

text \<open>An operation that works through the host or the channels leaves the sessions alone.\<close>

definition same_sessions :: "'h world \<Rightarrow> 'h world \<Rightarrow> bool" where
  "same_sessions w w' \<longleftrightarrow> sess w' = sess w \<and> sessions w' = sessions w \<and> started w' = started w \<and>
     openedGates w' = openedGates w \<and> nextGate w' = nextGate w"

lemma same_sessions_refl [simp]: "same_sessions w w"
  by (simp add: same_sessions_def)

lemma same_sessions_trans [trans]: "same_sessions u v \<Longrightarrow> same_sessions v w \<Longrightarrow> same_sessions u w"
  by (simp add: same_sessions_def)

lemma on_host_same: "on_host f w = (res, w') \<Longrightarrow> same_sessions w w' \<and> objs (proc w') = objs (proc w) \<and> reg (proc w') = reg (proc w)"
  by (auto simp: on_host_def same_sessions_def split: prod.splits)

lemma on_proc_same: "on_proc f w = (res, w') \<Longrightarrow> same_sessions w w' \<and> f (proc w) = (res, proc w')"
  by (auto simp: on_proc_def same_sessions_def split: prod.splits)

lemma sess_on_host [simp]: "sess (snd (on_host f w)) = sess w" "sessions (snd (on_host f w)) = sessions w"
  "started (snd (on_host f w)) = started w" "objs (proc (snd (on_host f w))) = objs (proc w)"
  "reg (proc (snd (on_host f w))) = reg (proc w)"
  by (simp_all add: on_host_def split: prod.splits)

lemma sess_on_proc [simp]: "sess (snd (on_proc f w)) = sess w" "sessions (snd (on_proc f w)) = sessions w"
  "started (snd (on_proc f w)) = started w" "proc (snd (on_proc f w)) = snd (f (proc w))"
  by (simp_all add: on_proc_def split: prod.splits)

lemma update_state_simps [simp]:
  "sess (update_state c r st msg w) = (sess w)[r := (sess w ! r)\<lparr>state := st\<rparr>]"
  "sessions (update_state c r st msg w) = sessions w"
  "started (update_state c r st msg w) = started w"
  "objs (proc (update_state c r st msg w)) = objs (proc w)"
  "reg (proc (update_state c r st msg w)) = reg (proc w)"
  by (simp_all add: update_state_def Let_def split: option.splits)

lemma clear_password_simps [simp]:
  "proc (clear_password r w) = proc w"
  "sess (clear_password r w) = (sess w)[r := (sess w ! r)\<lparr>password := zeroed (password (sess w ! r))\<rparr>]"
  "sessions (clear_password r w) = sessions w" "started (clear_password r w) = started w"
  by (simp_all add: clear_password_def)

lemma zeroed_zeroed [simp]: "zeroed (zeroed b) = zeroed b"
  by (simp add: zeroed_def)

lemma length_zeroed [simp]: "length (zeroed b) = length b"
  by (simp add: zeroed_def)

lemma zeroed_zero: "list_all (\<lambda>x. x = 0) (zeroed b)"
  by (simp add: zeroed_def list_all_iff)

section \<open>A host that is a transcript\<close>

text \<open>
  A host given by its answers: the world is the transcript of the calls and notifications, and
  each is answered as a function of the transcript so far. Every deterministic host is one.
\<close>

type_synonym transcript = "(string \<times> json) list"

definition recorder :: "(transcript \<Rightarrow> go_error + response) \<Rightarrow> (transcript \<Rightarrow> go_error + unit) \<Rightarrow> transcript rpc_caller" where
  "recorder ans note =
     \<lparr>Call = (\<lambda>m params h. (ans (h @ [(m, params)]), h @ [(m, params)])),
      Notify = (\<lambda>m params h. (note (h @ [(m, params)]), h @ [(m, params)]))\<rparr>"

lemma recorder_call [simp]:
  "call_rpc (recorder ans note) m params unm zero h =
     ((case ans (h @ [(m, params)]) of Inl e \<Rightarrow> Inl e | Inr resp \<Rightarrow> call_result unm zero resp), h @ [(m, params)])"
  by (simp add: call_rpc_def recorder_def io_bind_def split: sum.splits)

lemma recorder_notify [simp]:
  "Notify (recorder ans note) m params h = (note (h @ [(m, params)]), h @ [(m, params)])"
  by (simp add: recorder_def)

text \<open>What \<open>updateState\<close> tells the host.\<close>

definition state_call :: "string \<Rightarrow> state \<Rightarrow> string \<Rightarrow> string \<times> json" where
  "state_call i st msg = (''session.updateState'', update_state_params i st msg)"

lemma update_state_recorded [simp]:
  "r < length (sess w) \<Longrightarrow>
   host (proc (update_state (Some (recorder ans note)) r st msg w)) =
     host (proc w) @ [state_call (sid (sess w ! r)) st msg]"
  by (simp add: update_state_def on_host_def Let_def state_call_def)

end
