(* ===== verification/Session_Connect.thy ===== *)
theory Session_Connect
  imports Session_State
begin

text \<open>
  \<open>internal/session\<close>: connecting, tearing down and reconnecting a session, in \<open>lifecycle.go\<close>,
  \<open>teardown.go\<close>, \<open>reconnect.go\<close> and \<open>connect.go\<close>. What runs outside the package is an argument: the
  host behind the \<open>RPCCaller\<close>, the \<open>RelayStarter\<close>, the clock and the pause between attempts.
\<close>

section \<open>The environment\<close>

text \<open>A call that may panic: \<open>Inl\<close> is the panic, with its value as a string.\<close>

type_synonym 'a ran = "string + 'a"

text \<open>
  \<open>Pause\<close> is the back-off of the reconnect loop: what the rest of the process does meanwhile, and
  whether the timer ended it (not the context). \<open>Clock\<close> is \<open>time.Now\<close> in milliseconds, \<open>Text\<close>
  is \<open>Error()\<close>.
\<close>

record 'h environment =
  Caller :: "'h rpc_caller option"
  StartRelay :: "(session_ref \<Rightarrow> channel_ref \<Rightarrow> channel_ref \<Rightarrow> 'h world \<Rightarrow> (go_error + unit) ran \<times> 'h world) option"
  Clock :: "'h world \<Rightarrow> int"
  Pause :: "'h world \<Rightarrow> bool \<times> 'h world"
  Text :: "go_error \<Rightarrow> string"

section \<open>Connecting\<close>

text \<open>\<open>net.JoinHostPort\<close>.\<close>

definition join_host_port :: "string \<Rightarrow> string \<Rightarrow> string" where
  "join_host_port h p = (if CHR '':'' \<in> set h then ''['' @ h @ '']:'' @ p else h @ '':'' @ p)"

definition nil_dereference :: string where
  "nil_dereference = ''runtime error: invalid memory address or nil pointer dereference''"

definition connect_and_relay :: "'h environment \<Rightarrow> session_ref \<Rightarrow> 'h world \<Rightarrow> (go_error + unit) ran \<times> 'h world" where
  "connect_and_relay env r w =
     (let tcpHint = join_host_port (hostName (sess w ! r)) (show_int (port (sess w ! r))) in
      case Caller env of
        None \<Rightarrow> (Inl nil_dereference, w)
      | Some c \<Rightarrow>
         (case on_proc (open_channel c True PurposeTCPRelay (sid (sess w ! r)) tcpHint) w of
            (Inl err, w) \<Rightarrow> (Inr (Inl (Wrapf ''failed to open tcp-relay channel: %w'' err)), w)
          | (Inr tcpCh, w) \<Rightarrow>
             (case on_proc (open_channel c True PurposeEmbedStream (sid (sess w ! r)) tunnelIDMain) w of
                (Inl err, w) \<Rightarrow>
                  (let w = snd (on_proc (close_channel (Some c) tcpCh ''setup-failed'' []) w) in
                   (Inr (Inl (Wrapf ''failed to open embed-stream channel: %w'' err)), w))
              | (Inr embedCh, w) \<Rightarrow>
                  (let w = on_session r (\<lambda>s. s\<lparr>tcpChannel := Some tcpCh, embedChannel := Some embedCh\<rparr>) w in
                   case register_embed (Some c) r w of
                     (Inl err, w) \<Rightarrow> (Inr (Inl (Wrapf ''session.registerEmbed failed: %w'' err)), w)
                   | (Inr _, w) \<Rightarrow>
                      (case StartRelay env of
                         None \<Rightarrow> (Inr (Inr ()), w)
                       | Some start \<Rightarrow>
                          (case start r tcpCh embedCh w of
                             (Inl v, w) \<Rightarrow> (Inl v, w)
                           | (Inr (Inl err), w) \<Rightarrow> (Inr (Inl (Wrapf ''relay start failed: %w'' err)), w)
                           | (Inr (Inr _), w) \<Rightarrow> (Inr (Inr ()), w)))))))"

definition orchestrate :: "'h environment \<Rightarrow> session_ref \<Rightarrow> 'h world \<Rightarrow> 'h world" where
  "orchestrate env r w =
     (let w = update_state (Caller env) r StateConnecting [] w in
      case connect_and_relay env r w of
        (Inl v, w) \<Rightarrow> update_state (Caller env) r StateError (''internal error: '' @ v) (clear_password r w)
      | (Inr (Inl err), w) \<Rightarrow> update_state (Caller env) r StateError (Text env err) w
      | (Inr (Inr _), w) \<Rightarrow> update_state (Caller env) r StateReady [] w)"

section \<open>Tearing down\<close>

definition close_if_open ::
    "'h rpc_caller option \<Rightarrow> channel_ref option \<Rightarrow> string \<Rightarrow> 'h world \<Rightarrow> 'h world" where
  "close_if_open caller ch reason w =
     (case ch of None \<Rightarrow> w | Some q \<Rightarrow> snd (on_proc (close_channel caller q reason []) w))"

definition teardown :: "'h environment \<Rightarrow> session_ref \<Rightarrow> string \<Rightarrow> 'h world \<Rightarrow> 'h world" where
  "teardown env r reason w =
     (if torndown (sess w ! r) then w
      else
        let tcpCh = tcpChannel (sess w ! r);
            embedCh = embedChannel (sess w ! r);
            w = on_session r (\<lambda>s. s\<lparr>torndown := True\<rparr>) w;
            w = clear_password r w in
        close_if_open (Caller env) embedCh reason (close_if_open (Caller env) tcpCh reason w))"

section \<open>Reconnecting\<close>

definition reconnectWindow :: int where "reconnectWindow = 30000"
definition reconnectBackoff :: int where "reconnectBackoff = 2000"

definition close_channels :: "'h environment \<Rightarrow> session_ref \<Rightarrow> string \<Rightarrow> 'h world \<Rightarrow> 'h world" where
  "close_channels env r reason w =
     (let tcp = tcpChannel (sess w ! r);
          embed = embedChannel (sess w ! r);
          w = on_session r (\<lambda>s. s\<lparr>tcpChannel := None, embedChannel := None\<rparr>) w in
      close_if_open (Caller env) embed reason (close_if_open (Caller env) tcp reason w))"

text \<open>
  The loop of \<open>reconnect\<close>. The number bounds the attempts: \<open>None\<close> is a loop that wants another
  one after that many.
\<close>

fun reconnect_loop ::
    "nat \<Rightarrow> 'h environment \<Rightarrow> int \<Rightarrow> session_ref \<Rightarrow> 'h world \<Rightarrow> (bool ran \<times> 'h world) option" where
  "reconnect_loop n env deadline r w =
     (if \<not> Clock env w < deadline then Some (Inr False, w)
      else if torndown (sess w ! r) then Some (Inr False, w)
      else
        case n of
          0 \<Rightarrow> None
        | Suc n \<Rightarrow>
            let w = update_state (Caller env) r StateConnecting ''reconnecting'' w;
                w = close_channels env r ''reconnect'' w in
            case connect_and_relay env r w of
              (Inl v, w) \<Rightarrow> Some (Inl v, w)
            | (Inr (Inl _), w) \<Rightarrow>
               (case Pause env w of
                  (True, w) \<Rightarrow> reconnect_loop n env deadline r w
                | (False, w) \<Rightarrow> Some (Inr False, w))
            | (Inr (Inr _), w) \<Rightarrow> Some (Inr True, update_state (Caller env) r StateReady [] w))"

declare reconnect_loop.simps [simp del]

definition reconnect :: "nat \<Rightarrow> 'h environment \<Rightarrow> session_ref \<Rightarrow> 'h world \<Rightarrow> (bool ran \<times> 'h world) option" where
  "reconnect n env r w = reconnect_loop n env (Clock env w + reconnectWindow) r w"

definition relay_ended_message :: "'h environment \<Rightarrow> go_error option \<Rightarrow> string" where
  "relay_ended_message env err =
     (case err of None \<Rightarrow> ''connection lost'' | Some e \<Rightarrow> ''connection lost: '' @ Text env e)"

definition report_relay_ended ::
    "nat \<Rightarrow> 'h environment \<Rightarrow> go_error option \<Rightarrow> session_ref \<Rightarrow> 'h world \<Rightarrow> (unit ran \<times> 'h world) option" where
  "report_relay_ended n env err r w =
     (if torndown (sess w ! r) then Some (Inr (), w)
      else
        case reconnect n env r w of
          None \<Rightarrow> None
        | Some (Inl v, w) \<Rightarrow> Some (Inl v, w)
        | Some (Inr True, w) \<Rightarrow> Some (Inr (), w)
        | Some (Inr False, w) \<Rightarrow>
            Some (Inr (), teardown env r ''relay-ended''
              (update_state (Caller env) r StateError (relay_ended_message env err) w)))"

section \<open>The connect fields\<close>

definition member_value :: "string \<Rightarrow> (string \<rightharpoonup> json) \<Rightarrow> json option" where
  "member_value name fs = (case fs name of Some j \<Rightarrow> if j = JNull then None else Some j | None \<Rightarrow> None)"

definition parse_connect_fields :: "(string \<rightharpoonup> json) \<Rightarrow> go_error + bytes \<times> bool" where
  "parse_connect_fields fs =
     (case (case member_value ''password'' fs of
              None \<Rightarrow> Inr []
            | Some raw \<Rightarrow>
               (case set_string [] raw of
                  None \<Rightarrow> Inl (Wrapf ''session: invalid password field: %w'' ErrInvalidMessage)
                | Some s \<Rightarrow> Inr (bytes_of s))) of
        Inl err \<Rightarrow> Inl err
      | Inr pw \<Rightarrow>
         (case member_value ''readOnly'' fs of
            None \<Rightarrow> Inr (pw, False)
          | Some raw \<Rightarrow>
             (case set_bool False raw of
                Some b \<Rightarrow> Inr (pw, b)
              | None \<Rightarrow>
                 (case set_string [] raw of
                    None \<Rightarrow> Inl (Wrapf ''session: invalid readOnly field: %w'' ErrInvalidMessage)
                  | Some s \<Rightarrow> Inr (pw, s = ''true'')))))"

section \<open>Closing\<close>

definition shut_endpoint :: "endpoint \<Rightarrow> endpoint" where
  "shut_endpoint e = e\<lparr>Source := map_option close (Source e), Shut := True\<rparr>"

lemma shut_endpoint_Shut [simp]: "Shut (shut_endpoint e)" "shut_endpoint (shut_endpoint e) = shut_endpoint e"
  by (simp_all add: shut_endpoint_def option.map_comp comp_def)

lemma close_if_open_same [simp]:
  "sess (close_if_open c ch reason w) = sess w" "sessions (close_if_open c ch reason w) = sessions w"
  "started (close_if_open c ch reason w) = started w"
  by (cases ch; simp add: close_if_open_def)+

lemma close_if_open_objs [simp]:
  "objs (proc (close_if_open c ch reason w)) =
     (case ch of None \<Rightarrow> objs (proc w) | Some q \<Rightarrow> (objs (proc w))[q := shut_endpoint (objs (proc w) ! q)])"
  "reg (proc (close_if_open c ch reason w)) = reg (proc w)"
proof -
  show "objs (proc (close_if_open c ch reason w)) =
     (case ch of None \<Rightarrow> objs (proc w) | Some q \<Rightarrow> (objs (proc w))[q := shut_endpoint (objs (proc w) ! q)])"
  proof (cases ch)
    case (Some q)
    obtain res p' where "close_channel c q reason [] (proc w) = (res, p')" by (cases "close_channel c q reason [] (proc w)")
    from close_channel_shape [OF this] this Some show ?thesis
      by (simp add: close_if_open_def shut_endpoint_def)
  qed (simp add: close_if_open_def)
  show "reg (proc (close_if_open c ch reason w)) = reg (proc w)"
  proof (cases ch)
    case (Some q)
    obtain res p' where "close_channel c q reason [] (proc w) = (res, p')" by (cases "close_channel c q reason [] (proc w)")
    from close_channel_shape [OF this] this Some show ?thesis
      by (simp add: close_if_open_def)
  qed (simp add: close_if_open_def)
qed

lemma wf_on_proc_close:
  "wf_proc (proc w) \<Longrightarrow> (\<forall>q. ch = Some q \<longrightarrow> q < length (objs (proc w))) \<Longrightarrow>
   wf_proc (proc (close_if_open c ch reason w))"
  by (auto simp: close_if_open_def split: option.splits intro: close_channel_wf [OF _ prod.collapse [symmetric]])

text \<open>
  C22: tearing a session down. The password is overwritten with zeros over its whole length,
  both channels are closed, whatever the notifications to the host do, and no other session or
  channel changes. From then on a second teardown and the report of the relay's end do
  nothing: a clean disconnect is not turned into an error.
\<close>

theorem teardown_spec:
  assumes "r < length (sess w)" and "\<not> torndown (sess w ! r)"
    and "tcpChannel (sess w ! r) = Some t" and "embedChannel (sess w ! r) = Some e"
    and "t < length (objs (proc w))" and "e < length (objs (proc w))"
    and w': "w' = teardown env r reason w"
  shows "password (sess w' ! r) = replicate (length (password (sess w ! r))) 0 \<and>
    Shut (objs (proc w') ! t) \<and> Shut (objs (proc w') ! e) \<and>
    (\<forall>q. q \<noteq> r \<longrightarrow> sess w' ! q = sess w ! q) \<and> (\<forall>q. q \<noteq> t \<and> q \<noteq> e \<longrightarrow> objs (proc w') ! q = objs (proc w) ! q) \<and>
    teardown env r reason' w' = w' \<and> report_relay_ended n env err r w' = Some (Inr (), w')"
proof -
  have s: "sess w' = (sess w)[r := (sess w ! r)\<lparr>torndown := True, password := zeroed (password (sess w ! r))\<rparr>]"
    using assms(1,2) unfolding w' by (simp add: teardown_def Let_def)
  have o: "objs (proc w') = ((objs (proc w))[t := shut_endpoint (objs (proc w) ! t)])[e := shut_endpoint
      ((objs (proc w))[t := shut_endpoint (objs (proc w) ! t)] ! e)]"
    using assms(2-4) unfolding w' by (simp add: teardown_def Let_def)
  from s assms(1) have td: "torndown (sess w' ! r)" by simp
  have "zeroed (password (sess w ! r)) = replicate (length (password (sess w ! r))) 0"
    by (simp add: zeroed_def map_replicate_const)
  moreover have "Shut (objs (proc w') ! t)" using assms(5,6) unfolding o by (cases "t = e") auto
  ultimately show ?thesis
    using assms(1,5,6) s o td by (simp add: teardown_def report_relay_ended_def)
qed

section \<open>Connecting\<close>

definition fresh_endpoint :: "u32 \<Rightarrow> string \<Rightarrow> int \<Rightarrow> int \<Rightarrow> endpoint" where
  "fresh_endpoint i purpose ic mp =
     \<lparr>Source = Some (new_credit_channel i ic mp), Local = \<lparr>AddrChannelID = i, Purpose = purpose\<rparr>,
      Remote = \<lparr>AddrChannelID = i, Purpose = purpose\<rparr>, ChunkSize = mp, Shut = False\<rparr>"

lemma open_tcp_relay:
  assumes "on_proc (open_channel c True PurposeTCPRelay parent hint) w = (Inr t, w')"
  shows "same_sessions w w' \<and> t = length (objs (proc w)) \<and>
    (\<exists>i. objs (proc w') = objs (proc w) @ [fresh_endpoint i ''tcp-relay'' 4 1048576] \<and> reg (proc w') = (reg (proc w))(i \<mapsto> t))"
  using on_proc_same [OF assms]
  by (auto simp: fresh_endpoint_def PurposeTCPRelay_def elim!: open_channel_Inr)

lemma open_embed_stream:
  assumes "on_proc (open_channel c True PurposeEmbedStream parent hint) w = (Inr t, w')"
  shows "same_sessions w w' \<and> t = length (objs (proc w)) \<and>
    (\<exists>i. objs (proc w') = objs (proc w) @ [fresh_endpoint i ''embed-stream'' 8 65536] \<and> reg (proc w') = (reg (proc w))(i \<mapsto> t))"
  using on_proc_same [OF assms]
  by (auto simp: fresh_endpoint_def PurposeEmbedStream_def elim!: open_channel_Inr)

lemma register_embed_Inr:
  assumes "register_embed c r w = (Inr tok, w')"
  shows "sess w' = (sess w)[r := (sess w ! r)\<lparr>embedToken := tok\<rparr>] \<and> objs (proc w') = objs (proc w) \<and>
    reg (proc w') = reg (proc w)"
  using assms by (auto simp: register_embed_def io_bind_Inr_iff io_wrap_Inr_iff same_sessions_def
      split: option.splits dest!: on_host_same)

text \<open>The calls of \<open>connectAndRelay\<close> by name, and the ways it can go.\<close>

definition open_tcp :: "'h rpc_caller \<Rightarrow> session_ref \<Rightarrow> 'h world \<Rightarrow> 'h proc \<Rightarrow> (channel_ref, 'h proc) outcome" where
  "open_tcp c r w = open_channel c True PurposeTCPRelay (sid (sess w ! r))
     (join_host_port (hostName (sess w ! r)) (show_int (port (sess w ! r))))"

definition open_embed :: "'h rpc_caller \<Rightarrow> session_ref \<Rightarrow> 'h world \<Rightarrow> 'h proc \<Rightarrow> (channel_ref, 'h proc) outcome" where
  "open_embed c r w = open_channel c True PurposeEmbedStream (sid (sess w ! r)) tunnelIDMain"

definition bind_channels :: "session_ref \<Rightarrow> channel_ref \<Rightarrow> channel_ref \<Rightarrow> 'h world \<Rightarrow> 'h world" where
  "bind_channels r t e = on_session r (\<lambda>s. s\<lparr>tcpChannel := Some t, embedChannel := Some e\<rparr>)"

definition run_relay ::
    "'h environment \<Rightarrow> session_ref \<Rightarrow> channel_ref \<Rightarrow> channel_ref \<Rightarrow> 'h world \<Rightarrow> (go_error + unit) ran \<times> 'h world" where
  "run_relay env r t e w =
     (case StartRelay env of
        None \<Rightarrow> (Inr (Inr ()), w)
      | Some start \<Rightarrow>
         (case start r t e w of
            (Inr (Inl err), w) \<Rightarrow> (Inr (Inl (Wrapf ''relay start failed: %w'' err)), w)
          | x \<Rightarrow> x))"

lemma connect_cases:
  assumes "connect_and_relay env r w = (res, w')" and c: "Caller env = Some c"
  obtains
    (no_tcp) err where "on_proc (open_tcp c r w) w = (Inl err, w')"
      "res = Inr (Inl (Wrapf ''failed to open tcp-relay channel: %w'' err))"
  | (no_embed) t wt err we where "on_proc (open_tcp c r w) w = (Inr t, wt)" "on_proc (open_embed c r wt) wt = (Inl err, we)"
      "w' = snd (on_proc (close_channel (Some c) t ''setup-failed'' []) we)"
      "res = Inr (Inl (Wrapf ''failed to open embed-stream channel: %w'' err))"
  | (no_token) t wt e we err where "on_proc (open_tcp c r w) w = (Inr t, wt)" "on_proc (open_embed c r wt) wt = (Inr e, we)"
      "register_embed (Some c) r (bind_channels r t e we) = (Inl err, w')"
      "res = Inr (Inl (Wrapf ''session.registerEmbed failed: %w'' err))"
  | (relay) t wt e we tok wr where "on_proc (open_tcp c r w) w = (Inr t, wt)" "on_proc (open_embed c r wt) wt = (Inr e, we)"
      "register_embed (Some c) r (bind_channels r t e we) = (Inr tok, wr)" "run_relay env r t e wr = (res, w')"
proof -
  note defs = connect_and_relay_def Let_def c open_tcp_def open_embed_def bind_channels_def
  obtain x wt where t: "on_proc (open_tcp c r w) w = (x, wt)" by (cases "on_proc (open_tcp c r w) w")
  show ?thesis
  proof (cases x)
    case (Inl err)
    with assms(1) t show ?thesis by (intro no_tcp [of err]) (auto simp: defs)
  next
    case tch: (Inr q)
    obtain y we where e: "on_proc (open_embed c r wt) wt = (y, we)" by (cases "on_proc (open_embed c r wt) wt")
    show ?thesis
    proof (cases y)
      case (Inl err)
      with assms(1) t tch e show ?thesis by (intro no_embed [of q wt err we]) (auto simp: defs)
    next
      case ech: (Inr q')
      obtain z wr where k: "register_embed (Some c) r (bind_channels r q q' we) = (z, wr)"
        by (cases "register_embed (Some c) r (bind_channels r q q' we)")
      show ?thesis
      proof (cases z)
        case (Inl err)
        with assms(1) t tch e ech k show ?thesis by (intro no_token [of q wt q' we err]) (auto simp: defs)
      next
        case (Inr tok)
        with assms(1) t tch e ech k show ?thesis
          by (intro relay [of q wt q' we tok wr])
            (auto simp: defs run_relay_def split: option.splits prod.splits sum.splits)
      qed
    qed
  qed
qed


text \<open>
  C24: the tab never hangs in connecting. Whatever the host answers, and whether the relay
  succeeds, fails or panics, \<open>orchestrate\<close> leaves the session ready or in error: ready exactly
  when connecting succeeded, and after a panic the password is wiped. With a host that keeps
  a transcript, the last thing said to it is that state.
\<close>

theorem orchestrate_settles:
  assumes "Caller env = Some (recorder ans note)"
    and "connect_and_relay env r (update_state (Caller env) r StateConnecting [] w) = (res, w1)"
    and "r < length (sess w1)" and "w' = orchestrate env r w"
  shows "state (sess w' ! r) = (if res = Inr (Inr ()) then StateReady else StateError) \<and>
    (\<forall>v. res = Inl v \<longrightarrow> list_all (\<lambda>x. x = 0) (password (sess w' ! r))) \<and>
    (\<exists>msg. host (proc w') = host (proc w1) @ [state_call (sid (sess w1 ! r)) (state (sess w' ! r)) msg])"
proof (cases res)
  case (Inl v)
  then have "w' = update_state (Caller env) r StateError (''internal error: '' @ v) (clear_password r w1)"
    using assms(2,4) by (simp add: orchestrate_def Let_def)
  with Inl assms(1,3) show ?thesis by (auto simp: zeroed_zero)
next
  case (Inr b)
  show ?thesis
  proof (cases b)
    case (Inl err)
    with Inr have "w' = update_state (Caller env) r StateError (Text env err) w1"
      using assms(2,4) by (simp add: orchestrate_def Let_def)
    with Inl Inr assms(1,3) show ?thesis by auto
  next
    case b: (Inr u)
    with Inr have "w' = update_state (Caller env) r StateReady [] w1"
      using assms(2,4) by (simp add: orchestrate_def Let_def)
    with b Inr assms(1,3) show ?thesis by auto
  qed
qed

section \<open>What the host is asked\<close>

lemma open_recorded:
  assumes "purpose \<in> {PurposeTCPRelay, PurposeEmbedStream}"
    and "on_proc (open_channel (recorder ans note) b purpose parent hint) w = (res, w')"
  shows "host (proc w') = host (proc w) @ [(''channel.open'', channel_open_params purpose parent hint)]"
proof -
  from assms(1) obtain x where "purpose_params purpose = Inr x" by (auto simp: proc_defs)
  with assms(2) show ?thesis
    by (cases x) (auto simp: on_proc_def open_channel_def Let_def split: sum.splits prod.splits)
qed

lemma register_embed_recorded:
  assumes "register_embed (Some (recorder ans note)) r w = (res, w')"
  shows "host (proc w') = host (proc w) @ [(''session.registerEmbed'',
    register_embed_params (sid (sess w ! r)) (embedEntry (sess w ! r)) [tunnelIDMain])]"
  using assms by (auto simp: register_embed_def io_bind_def io_wrap_def on_host_def split: sum.splits prod.splits)

lemma close_recorded:
  assumes "Source (objs (proc w) ! q) = Some cc"
  shows "host (proc (snd (on_proc (close_channel (Some (recorder ans note)) q reason msg) w))) =
    host (proc w) @ [(''channel.close'', channel_close_params (chanId cc) reason msg)]"
  using assms by (simp add: on_proc_def close_channel_def Let_def on_endpoint_def)

lemma open_tcp_recorded:
  assumes "on_proc (open_tcp (recorder ans note) r w) w = (x, v)"
  shows "host (proc v) = host (proc w) @ [(''channel.open'', channel_open_params ''tcp-relay'' (sid (sess w ! r))
      (join_host_port (hostName (sess w ! r)) (show_int (port (sess w ! r)))))] \<and> sess v = sess w"
  using open_recorded [OF _ assms [unfolded open_tcp_def]] on_proc_same [OF assms]
  by (simp add: PurposeTCPRelay_def same_sessions_def)

lemma open_embed_recorded:
  assumes "on_proc (open_embed (recorder ans note) r v) v = (y, v')" and "sess v = sess w"
  shows "host (proc v') = host (proc v) @
      [(''channel.open'', channel_open_params ''embed-stream'' (sid (sess w ! r)) ''main'')] \<and> sess v' = sess w"
  using open_recorded [OF _ assms(1) [unfolded open_embed_def]] on_proc_same [OF assms(1)] assms(2)
  by (simp add: PurposeEmbedStream_def tunnelIDMain_def same_sessions_def)

lemma register_recorded:
  assumes "register_embed (Some (recorder ans note)) r (bind_channels r t e v) = (z, v')" and "sess v = sess w" and "r < length (sess w)"
  shows "host (proc v') = host (proc v) @ [(''session.registerEmbed'',
      register_embed_params (sid (sess w ! r)) (embedEntry (sess w ! r)) [''main''])]"
  using register_embed_recorded [OF assms(1)] assms(2,3) by (simp add: bind_channels_def tunnelIDMain_def)


section \<open>Reconnecting ends\<close>

text \<open>A host whose clock does not run backwards while it serves a call or a notification.\<close>

locale timed_host =
  fixes c :: "'h rpc_caller" and tm :: "'h \<Rightarrow> int"
  assumes call_time: "tm h \<le> tm (snd (Call c m params h))"
    and notify_time: "tm h \<le> tm (snd (Notify c m params h))"
begin

lemma call_rpc_time: "tm h \<le> tm (snd (call_rpc c m params unm zero h))"
  using call_time [of h m params] by (auto simp: call_rpc_def io_bind_def split: sum.splits prod.splits)

lemma call_rpc_later: "call_rpc c m params unm zero h = (res, h') \<Longrightarrow> tm h \<le> tm h'"
  using call_rpc_time [of h m params unm zero] by simp

lemma on_host_call_time:
  "on_host (call_rpc c m params unm zero) w = (res, w') \<Longrightarrow> tm (host (proc w)) \<le> tm (host (proc w'))"
  using call_rpc_time [of "host (proc w)" m params unm zero] by (auto simp: on_host_def split: prod.splits)

lemma open_time:
  "on_proc (open_channel c b purpose parent hint) w = (res, w') \<Longrightarrow> tm (host (proc w)) \<le> tm (host (proc w'))"
  by (auto simp: on_proc_def open_channel_def Let_def split: prod.splits sum.splits dest!: call_rpc_later)

lemma close_time: "tm (host (proc w)) \<le> tm (host (proc (close_if_open (Some c) ch reason w)))"
proof (cases ch)
  case (Some q)
  have "tm h \<le> tm (snd (Notify c m params h))" for m params h by (rule notify_time)
  then show ?thesis
    using Some by (simp add: close_if_open_def on_proc_def close_channel_def Let_def on_endpoint_def
        split: option.splits prod.splits) (metis snd_conv)
qed (simp add: close_if_open_def)

lemma close_setup_time: "tm (host (proc w)) \<le> tm (host (proc (snd (on_proc (close_channel (Some c) q reason []) w))))"
  using close_time [of w "Some q" reason] by (simp add: close_if_open_def)

lemma update_state_time: "tm (host (proc w)) \<le> tm (host (proc (update_state (Some c) r st msg w)))"
  by (auto simp: update_state_def Let_def on_host_def split: prod.splits dest!: call_rpc_later)

lemma register_embed_time:
  "register_embed (Some c) r w = (res, w') \<Longrightarrow> tm (host (proc w)) \<le> tm (host (proc w'))"
  by (auto simp: register_embed_def io_bind_def io_wrap_def split: sum.splits prod.splits dest!: on_host_call_time)

lemma connect_time:
  assumes "Caller env = Some c"
    and relay: "\<And>start r t e w. StartRelay env = Some start \<Longrightarrow> tm (host (proc w)) \<le> tm (host (proc (snd (start r t e w))))"
    and "connect_and_relay env r w = (res, w')"
  shows "tm (host (proc w)) \<le> tm (host (proc w'))"
proof -
  have start: "StartRelay env = Some start \<Longrightarrow> start r t e v = (x, v') \<Longrightarrow> tm (host (proc v)) \<le> tm (host (proc v'))"
    for start r t e v x v' using relay by (metis snd_conv)
  show ?thesis
    using assms(1,3) close_setup_time
    by (fastforce simp: connect_and_relay_def Let_def split: prod.splits sum.splits option.splits
        dest!: open_time register_embed_time start intro: order_trans)
qed

end

interpretation transcript_time: timed_host "recorder ans note" "\<lambda>h. int (length h)" for ans "note"
  by unfold_locales (simp_all add: recorder_def)

text \<open>
  The clock of an environment: the host's, which neither the relay's start nor the pause turns
  back; the pause takes at least the back-off.
\<close>

definition honest_clock :: "'h environment \<Rightarrow> bool" where
  "honest_clock env \<longleftrightarrow> (\<exists>c tm. Caller env = Some c \<and> timed_host c tm \<and> Clock env = (\<lambda>w. tm (host (proc w)))) \<and>
     (\<forall>start r t e w. StartRelay env = Some start \<longrightarrow> Clock env w \<le> Clock env (snd (start r t e w))) \<and>
     (\<forall>w. Clock env w + reconnectBackoff \<le> Clock env (snd (Pause env w)))"

lemma honest_attempt:
  assumes "honest_clock env"
    and "connect_and_relay env r (close_channels env r reason (update_state (Caller env) r st msg w)) = (res, w1)"
    and "Pause env w1 = (b, w2)"
  shows "Clock env w + 2000 \<le> Clock env w2"
proof -
  obtain c tm where c: "Caller env = Some c" and th: "timed_host c tm" and tm: "\<And>w. Clock env w = tm (host (proc w))"
    using assms(1) by (auto simp: honest_clock_def)
  note closing = timed_host.close_time [OF th]
  let ?u = "update_state (Caller env) r st msg w"
  have "tm (host (proc w)) \<le> tm (host (proc ?u))"
    using timed_host.update_state_time [OF th] c by simp
  also have "\<dots> \<le> tm (host (proc (close_channels env r reason ?u)))"
  proof -
    let ?v = "on_session r (\<lambda>s. s\<lparr>tcpChannel := None, embedChannel := None\<rparr>) ?u"
    have "tm (host (proc ?u)) = tm (host (proc ?v))" by simp
    also have "\<dots> \<le> tm (host (proc (close_if_open (Some c) (tcpChannel (sess ?u ! r)) reason ?v)))" by (rule closing)
    also have "\<dots> \<le> tm (host (proc (close_if_open (Some c) (embedChannel (sess ?u ! r)) reason
        (close_if_open (Some c) (tcpChannel (sess ?u ! r)) reason ?v))))" by (rule closing)
    finally show ?thesis unfolding close_channels_def Let_def c .
  qed
  also have "\<dots> \<le> tm (host (proc w1))"
    using timed_host.connect_time [OF th c _ assms(2)] assms(1) tm by (simp add: honest_clock_def)
  finally have "Clock env w \<le> Clock env w1" using tm by simp
  moreover have "Clock env w1 + 2000 \<le> Clock env w2"
    using assms(1,3) unfolding honest_clock_def reconnectBackoff_def by (metis snd_conv)
  ultimately show ?thesis by simp
qed

lemma reconnect_loop_ends:
  assumes "honest_clock env"
  shows "deadline - Clock env w \<le> 2000 * int n \<Longrightarrow> \<exists>res. reconnect_loop n env deadline r w = Some res"
proof (induction n arbitrary: w)
  case 0
  then show ?case by (simp add: reconnect_loop.simps)
next
  case (Suc n)
  have "deadline - Clock env w2 \<le> 2000 * int n"
    if "connect_and_relay env r (close_channels env r reason (update_state (Caller env) r st msg w)) = (res, w1)"
      "Pause env w1 = (b, w2)" for reason st msg res w1 b w2
    using honest_attempt [OF assms that] Suc.prems by simp
  with Suc.IH show ?case
    by (subst reconnect_loop.simps) (auto simp: Let_def split: prod.splits sum.splits bool.splits)
qed

text \<open>
  C30: reconnecting ends. With a clock that does not run backwards and a back-off of at least
  two seconds, the report of a lost relay returns: the loop makes at most 15 attempts in its
  window of 30 seconds, whatever the host answers.
\<close>

theorem reconnect_terminates:
  assumes "honest_clock env" and "15 \<le> n"
  shows "\<exists>res w'. report_relay_ended n env err r w = Some (res, w')"
proof -
  have "30000 \<le> 2000 * int n" using assms(2) by simp
  then obtain res where "reconnect n env r w = Some res"
    using reconnect_loop_ends [OF assms(1), of "Clock env w + reconnectWindow" w n r]
    by (auto simp: reconnect_def reconnectWindow_def)
  then show ?thesis
    by (cases res) (auto simp: report_relay_ended_def split: sum.splits bool.splits)
qed

section \<open>Example runs\<close>

text \<open>A host that answers every call with the channel id given by the length of the transcript.\<close>

definition demo_answer :: "transcript \<Rightarrow> go_error + response" where
  "demo_answer h =
     Inr \<lparr>RespID = JNull, Result = Some (JObj [(''channelId'', JNum (show_nat (unat (word_of_nat (length h) :: u32))))]),
       Error = None\<rparr>"

definition demo_host :: "transcript rpc_caller" where
  "demo_host = recorder demo_answer (\<lambda>_. Inr ())"

text \<open>A session with the password \<open>pw\<close>, and an environment whose relay starts.\<close>

definition demo_session :: session where
  "demo_session =
     \<lparr>sid = ''s1'', embedEntry = ''ui/vnc.html'', state = StateConnecting, password = [112, 119], readOnly = False,
      hostName = ''::1'', port = 5900, tcpChannel = None, embedChannel = None, torndown = False,
      viewport = zero_viewport, active = True, embedToken = zero_embed_result, backpressureGate = None\<rparr>"

definition demo_world :: "transcript world" where
  "demo_world =
     \<lparr>proc = \<lparr>objs = [], reg = Map.empty, host = []\<rparr>, sess = [demo_session], sessions = [''s1'' \<mapsto> 0], started = [],
      openedGates = {}, nextGate = 0\<rparr>"

definition paused :: "transcript world \<Rightarrow> transcript world" where
  "paused w = snd (on_host (\<lambda>h. (Inr (), h @ [(''pause'', JNull)])) w)"

definition demo_env :: "transcript environment" where
  "demo_env =
     \<lparr>Caller = Some demo_host, StartRelay = Some (\<lambda>r t e w. (Inr (Inr ()), w)),
      Clock = (\<lambda>w. 2000 * int (length (host (proc w)))), Pause = (\<lambda>w. (True, paused w)), Text = (\<lambda>_. ''error'')\<rparr>"

lemma demo_env_simps [simp]:
  "Caller demo_env = Some (recorder demo_answer (\<lambda>_. Inr ()))"
  "StartRelay demo_env = Some (\<lambda>r t e w. (Inr (Inr ()), w))"
  "Clock demo_env w = 2000 * int (length (host (proc w)))"
  "Pause demo_env w = (True, paused w)" "Text demo_env err = ''error''"
  by (simp_all add: demo_env_def demo_host_def)

lemma demo_open_call:
  "call_rpc (recorder demo_answer nt) ''channel.open'' params (unmarshal_struct channel_open_result 0) 0 h =
     (Inr (word_of_nat (Suc (length h))), h @ [(''channel.open'', params)])"
  unfolding recorder_call demo_answer_def
  by (simp add: call_result_def channel_open_result_def field_is_def del: of_nat_Suc)

lemma demo_register_call:
  "call_rpc (recorder demo_answer nt) ''session.registerEmbed'' params
     (unmarshal_struct register_embed_member zero_embed_result) zero_embed_result h =
     (Inr zero_embed_result, h @ [(''session.registerEmbed'', params)])"
  unfolding recorder_call demo_answer_def
  by (simp add: call_result_def register_embed_member_def field_is_def lower_char_def)

lemma demo_state_call:
  "call_rpc (recorder demo_answer nt) ''session.updateState'' params (unmarshal_struct update_state_result False) False h =
     (Inr False, h @ [(''session.updateState'', params)])"
  unfolding recorder_call demo_answer_def
  by (simp add: call_result_def update_state_result_def field_is_def)

lemmas demo_run = connect_and_relay_def Let_def on_proc_def open_channel_def purpose_params_def PurposeTCPRelay_def
  PurposeEmbedStream_def demo_world_def demo_open_call demo_register_call register_embed_def on_host_def
  on_session_def

lemma demo_connect:
  "fst (connect_and_relay demo_env 0 demo_world) = Inr (Inr ()) \<and>
   length (sess (snd (connect_and_relay demo_env 0 demo_world))) = 1"
  by (simp add: demo_run del: recorder_call)


theorem teardown_spec_witness:
  "\<exists>w w'. torndown (sess w' ! 0) \<and> password (sess w' ! 0) = [0, 0] \<and> password (sess w ! 0) = [112, 119] \<and>
     w' = teardown demo_env 0 ''session-disconnect'' w \<and> Shut (objs (proc w') ! 1) \<and> \<not> Shut (objs (proc w) ! 1)"
proof -
  let ?s = "demo_session\<lparr>tcpChannel := Some 0, embedChannel := Some 1\<rparr>"
  let ?w = "demo_world\<lparr>sess := [?s], proc := \<lparr>objs = [fresh_endpoint 1 ''tcp-relay'' 4 1048576,
    fresh_endpoint 2 ''embed-stream'' 8 65536], reg = Map.empty, host = []\<rparr>\<rparr>"
  let ?w' = "teardown demo_env 0 ''session-disconnect'' ?w"
  have "password (sess ?w' ! 0) = [0, 0] \<and> Shut (objs (proc ?w') ! 1)"
    using teardown_spec [of 0 ?w 0 1 ?w' demo_env "''session-disconnect''"]
    by (simp add: demo_session_def numeral_2_eq_2)
  moreover have "torndown (sess ?w' ! 0)"
    by (simp add: teardown_def demo_session_def)
  ultimately show ?thesis
    by (intro exI [of _ ?w] exI [of _ ?w']) (simp add: demo_session_def fresh_endpoint_def)
qed

theorem orchestrate_settles_witness:
  "state (sess (orchestrate demo_env 0 demo_world) ! 0) = StateReady"
proof -
  let ?u = "update_state (Caller demo_env) 0 StateConnecting [] demo_world"
  obtain res w1 where c: "connect_and_relay demo_env 0 ?u = (res, w1)" by (cases "connect_and_relay demo_env 0 ?u")
  moreover have "fst (connect_and_relay demo_env 0 ?u) = Inr (Inr ()) \<and> length (sess (snd (connect_and_relay demo_env 0 ?u))) = 1"
    by (simp add: demo_run update_state_def demo_state_call del: recorder_call)
  ultimately show ?thesis
    using orchestrate_settles [of demo_env demo_answer "\<lambda>_. Inr ()" 0 demo_world res w1] by simp
qed


lemma demo_honest: "honest_clock demo_env"
proof -
  have "timed_host (recorder demo_answer (\<lambda>_. Inr ())) (\<lambda>h. 2000 * int (length h))"
    by unfold_locales (simp_all add: recorder_def)
  then show ?thesis
    by (auto simp: honest_clock_def fun_eq_iff reconnectBackoff_def paused_def on_host_def
        intro!: exI [of _ "\<lambda>h. 2000 * int (length h)"])
qed

theorem reconnect_terminates_witness:
  "\<exists>res w'. report_relay_ended 15 demo_env None 0 demo_world = Some (res, w')"
  by (rule reconnect_terminates [OF demo_honest]) simp

section \<open>A lost connection\<close>

lemma close_if_open_recorded:
  "\<exists>tail. host (proc (close_if_open (Some (recorder ans nt)) ch reason w)) = host (proc w) @ tail \<and>
     list_all (\<lambda>(m, _). m = ''channel.close'') tail"
  by (cases ch) (auto simp: close_if_open_def on_proc_def close_channel_def Let_def on_endpoint_def
      split: option.splits prod.splits)

text \<open>
  C29: how a lost connection ends when reconnecting fails. The host is told that the session
  is in error, with the connection-lost message, and the session is torn down: password wiped,
  only \<open>channel.close\<close> notifications after that. This is so whatever stopped the loop, the end
  of the window or a disconnect during the back-off: in the second case a session the user has
  closed is still reported as an error.
\<close>

theorem lost_connection_reported:
  assumes "Caller env = Some (recorder ans nt)" and "\<not> torndown (sess w ! r)" and "r < length (sess w1)"
    and "reconnect n env r w = Some (Inr False, w1)"
    and "torndown (sess w1 ! r) \<longrightarrow> zeroed (password (sess w1 ! r)) = password (sess w1 ! r)"
  shows "\<exists>w' tail. report_relay_ended n env err r w = Some (Inr (), w') \<and>
    host (proc w') = host (proc w1) @ [state_call (sid (sess w1 ! r)) StateError (relay_ended_message env err)] @ tail \<and>
    list_all (\<lambda>(m, _). m = ''channel.close'') tail \<and>
    state (sess w' ! r) = StateError \<and> torndown (sess w' ! r) \<and>
    list_all (\<lambda>x. x = 0) (password (sess w' ! r))"
proof -
  let ?u = "update_state (Caller env) r StateError (relay_ended_message env err) w1"
  let ?w' = "teardown env r ''relay-ended'' ?u"
  have hu: "host (proc ?u) = host (proc w1) @ [state_call (sid (sess w1 ! r)) StateError (relay_ended_message env err)]"
    using assms(1,3) by simp
  have "\<exists>tail. host (proc ?w') = host (proc ?u) @ tail \<and> list_all (\<lambda>(m, _). m = ''channel.close'') tail"
  proof (cases "torndown (sess ?u ! r)")
    case True
    then show ?thesis by (simp add: teardown_def)
  next
    case False
    let ?v = "clear_password r (on_session r (\<lambda>s. s\<lparr>torndown := True\<rparr>) ?u)"
    let ?x = "close_if_open (Some (recorder ans nt)) (tcpChannel (sess ?u ! r)) ''relay-ended'' ?v"
    have "?w' = close_if_open (Some (recorder ans nt)) (embedChannel (sess ?u ! r)) ''relay-ended'' ?x"
      using False assms(1) by (simp add: teardown_def Let_def)
    moreover obtain t1 where "host (proc ?x) = host (proc ?v) @ t1" "list_all (\<lambda>(m, _). m = ''channel.close'') t1"
      using close_if_open_recorded by blast
    moreover obtain t2 where "host (proc (close_if_open (Some (recorder ans nt)) (embedChannel (sess ?u ! r)) ''relay-ended'' ?x)) =
        host (proc ?x) @ t2" "list_all (\<lambda>(m, _). m = ''channel.close'') t2"
      using close_if_open_recorded by blast
    ultimately show ?thesis by (intro exI [of _ "t1 @ t2"]) simp
  qed
  moreover have "state (sess ?w' ! r) = StateError \<and> torndown (sess ?w' ! r) \<and>
      password (sess ?w' ! r) = zeroed (password (sess w1 ! r))"
    using assms(3,5) by (cases "torndown (sess w1 ! r)") (simp_all add: teardown_def Let_def)
  moreover have "report_relay_ended n env err r w = Some (Inr (), ?w')"
    using assms(2,4) by (simp add: report_relay_ended_def)
  ultimately show ?thesis using hu zeroed_zero by auto
qed

text \<open>A host that refuses every call, and a disconnect that arrives during the first pause.\<close>

definition refusing_env :: "transcript environment" where
  "refusing_env = demo_env\<lparr>Caller := Some (recorder (\<lambda>_. Inl ErrClosed) (\<lambda>_. Inr ())),
     Pause := (\<lambda>w. (True, teardown demo_env 0 ''session-disconnect'' w))\<rparr>"

lemma demo_disconnect:
  "\<exists>w1. reconnect 15 refusing_env 0 demo_world = Some (Inr False, w1) \<and> length (sess w1) = 1 \<and>
     torndown (sess w1 ! 0) \<and> password (sess w1 ! 0) = [0, 0]"
  by (simp add: reconnect_def reconnectWindow_def reconnect_loop.simps refusing_env_def demo_world_def Let_def
      update_state_def on_host_def close_channels_def close_if_open_def connect_and_relay_def on_proc_def
      open_channel_def purpose_params_def teardown_def clear_password_def on_session_def demo_session_def zeroed_def)

theorem lost_connection_reported_witness:
  "\<exists>w1 w'. reconnect 15 refusing_env 0 demo_world = Some (Inr False, w1) \<and> torndown (sess w1 ! 0) \<and>
     report_relay_ended 15 refusing_env None 0 demo_world = Some (Inr (), w') \<and> state (sess w' ! 0) = StateError"
proof -
  obtain w1 where w1: "reconnect 15 refusing_env 0 demo_world = Some (Inr False, w1)" "length (sess w1) = 1"
    "torndown (sess w1 ! 0)" "password (sess w1 ! 0) = [0, 0]"
    using demo_disconnect by blast
  have "Caller refusing_env = Some (recorder (\<lambda>_. Inl ErrClosed) (\<lambda>_. Inr ()))" by (simp add: refusing_env_def)
  moreover have "\<not> torndown (sess demo_world ! 0)" by (simp add: demo_world_def demo_session_def)
  moreover have "zeroed (password (sess w1 ! 0)) = password (sess w1 ! 0)" using w1(4) by (simp add: zeroed_def)
  ultimately show ?thesis
    using lost_connection_reported [of refusing_env _ _ demo_world 0 w1 15 None] w1 by auto
qed

section \<open>The connect fields\<close>

text \<open>
  C32: the connect fields. An absent or null password is the empty one, an absent or null
  \<open>readOnly\<close> is false; a password must be a string and is kept byte for byte; \<open>readOnly\<close> is a
  boolean or a string, and the only string that makes the session read-only is \<open>true\<close>; every
  other shape fails the connect.
\<close>

theorem parse_connect_fields_spec:
  "parse_connect_fields fs = Inr (pw, ro) \<longleftrightarrow>
     (case fs ''password'' of None \<Rightarrow> pw = [] | Some j \<Rightarrow> j = JNull \<and> pw = [] \<or> (\<exists>s. j = JStr s \<and> pw = bytes_of s)) \<and>
     (case fs ''readOnly'' of
        None \<Rightarrow> \<not> ro
      | Some j \<Rightarrow> j = JNull \<and> \<not> ro \<or> j = JBool ro \<or> (\<exists>s. j = JStr s \<and> (ro \<longleftrightarrow> s = ''true'')))"
proof -
  have r: "(case member_value ''readOnly'' fs of None \<Rightarrow> Inr (p, False)
      | Some raw \<Rightarrow> (case set_bool False raw of Some b \<Rightarrow> Inr (p, b)
        | None \<Rightarrow> (case set_string [] raw of None \<Rightarrow> Inl e | Some s \<Rightarrow> Inr (p, s = ''true'')))) = Inr (pw, ro) \<longleftrightarrow>
    p = pw \<and> (case fs ''readOnly'' of None \<Rightarrow> \<not> ro
      | Some j \<Rightarrow> j = JNull \<and> \<not> ro \<or> j = JBool ro \<or> (\<exists>s. j = JStr s \<and> (ro \<longleftrightarrow> s = ''true'')))" for p and e :: go_error
  proof (cases "fs ''readOnly''")
    case (Some j)
    then show ?thesis by (cases j) (auto simp: member_value_def)
  qed (auto simp: member_value_def)
  show ?thesis
  proof (cases "fs ''password''")
    case None
    then show ?thesis using r by (auto simp: parse_connect_fields_def member_value_def [of "''password''"])
  next
    case (Some j)
    then show ?thesis
      using r by (cases j) (auto simp: parse_connect_fields_def member_value_def [of "''password''"])
  qed
qed

end
