(* ===== verification/Session_Gate.thy ===== *)
theory Session_Gate
  imports Session_Connect
begin

text \<open>
  \<open>internal/session/backpressure.go\<close>: the gate between the host's backpressure signals and the
  pump that reads from the VNC server. \<open>WaitForReadClearance\<close> looks at the gate under the lock and
  parks on it without the lock; the signals arrive on another goroutine.
\<close>

section \<open>Waiting for clearance\<close>

datatype waiter = Looking | Parked nat | Returned bool

text \<open>One turn of the loop: \<open>look\<close> is the critical section, \<open>select_gate\<close> the cases of the \<open>select\<close>.\<close>

definition look :: "session_ref \<Rightarrow> 'h world \<Rightarrow> waiter" where
  "look r w = (case backpressureGate (sess w ! r) of None \<Rightarrow> Returned True | Some g \<Rightarrow> Parked g)"

definition select_gate :: "nat \<Rightarrow> bool \<Rightarrow> 'h world \<Rightarrow> waiter list" where
  "select_gate g stopped w =
     (if g \<in> openedGates w then [Looking] else []) @ (if stopped then [Returned False] else [])"

text \<open>
  The pump's wait against signals and the channel's end (\<open>stop\<close>). \<open>reclosed\<close> is a gate closed twice,
  a panic; \<open>cleared\<close> whether there has been a moment without backpressure since the wait began.
\<close>

record 'h gate_system =
  gworld :: "'h world"
  waiter :: waiter
  stopped :: bool
  cleared :: bool
  reclosed :: bool

definition signalled :: "bool \<Rightarrow> session_ref \<Rightarrow> 'h gate_system \<Rightarrow> 'h gate_system" where
  "signalled on r s =
     (let w = set_backpressure on r (gworld s) in
      s\<lparr>gworld := w, cleared := cleared s \<or> backpressureGate (sess w ! r) = None,
        reclosed := reclosed s \<or>
          (\<not> on \<and> (\<exists>g. backpressureGate (sess (gworld s) ! r) = Some g \<and> g \<in> openedGates (gworld s)))\<rparr>)"

inductive gate_step :: "session_ref \<Rightarrow> 'h gate_system \<Rightarrow> 'h gate_system \<Rightarrow> bool" for r where
  signal: "gate_step r s (signalled on r s)"
| looks: "waiter s = Looking \<Longrightarrow> gate_step r s (s\<lparr>waiter := look r (gworld s)\<rparr>)"
| selects: "waiter s = Parked g \<Longrightarrow> x \<in> set (select_gate g (stopped s) (gworld s)) \<Longrightarrow> gate_step r s (s\<lparr>waiter := x\<rparr>)"
| stops: "gate_step r s (s\<lparr>stopped := True\<rparr>)"

text \<open>A wait begins in a world where the session's gate, if any, is a fresh one.\<close>

definition wf_gates :: "session_ref \<Rightarrow> 'h world \<Rightarrow> bool" where
  "wf_gates r w \<longleftrightarrow> r < length (sess w) \<and> openedGates w \<subseteq> {..<nextGate w} \<and>
     (\<forall>g. backpressureGate (sess w ! r) = Some g \<longrightarrow> g < nextGate w \<and> g \<notin> openedGates w)"

definition gate_start :: "session_ref \<Rightarrow> 'h gate_system \<Rightarrow> bool" where
  "gate_start r s \<longleftrightarrow> wf_gates r (gworld s) \<and> waiter s = Looking \<and> \<not> reclosed s \<and>
     (cleared s \<longleftrightarrow> backpressureGate (sess (gworld s) ! r) = None)"

definition gate_inv :: "session_ref \<Rightarrow> 'h gate_system \<Rightarrow> bool" where
  "gate_inv r s \<longleftrightarrow> wf_gates r (gworld s) \<and> \<not> reclosed s \<and>
     (backpressureGate (sess (gworld s) ! r) = None \<longrightarrow> cleared s) \<and>
     (case waiter s of
        Looking \<Rightarrow> True
      | Parked g \<Rightarrow> g \<in> openedGates (gworld s) \<or> backpressureGate (sess (gworld s) ! r) = Some g
      | Returned b \<Rightarrow> if b then cleared s else stopped s)"

text \<open>The signals keep gates fresh, and a gate that is no longer the session's is open.\<close>

lemma set_backpressure_wf:
  assumes "wf_gates r w"
  shows "wf_gates r (set_backpressure on r w)"
  using assms by (auto simp: wf_gates_def set_backpressure_def less_Suc_eq split: option.splits)

lemma set_backpressure_gate:
  assumes "wf_gates r w"
  shows "openedGates w \<subseteq> openedGates (set_backpressure on r w) \<and>
    (backpressureGate (sess w ! r) = Some g \<longrightarrow>
       g \<in> openedGates (set_backpressure on r w) \<or> backpressureGate (sess (set_backpressure on r w) ! r) = Some g)"
  using assms by (auto simp: wf_gates_def set_backpressure_def split: option.splits)

lemma gate_inv_step: "gate_step r s s' \<Longrightarrow> gate_inv r s \<Longrightarrow> gate_inv r s'"
proof (induction rule: gate_step.induct)
  case (signal s on)
  then have wf: "wf_gates r (gworld s)" by (simp add: gate_inv_def)
  show ?case
    using signal set_backpressure_wf [OF wf, of on] set_backpressure_gate [OF wf, of on]
    by (auto simp: gate_inv_def signalled_def Let_def wf_gates_def split: waiter.splits)
next
  case (looks s)
  then show ?case by (auto simp: gate_inv_def look_def split: option.splits)
next
  case (selects s g x)
  then show ?case by (auto simp: gate_inv_def select_gate_def split: if_splits)
next
  case (stops s)
  then show ?case by (auto simp: gate_inv_def split: waiter.splits)
qed

interpretation gate: transition_invariant "gate_step r" "gate_start r" "gate_inv r" for r
proof
  show "gate_inv r s" if "gate_start r s" for s :: "'a gate_system"
    using that by (auto simp: gate_start_def gate_inv_def)
  show "gate_inv r t" if "gate_inv r s" and "gate_step r s t" for s t :: "'a gate_system"
    using that(2,1) by (rule gate_inv_step)
qed

section \<open>Properties\<close>

text \<open>
  C27: backpressure holds the pump exactly as long as the host wants. In every interleaving of
  backpressure, resume and the end of the channel, duplicates included: no gate is closed
  twice; the wait reports clearance only if there was a moment without backpressure since it
  began, and gives up only if the channel ended; a pump parked while there is no backpressure
  can always go on (no resume is lost), and one parked under backpressure waits on the
  session's current gate.
\<close>

theorem backpressure_gate:
  assumes "(gate_step r)\<^sup>*\<^sup>* s0 s" and "gate_start r s0"
  shows "\<not> reclosed s \<and> (waiter s = Returned True \<longrightarrow> cleared s) \<and> (waiter s = Returned False \<longrightarrow> stopped s) \<and>
    (\<forall>g. waiter s = Parked g \<longrightarrow>
       (case backpressureGate (sess (gworld s) ! r) of
          None \<Rightarrow> Looking \<in> set (select_gate g (stopped s) (gworld s)) \<and> look r (gworld s) = Returned True
        | Some g' \<Rightarrow> g = g' \<or> Looking \<in> set (select_gate g (stopped s) (gworld s))))"
  using gate.reachable_inv [OF assms(2,1)]
  by (auto simp: gate_inv_def select_gate_def look_def split: option.splits)

definition demo_gate :: "transcript gate_system" where
  "demo_gate = \<lparr>gworld = set_backpressure True 0 demo_world, waiter = Looking, stopped = False, cleared = False, reclosed = False\<rparr>"

theorem backpressure_gate_witness:
  "\<exists>s. (gate_step 0)\<^sup>*\<^sup>* demo_gate s \<and> waiter s = Parked 0 \<and> backpressureGate (sess (gworld s) ! 0) = None \<and>
     Looking \<in> set (select_gate 0 (stopped s) (gworld s))"
proof -
  let ?p = "demo_gate\<lparr>waiter := look 0 (gworld demo_gate)\<rparr>"
  let ?s = "signalled False 0 ?p"
  have "gate_step 0 demo_gate ?p"
    by (rule gate_step.looks) (simp add: demo_gate_def)
  moreover have "gate_step 0 ?p ?s" by (rule gate_step.signal)
  ultimately have run: "(gate_step 0)\<^sup>*\<^sup>* demo_gate ?s" by simp
  have "gate_start 0 demo_gate"
    by (simp add: gate_start_def demo_gate_def wf_gates_def set_backpressure_def demo_world_def demo_session_def)
  moreover have "waiter ?s = Parked 0 \<and> backpressureGate (sess (gworld ?s) ! 0) = None"
    by (simp add: signalled_def Let_def demo_gate_def look_def set_backpressure_def demo_world_def demo_session_def)
  ultimately show ?thesis
    using backpressure_gate [OF run] by (intro exI [of _ ?s]) (auto simp: run)
qed

end
