(* ===== verification/Lifecycle.thy ===== *)
theory Lifecycle
  imports Rpc_Server
begin

text \<open>
  \<open>internal/lifecycle/lifecycle.go\<close>: \<open>initialize\<close>, \<open>activate\<close>, \<open>ping\<close>, \<open>shutdown\<close> and
  \<open>deactivate\<close>. The handler's own state is whether its \<open>shutdown\<close> channel is closed; the other
  half of the state is that of the writer.
\<close>

section \<open>The handler\<close>

definition MethodInitialize :: string where "MethodInitialize = ''initialize''"
definition MethodActivate :: string where "MethodActivate = ''activate''"
definition MethodPing :: string where "MethodPing = ''ping''"
definition MethodShutdown :: string where "MethodShutdown = ''shutdown''"
definition MethodDeactivate :: string where "MethodDeactivate = ''deactivate''"

definition errMethodNotFound :: int where "errMethodNotFound = -32601"

record lifecycle =
  shutdown :: bool

definition new_lifecycle :: lifecycle where
  "new_lifecycle = \<lparr>shutdown = False\<rparr>"

type_synonym 'h encoder = "kind \<Rightarrow> u32 \<Rightarrow> bytes \<Rightarrow> 'h \<Rightarrow> (unit, 'h) outcome"

definition lifecycle_write :: "'h encoder \<Rightarrow> bytes \<Rightarrow> lifecycle \<times> 'h \<Rightarrow> (unit, lifecycle \<times> 'h) outcome" where
  "lifecycle_write enc payload s = (case enc KindJSONRPC 0 payload (snd s) of (res, h) \<Rightarrow> (res, (fst s, h)))"

definition lifecycle_respond :: "'h encoder \<Rightarrow> json \<Rightarrow> json \<Rightarrow> lifecycle \<times> 'h \<Rightarrow> (unit, lifecycle \<times> 'h) outcome" where
  "lifecycle_respond enc i result s = lifecycle_write enc (encode_response (ok_response i result)) s"

definition lifecycle_respond_ok :: "'h encoder \<Rightarrow> json \<Rightarrow> lifecycle \<times> 'h \<Rightarrow> (unit, lifecycle \<times> 'h) outcome" where
  "lifecycle_respond_ok enc i s = lifecycle_respond enc i (JObj [(''ok'', JBool True)]) s"

definition lifecycle_respond_error ::
    "'h encoder \<Rightarrow> json \<Rightarrow> int \<Rightarrow> string \<Rightarrow> lifecycle \<times> 'h \<Rightarrow> (unit, lifecycle \<times> 'h) outcome" where
  "lifecycle_respond_error enc i code msg s = lifecycle_write enc (encode_response (error_response i code msg)) s"

definition lifecycle_request :: "'h encoder \<Rightarrow> request \<Rightarrow> lifecycle \<times> 'h \<Rightarrow> (unit, lifecycle \<times> 'h) outcome" where
  "lifecycle_request enc req s =
     (if ReqMethod req = MethodInitialize \<or> ReqMethod req = MethodActivate then lifecycle_respond_ok enc (ReqID req) s
      else if ReqMethod req = MethodPing
      then lifecycle_respond enc (ReqID req) (JObj [(''pong'', JStr ''ok'')]) s
      else if ReqMethod req = MethodShutdown
      then io_bind (lifecycle_respond_ok enc (ReqID req) s) (\<lambda>_ (l, h). (Inr (), (l\<lparr>shutdown := True\<rparr>, h)))
      else lifecycle_respond_error enc (ReqID req) errMethodNotFound ''method not found'' s)"

definition lifecycle_notification :: "notification \<Rightarrow> lifecycle \<times> 'h \<Rightarrow> lifecycle \<times> 'h" where
  "lifecycle_notification n s = s"

definition lifecycle_handle :: "'h encoder \<Rightarrow> message \<Rightarrow> lifecycle \<times> 'h \<Rightarrow> (unit, lifecycle \<times> 'h) outcome" where
  "lifecycle_handle enc msg s =
     (case msg of
        MessageRequest req \<Rightarrow> lifecycle_request enc req s
      | MessageNotification n \<Rightarrow> (Inr (), lifecycle_notification n s)
      | MessageResponse _ \<Rightarrow> (Inr (), s))"

section \<open>Every request gets its response\<close>

definition lifecycle_reply :: "request \<Rightarrow> response" where
  "lifecycle_reply req =
     (if ReqMethod req \<in> {''initialize'', ''activate'', ''shutdown''}
      then ok_response (ReqID req) (JObj [(''ok'', JBool True)])
      else if ReqMethod req = ''ping'' then ok_response (ReqID req) (JObj [(''pong'', JStr ''ok'')])
      else error_response (ReqID req) (-32601) ''method not found'')"

named_theorems lifecycle_defs
lemmas [lifecycle_defs] = lifecycle_handle_def lifecycle_request_def lifecycle_notification_def
  lifecycle_respond_def lifecycle_respond_ok_def lifecycle_respond_error_def
  MethodInitialize_def MethodActivate_def MethodPing_def MethodShutdown_def errMethodNotFound_def

lemma lifecycle_request_writes:
  "lifecycle_request enc req (l, h) =
     (case enc KindJSONRPC 0 (encode_response (lifecycle_reply req)) h of
        (Inl e, h) \<Rightarrow> (Inl e, (l, h))
      | (Inr _, h) \<Rightarrow> (Inr (), (if ReqMethod req = ''shutdown'' then l\<lparr>shutdown := True\<rparr> else l, h)))"
  by (auto simp: lifecycle_defs lifecycle_reply_def lifecycle_write_def split: prod.splits sum.splits)

lemma lifecycle_reply_shape:
  "RespID (lifecycle_reply req) = ReqID req"
  "(Result (lifecycle_reply req) = None) \<noteq> (Error (lifecycle_reply req) = None)"
  "wf_id float (ReqID req) \<Longrightarrow> wf_message float (MessageResponse (lifecycle_reply req))"
  by (simp_all add: lifecycle_reply_def ok_response_def error_response_def wf_raw_def wf_rpc_error_def)

text \<open>The id of a request survives the trip to the host: the ids \<open>DecodeMessage\<close> yields do.\<close>

fun wf_request_id :: "(string \<Rightarrow> string option) \<Rightarrow> message \<Rightarrow> bool" where
  "wf_request_id float (MessageRequest r) \<longleftrightarrow> wf_id float (ReqID r)"
| "wf_request_id float _ \<longleftrightarrow> True"

context frame_writer
begin

text \<open>Writing a response over any frame writer adds that response for the host and nothing else.\<close>

lemma enc_response_Inr:
  assumes "ok s" and "wf_message float (MessageResponse r)"
    and "enc KindJSONRPC 0 (encode_response r) s = (Inr u, s')"
  shows "ok s' \<and> responses_of float (frames s') = responses_of float (frames s) @ [r]"
proof -
  have "ok s' \<and> frames s' = frames s @ [response_frame r]"
    using enc_Inr [OF assms(1,3)] by (simp add: response_frame_def)
  with assms(2) show ?thesis by simp
qed

lemma lifecycle_server:
  "rpc_server (lifecycle_handle enc) (\<lambda>(l, h). responses_of float (frames h)) (\<lambda>(l, h). ok h)
     (wf_request_id float) lifecycle_reply"
proof
  fix s m u s'
  assume ok: "case s of (l, h) \<Rightarrow> ok h" and wf: "wf_request_id float m" and h: "lifecycle_handle enc m s = (Inr u, s')"
  show "(case s' of (l, h) \<Rightarrow> ok h) \<and>
      (case s' of (l, h) \<Rightarrow> responses_of float (frames h)) =
      (case s of (l, h) \<Rightarrow> responses_of float (frames h)) @ map lifecycle_reply (requests_of [m])"
  proof (cases m)
    case (MessageRequest r)
    obtain l h' where "enc KindJSONRPC 0 (encode_response (lifecycle_reply r)) (snd s) = (Inr (), h')" "snd s' = h'"
      using h MessageRequest by (cases s) (auto simp: lifecycle_handle_def lifecycle_request_writes
          split: prod.splits sum.splits)
    with enc_response_Inr [OF _ lifecycle_reply_shape(3)] ok wf MessageRequest show ?thesis
      by (cases s; cases s') (auto simp: requests_of_def List.map_filter_def)
  qed (use ok h in \<open>auto simp: lifecycle_defs requests_of_def List.map_filter_def\<close>)
next
  fix s m e s'
  assume ok: "case s of (l, h) \<Rightarrow> ok h" and h: "lifecycle_handle enc m s = (Inl e, s')"
  then show "(case s' of (l, h) \<Rightarrow> ok h) \<and>
      (case s' of (l, h) \<Rightarrow> responses_of float (frames h)) = (case s of (l, h) \<Rightarrow> responses_of float (frames h))"
    by (cases m; cases s; cases s')
      (auto simp: lifecycle_handle_def lifecycle_request_writes lifecycle_notification_def dest: enc_Inl
        split: prod.splits sum.splits)
qed (simp_all add: lifecycle_reply_shape)

end

interpretation lifecycle_rpc: rpc_server "lifecycle_handle (encode conn_write)"
  "\<lambda>(l, h). responses_of float (parse_frames (sent h))" "\<lambda>(l, h). well_framed (sent h)"
  "wf_request_id float" lifecycle_reply for float
  by (rule stdout.lifecycle_server)

section \<open>Properties\<close>

lemma lifecycle_shutdown:
  "lifecycle_handle enc m (l, h) = (Inr u, (l', h')) \<Longrightarrow>
     shutdown l' \<longleftrightarrow> shutdown l \<or> (\<exists>r. m = MessageRequest r \<and> ReqMethod r = ''shutdown'')"
  by (cases m) (auto simp: lifecycle_handle_def lifecycle_request_writes lifecycle_notification_def
      split: prod.splits sum.splits if_splits)

lemma serve_shutdown:
  "serve (lifecycle_handle enc) ms (l, h) = (Inr u, (l', h')) \<Longrightarrow>
     shutdown l' \<longleftrightarrow> shutdown l \<or> (\<exists>r \<in> set (requests_of ms). ReqMethod r = ''shutdown'')"
proof (induction ms arbitrary: l h)
  case Nil
  then show ?case by (simp add: requests_of_def List.map_filter_def)
next
  case (Cons m ms)
  then obtain l1 h1 where m: "lifecycle_handle enc m (l, h) = (Inr (), (l1, h1))"
    and ms: "serve (lifecycle_handle enc) ms (l1, h1) = (Inr u, (l', h'))"
    by (auto simp: io_bind_Inr_iff)
  from Cons.IH [OF ms] lifecycle_shutdown [OF m] show ?case
    by (cases m) (auto simp: requests_of_def List.map_filter_def)
qed

text \<open>
  the host gets exactly one response per lifecycle request, in the order of the requests and
  with their ids: \<open>{"ok":true}\<close> for initialize, activate and shutdown, \<open>{"pong":"ok"}\<close> for ping,
  error -32601 for every other method; notifications and stray responses are answered with
  nothing. The process is told to stop exactly when a shutdown request has been answered.
\<close>

theorem lifecycle_answers:
  assumes "well_framed (sent h)" and "list_all (wf_request_id float) ms"
    and "serve (lifecycle_handle (encode conn_write)) ms (l, h) = (Inr u, (l', h'))"
  shows "responses_of float (parse_frames (sent h')) =
      responses_of float (parse_frames (sent h)) @
      map (\<lambda>r. if ReqMethod r \<in> {''initialize'', ''activate'', ''shutdown''}
                then ok_response (ReqID r) (JObj [(''ok'', JBool True)])
                else if ReqMethod r = ''ping'' then ok_response (ReqID r) (JObj [(''pong'', JStr ''ok'')])
                else error_response (ReqID r) (-32601) ''method not found'') (requests_of ms) \<and>
    (shutdown l' \<longleftrightarrow> shutdown l \<or> (\<exists>r \<in> set (requests_of ms). ReqMethod r = ''shutdown''))"
  using lifecycle_rpc.serve_answers [of "(l, h)" float ms u "(l', h')"] serve_shutdown [OF assms(3)] assms
  by (simp add: lifecycle_reply_def [abs_def])

definition demo_ping :: message where
  "demo_ping = MessageRequest \<lparr>ReqID = JStr ''1'', ReqMethod = ''ping'', ReqParams = None\<rparr>"

theorem lifecycle_answers_witness:
  "\<exists>l' h'. serve (lifecycle_handle (encode conn_write)) [demo_ping] (new_lifecycle, demo_stdout) = (Inr (), (l', h')) \<and>
     responses_of Some (parse_frames (sent h')) = [ok_response (JStr ''1'') (JObj [(''pong'', JStr ''ok'')])]"
proof -
  let ?p = "encode_response (lifecycle_reply \<lparr>ReqID = JStr ''1'', ReqMethod = ''ping'', ReqParams = None\<rparr>)"
  have "length ?p \<le> MaxFrameLength"
    using escape_length [of "''jsonrpc''"] escape_length [of "''2.0''"] escape_length [of "''id''"]
      escape_length [of "''1''"] escape_length [of "''result''"] escape_length [of "''pong''"] escape_length [of "''ok''"]
    by (simp add: lifecycle_reply_def encode_response_def response_json_def ok_response_def json_print_def
        print_string_def MaxFrameLength_def protocolVersion_def opt_field_def join_def bytes_of_def)
  then obtain h' where h': "encode conn_write KindJSONRPC 0 ?p demo_stdout = (Inr (), h')"
    by (auto simp: encode_def is_reserved_or_unknown_kind_def KindJSONRPC_def conn_write_def demo_stdout_def)
  then have s: "serve (lifecycle_handle (encode conn_write)) [demo_ping] (new_lifecycle, demo_stdout) =
      (Inr (), (new_lifecycle, h'))"
    by (simp add: demo_ping_def lifecycle_handle_def lifecycle_request_writes)
  show ?thesis
    using lifecycle_answers [OF _ _ s, of Some] s
    by (auto simp: demo_stdout_def demo_ping_def wf_id_def requests_of_def List.map_filter_def)
qed

end
