(* ===== verification/Session_Handler.thy ===== *)
theory Session_Handler
  imports Session_Gate Lifecycle
begin

text \<open>
  \<open>internal/session\<close>: the handler of the \<open>session.*\<close> requests and notifications, in
  \<open>lifecycle.go\<close>, \<open>connect.go\<close> and \<open>teardown.go\<close>. Its responses go to the stream the host's
  frames are written to, which \<open>channel.close\<close> notifications share.
\<close>

section \<open>session.connect\<close>

definition MethodSessionConnect :: string where "MethodSessionConnect = ''session.connect''"
definition MethodSessionDisconnect :: string where "MethodSessionDisconnect = ''session.disconnect''"
definition MethodSessionEmbedViewport :: string where "MethodSessionEmbedViewport = ''session.embedViewport''"
definition MethodSessionEmbedActivity :: string where "MethodSessionEmbedActivity = ''session.embedActivity''"
definition MethodSessionTunnelBackpressure :: string where
  "MethodSessionTunnelBackpressure = ''session.tunnelBackpressure''"
definition MethodSessionTunnelResume :: string where "MethodSessionTunnelResume = ''session.tunnelResume''"

definition errInvalidParams :: int where "errInvalidParams = -32602"
definition errSessionMethodNotFound :: int where "errSessionMethodNotFound = -32601"

record connect_params =
  SessionID :: string
  ConnectionID :: string
  Protocol :: string
  ConnectHost :: string
  ConnectPort :: int
  Username :: string
  ConnectFields :: "string \<rightharpoonup> json"

definition zero_connect_params :: connect_params where
  "zero_connect_params =
     \<lparr>SessionID = [], ConnectionID = [], Protocol = [], ConnectHost = [], ConnectPort = 0, Username = [],
      ConnectFields = Map.empty\<rparr>"

text \<open>Into a map: \<open>null\<close> empties it, an object adds its members.\<close>

definition set_members :: "(string \<rightharpoonup> json) \<Rightarrow> json \<Rightarrow> (string \<rightharpoonup> json) option" where
  "set_members old j =
     (case j of JNull \<Rightarrow> Some Map.empty | JObj ms \<Rightarrow> Some (fold (\<lambda>(k, v) m. m(k \<mapsto> v)) ms old) | _ \<Rightarrow> None)"

definition connect_member :: "string \<Rightarrow> json \<Rightarrow> connect_params \<Rightarrow> connect_params option" where
  "connect_member k j p =
     (if field_is ''sessionId'' k then map_option (\<lambda>x. p\<lparr>SessionID := x\<rparr>) (set_string (SessionID p) j)
      else if field_is ''connectionId'' k then map_option (\<lambda>x. p\<lparr>ConnectionID := x\<rparr>) (set_string (ConnectionID p) j)
      else if field_is ''protocol'' k then map_option (\<lambda>x. p\<lparr>Protocol := x\<rparr>) (set_string (Protocol p) j)
      else if field_is ''host'' k then map_option (\<lambda>x. p\<lparr>ConnectHost := x\<rparr>) (set_string (ConnectHost p) j)
      else if field_is ''port'' k then map_option (\<lambda>x. p\<lparr>ConnectPort := x\<rparr>) (set_int (ConnectPort p) j)
      else if field_is ''username'' k then map_option (\<lambda>x. p\<lparr>Username := x\<rparr>) (set_string (Username p) j)
      else if field_is ''fields'' k then map_option (\<lambda>x. p\<lparr>ConnectFields := x\<rparr>) (set_members (ConnectFields p) j)
      else Some p)"

definition connect_result_ok :: json where
  "connect_result_ok = JObj [(''accepted'', JBool True)]"

section \<open>Responses\<close>

definition session_write :: "'h encoder \<Rightarrow> bytes \<Rightarrow> 'h world \<Rightarrow> (unit, 'h world) outcome" where
  "session_write enc payload w = on_host (enc KindJSONRPC 0 payload) w"

definition session_respond :: "'h encoder \<Rightarrow> json \<Rightarrow> json \<Rightarrow> 'h world \<Rightarrow> (unit, 'h world) outcome" where
  "session_respond enc i result w = session_write enc (encode_response (ok_response i result)) w"

definition session_respond_error :: "'h encoder \<Rightarrow> json \<Rightarrow> int \<Rightarrow> string \<Rightarrow> 'h world \<Rightarrow> (unit, 'h world) outcome" where
  "session_respond_error enc i code msg w = session_write enc (encode_response (error_response i code msg)) w"

section \<open>The handler\<close>

definition new_session :: "string \<Rightarrow> connect_params \<Rightarrow> bytes \<Rightarrow> bool \<Rightarrow> session" where
  "new_session entry p pw ro =
     \<lparr>sid = SessionID p, embedEntry = entry, state = StateConnecting, password = pw, readOnly = ro,
      hostName = ConnectHost p, port = ConnectPort p, tcpChannel = None, embedChannel = None, torndown = False,
      viewport = zero_viewport, active = True, embedToken = zero_embed_result, backpressureGate = None\<rparr>"

definition set_session :: "string \<Rightarrow> session_ref \<Rightarrow> 'h world \<Rightarrow> 'h world" where
  "set_session i r w = w\<lparr>sessions := (sessions w)(i \<mapsto> r)\<rparr>"

definition handle_connect ::
    "'h encoder \<Rightarrow> (go_error \<Rightarrow> string) \<Rightarrow> string \<Rightarrow> request \<Rightarrow> 'h world \<Rightarrow> (unit, 'h world) outcome" where
  "handle_connect enc txt entry req w =
     (case unmarshal_ignore_empty (unmarshal_struct connect_member zero_connect_params) zero_connect_params (ReqParams req) of
        None \<Rightarrow> session_respond_error enc (ReqID req) errInvalidParams ''invalid session.connect params'' w
      | Some p \<Rightarrow>
         (case parse_connect_fields (ConnectFields p) of
            Inl err \<Rightarrow> session_respond_error enc (ReqID req) errInvalidParams (txt err) w
          | Inr (pw, ro) \<Rightarrow>
              (let r = length (sess w);
                   w = w\<lparr>sess := sess w @ [new_session entry p pw ro]\<rparr>;
                   w = set_session (SessionID p) r w in
               io_bind (session_respond enc (ReqID req) connect_result_ok w) (\<lambda>_ w.
               (Inr (), w\<lparr>started := started w @ [r]\<rparr>)))))"

definition handle_disconnect :: "'h environment \<Rightarrow> notification \<Rightarrow> 'h world \<Rightarrow> 'h world" where
  "handle_disconnect env n w =
     (case unmarshal_ignore_empty (unmarshal_struct session_id_params []) [] (NotParams n) of
        None \<Rightarrow> w
      | Some i \<Rightarrow> (case sessions w i of None \<Rightarrow> w | Some r \<Rightarrow> teardown env r ''session-disconnect'' w))"

definition session_request ::
    "'h encoder \<Rightarrow> (go_error \<Rightarrow> string) \<Rightarrow> string \<Rightarrow> request \<Rightarrow> 'h world \<Rightarrow> (unit, 'h world) outcome" where
  "session_request enc txt entry req w =
     (if ReqMethod req = MethodSessionConnect then handle_connect enc txt entry req w
      else session_respond_error enc (ReqID req) errSessionMethodNotFound ''method not found'' w)"

definition session_notification ::
    "(string \<Rightarrow> string option) \<Rightarrow> 'h environment \<Rightarrow> notification \<Rightarrow> 'h world \<Rightarrow> 'h world" where
  "session_notification float env n w =
     (if NotMethod n = MethodSessionDisconnect then handle_disconnect env n w
      else if NotMethod n = MethodSessionEmbedViewport then handle_embed_viewport float n w
      else if NotMethod n = MethodSessionEmbedActivity then handle_embed_activity n w
      else if NotMethod n = MethodSessionTunnelBackpressure then handle_tunnel_backpressure n w
      else if NotMethod n = MethodSessionTunnelResume then handle_tunnel_resume n w
      else w)"

definition session_handle ::
    "'h encoder \<Rightarrow> (string \<Rightarrow> string option) \<Rightarrow> 'h environment \<Rightarrow> string \<Rightarrow> message \<Rightarrow> 'h world \<Rightarrow> (unit, 'h world) outcome" where
  "session_handle enc float env entry msg w =
     (case msg of
        MessageRequest req \<Rightarrow> session_request enc (Text env) entry req w
      | MessageNotification n \<Rightarrow> (Inr (), session_notification float env n w)
      | MessageResponse _ \<Rightarrow> (Inr (), w))"

section \<open>Every request gets its response\<close>

definition session_reply :: "(go_error \<Rightarrow> string) \<Rightarrow> request \<Rightarrow> response" where
  "session_reply txt req =
     (if ReqMethod req \<noteq> ''session.connect'' then error_response (ReqID req) (-32601) ''method not found''
      else
        case unmarshal_ignore_empty (unmarshal_struct connect_member zero_connect_params) zero_connect_params (ReqParams req) of
          None \<Rightarrow> error_response (ReqID req) (-32602) ''invalid session.connect params''
        | Some p \<Rightarrow>
           (case parse_connect_fields (ConnectFields p) of
              Inl err \<Rightarrow> error_response (ReqID req) (-32602) (txt err)
            | Inr _ \<Rightarrow> ok_response (ReqID req) connect_result_ok))"

named_theorems session_defs
lemmas [session_defs] = session_request_def handle_connect_def session_respond_def session_respond_error_def
  MethodSessionConnect_def errInvalidParams_def errSessionMethodNotFound_def set_session_def

lemma session_write_host:
  "session_write enc payload w = (res, w') \<Longrightarrow> enc KindJSONRPC 0 payload (host (proc w)) = (res, host (proc w'))"
  by (auto simp: session_write_def on_host_def split: prod.splits)

lemma session_request_writes:
  "session_request enc txt entry req w = (res, w') \<Longrightarrow>
     enc KindJSONRPC 0 (encode_response (session_reply txt req)) (host (proc w)) = (res, host (proc w'))"
  by (auto simp: session_defs session_reply_def Let_def io_bind_def split: if_splits option.splits sum.splits prod.splits
      dest!: session_write_host)

lemma session_reply_shape:
  "RespID (session_reply txt req) = ReqID req"
  "(Result (session_reply txt req) = None) \<noteq> (Error (session_reply txt req) = None)"
  "wf_id float (ReqID req) \<Longrightarrow> wf_message float (MessageResponse (session_reply txt req))"
  by (auto simp: session_reply_def ok_response_def error_response_def wf_raw_def wf_rpc_error_def connect_result_ok_def
      split: option.splits sum.splits)

text \<open>
  The environment of the plugin: notifications to the host go through \<open>ipc.Client\<close> to the same
  stream; the calls, the relay, the clock and the pause are left open.
\<close>

definition plugin_environment ::
    "'h encoder \<Rightarrow> (string \<Rightarrow> json \<Rightarrow> 'h \<Rightarrow> (response, 'h) outcome) \<Rightarrow>
     (session_ref \<Rightarrow> channel_ref \<Rightarrow> channel_ref \<Rightarrow> 'h world \<Rightarrow> (go_error + unit) ran \<times> 'h world) \<Rightarrow>
     ('h world \<Rightarrow> int) \<Rightarrow> ('h world \<Rightarrow> bool \<times> 'h world) \<Rightarrow> (go_error \<Rightarrow> string) \<Rightarrow> 'h environment" where
  "plugin_environment enc call start clock pause txt =
     \<lparr>Caller = Some \<lparr>Call = call, Notify = (\<lambda>m params. notify enc m (Some params))\<rparr>,
      StartRelay = Some start, Clock = clock, Pause = pause, Text = txt\<rparr>"

lemma wf_close_params: "wf_json (channel_close_params i reason msg)"
  using wf_show_int [of "int (unat i)"]
  by (auto simp: channel_close_params_def opt_string_def show_int_def)

lemma handle_gate_host [simp]:
  "proc (handle_embed_viewport float n w) = proc w" "proc (handle_embed_activity n w) = proc w"
  "proc (handle_tunnel_backpressure n w) = proc w" "proc (handle_tunnel_resume n w) = proc w"
  by (simp_all add: handle_embed_viewport_def handle_embed_activity_def handle_tunnel_backpressure_def
      handle_tunnel_resume_def set_backpressure_def split: option.splits prod.splits)

context frame_writer
begin

lemma notify_silent:
  assumes "ok h" and "m \<noteq> []" and "wf_json params" and "notify enc m (Some params) h = (res, h')"
  shows "ok h' \<and> responses_of float (frames h') = responses_of float (frames h)"
proof -
  let ?n = "\<lparr>NotMethod = m, NotParams = Some params\<rparr>"
  obtain x where x: "enc KindJSONRPC 0 (encode_notification ?n) h = (x, h')"
    using assms(4) by (auto simp: notify_def io_wrap_def split: prod.splits sum.splits)
  have wf: "wf_message float (MessageNotification ?n)" using assms(2,3) by (simp add: wf_raw_def)
  show ?thesis
  proof (cases x)
    case (Inl e)
    with enc_Inl [OF assms(1)] x show ?thesis by metis
  next
    case (Inr u)
    from enc_Inr [OF assms(1) x [unfolded Inr]] frame_response_notification [OF wf]
    show ?thesis by simp
  qed
qed

lemma close_silent:
  assumes "ok (host (proc w))" and "Caller env = Some \<lparr>Call = call, Notify = (\<lambda>m params. notify enc m (Some params))\<rparr>"
  shows "ok (host (proc (close_if_open (Caller env) ch reason w))) \<and>
    responses_of float (frames (host (proc (close_if_open (Caller env) ch reason w)))) =
    responses_of float (frames (host (proc w)))"
proof (cases ch)
  case (Some q)
  show ?thesis
  proof (cases "Source (objs (proc w) ! q)")
    case None
    then show ?thesis using Some assms(1) by (simp add: close_if_open_def on_proc_def close_channel_def on_endpoint_def)
  next
    case cc: (Some cc)
    obtain res h' where n: "notify enc ''channel.close'' (Some (channel_close_params (chanId cc) reason [])) (host (proc w)) = (res, h')"
      by (cases "notify enc ''channel.close'' (Some (channel_close_params (chanId cc) reason [])) (host (proc w))")
    then have "host (proc (close_if_open (Caller env) ch reason w)) = h'"
      using Some cc assms(2) by (simp add: close_if_open_def on_proc_def close_channel_def Let_def on_endpoint_def)
    with notify_silent [OF assms(1) _ wf_close_params n] show ?thesis by simp
  qed
qed (simp add: close_if_open_def assms)

lemma teardown_silent:
  assumes "ok (host (proc w))" and "Caller env = Some \<lparr>Call = call, Notify = (\<lambda>m params. notify enc m (Some params))\<rparr>"
  shows "ok (host (proc (teardown env r reason w))) \<and>
    responses_of float (frames (host (proc (teardown env r reason w)))) = responses_of float (frames (host (proc w)))"
proof (cases "torndown (sess w ! r)")
  case False
  let ?v = "clear_password r (on_session r (\<lambda>s. s\<lparr>torndown := True\<rparr>) w)"
  let ?x = "close_if_open (Caller env) (tcpChannel (sess w ! r)) reason ?v"
  have "ok (host (proc ?v)) \<and> responses_of float (frames (host (proc ?v))) = responses_of float (frames (host (proc w)))"
    using assms(1) by simp
  then have "ok (host (proc ?x)) \<and> responses_of float (frames (host (proc ?x))) = responses_of float (frames (host (proc w)))"
    using close_silent [OF _ assms(2)] by metis
  moreover have "teardown env r reason w = close_if_open (Caller env) (embedChannel (sess w ! r)) reason ?x"
    using False by (simp add: teardown_def Let_def)
  ultimately show ?thesis using close_silent [OF _ assms(2)] by metis
qed (simp add: teardown_def assms)

lemma session_server:
  assumes env: "env = plugin_environment enc call start clock pause txt"
  shows "rpc_server (session_handle enc float env entry) (\<lambda>w. responses_of float (frames (host (proc w))))
    (\<lambda>w. ok (host (proc w))) (wf_request_id float) (session_reply txt)"
proof
  have c: "Caller env = Some \<lparr>Call = call, Notify = (\<lambda>m params. notify enc m (Some params))\<rparr>" and t: "Text env = txt"
    by (simp_all add: env plugin_environment_def)
  fix w m u w'
  assume ok: "ok (host (proc w))" and wf: "wf_request_id float m" and h: "session_handle enc float env entry m w = (Inr u, w')"
  show "ok (host (proc w')) \<and> responses_of float (frames (host (proc w'))) =
      responses_of float (frames (host (proc w))) @ map (session_reply txt) (requests_of [m])"
  proof (cases m)
    case (MessageRequest r)
    then have "session_request enc txt entry r w = (Inr u, w')" using h t by (simp add: session_handle_def)
    from enc_response_Inr [OF ok _ session_request_writes [OF this], where float = float] session_reply_shape(3) wf MessageRequest
    show ?thesis by (simp add: requests_of_def List.map_filter_def)
  next
    case (MessageNotification n)
    then have "w' = session_notification float env n w" using h by (simp add: session_handle_def)
    then show ?thesis
      using teardown_silent [OF ok c] ok MessageNotification
      by (auto simp: session_notification_def handle_disconnect_def requests_of_def List.map_filter_def split: option.splits)
  qed (use ok h in \<open>simp add: session_handle_def requests_of_def List.map_filter_def\<close>)
next
  fix w m e w'
  assume ok: "ok (host (proc w))" and h: "session_handle enc float env entry m w = (Inl e, w')"
  then obtain r where "session_request enc (Text env) entry r w = (Inl e, w')"
    by (cases m) (auto simp: session_handle_def)
  from session_request_writes [OF this] enc_Inl [OF ok]
  show "ok (host (proc w')) \<and> responses_of float (frames (host (proc w'))) = responses_of float (frames (host (proc w)))"
    by metis
qed (simp_all add: session_reply_shape)

end

interpretation session_rpc: rpc_server
  "session_handle (encode conn_write) float (plugin_environment (encode conn_write) call start clock pause txt) entry"
  "\<lambda>w. responses_of float (parse_frames (sent (host (proc w))))" "\<lambda>w. well_framed (sent (host (proc w)))"
  "wf_request_id float" "session_reply txt" for float call start clock pause "txt" entry
  by (rule stdout.session_server [OF refl])

end
