(* ===== verification/Session_World.thy ===== *)
theory Session_World
  imports Session_Handler
begin

text \<open>
  The session layer as a whole: what holds of every session at any time, and how the world may
  change from one moment to a later one. One lemma for each operation says that it keeps the
  first and follows the second.
\<close>

section \<open>The invariant\<close>

definition channel_of :: "'h world \<Rightarrow> string \<Rightarrow> channel_ref \<Rightarrow> bool" where
  "channel_of w purpose q \<longleftrightarrow> q < length (objs (proc w)) \<and> Purpose (Local (objs (proc w) ! q)) = purpose"

text \<open>
  A session's channels exist and are of the right purpose, the password of one torn down is
  wiped, and its gate has been made and not been opened.
\<close>

definition wf_session :: "'h world \<Rightarrow> session \<Rightarrow> bool" where
  "wf_session w s \<longleftrightarrow>
     (\<forall>q. tcpChannel s = Some q \<longrightarrow> channel_of w ''tcp-relay'' q) \<and>
     (\<forall>q. embedChannel s = Some q \<longrightarrow> channel_of w ''embed-stream'' q) \<and>
     (torndown s \<longrightarrow> list_all (\<lambda>x. x = 0) (password s)) \<and>
     (\<forall>g. backpressureGate s = Some g \<longrightarrow> g < nextGate w \<and> g \<notin> openedGates w)"

definition wf_world :: "'h world \<Rightarrow> bool" where
  "wf_world w \<longleftrightarrow> wf_proc (proc w) \<and> list_all (wf_session w) (sess w) \<and>
     (\<forall>i r. sessions w i = Some r \<longrightarrow> r < length (sess w) \<and> sid (sess w ! r) = i) \<and>
     (\<forall>r q g. r < length (sess w) \<longrightarrow> q < length (sess w) \<longrightarrow> backpressureGate (sess w ! r) = Some g \<longrightarrow>
        backpressureGate (sess w ! q) = Some g \<longrightarrow> r = q) \<and>
     openedGates w \<subseteq> {..<nextGate w}"

section \<open>Later worlds\<close>

text \<open>Channels are never dropped, keep their identity and stay shut.\<close>

definition endpoint_later :: "endpoint \<Rightarrow> endpoint \<Rightarrow> bool" where
  "endpoint_later e e' \<longleftrightarrow> Local e' = Local e \<and> ChunkSize e' = ChunkSize e \<and>
     map_option chanId (Source e') = map_option chanId (Source e) \<and> (Shut e \<longrightarrow> Shut e')"

definition objs_later :: "endpoint list \<Rightarrow> endpoint list \<Rightarrow> bool" where
  "objs_later es es' \<longleftrightarrow> length es \<le> length es' \<and> (\<forall>q < length es. endpoint_later (es ! q) (es' ! q))"

text \<open>A session keeps what \<open>session.connect\<close> gave it, except that the password may be wiped.\<close>

definition session_later :: "session \<Rightarrow> session \<Rightarrow> bool" where
  "session_later s s' \<longleftrightarrow> sid s' = sid s \<and> embedEntry s' = embedEntry s \<and> hostName s' = hostName s \<and> port s' = port s \<and>
     readOnly s' = readOnly s \<and> (password s' = password s \<or> password s' = zeroed (password s)) \<and>
     (torndown s \<longrightarrow> torndown s')"

definition later :: "'h world \<Rightarrow> 'h world \<Rightarrow> bool" where
  "later w w' \<longleftrightarrow> objs_later (objs (proc w)) (objs (proc w')) \<and> length (sess w) \<le> length (sess w') \<and>
     (\<forall>r < length (sess w). session_later (sess w ! r) (sess w' ! r)) \<and> dom (sessions w) \<subseteq> dom (sessions w')"

lemma endpoint_later_refl [simp]: "endpoint_later e e"
  by (simp add: endpoint_later_def)

lemma session_later_refl [simp]: "session_later s s"
  by (simp add: session_later_def)

lemma objs_later_refl [simp]: "objs_later es es"
  by (simp add: objs_later_def)

lemma later_refl [simp]: "later w w"
  by (simp add: later_def)

lemma objs_later_trans: "objs_later a b \<Longrightarrow> objs_later b c \<Longrightarrow> objs_later a c"
  unfolding objs_later_def endpoint_later_def by (metis order.strict_trans2 order_trans)

lemma session_later_trans: "session_later a b \<Longrightarrow> session_later b c \<Longrightarrow> session_later a c"
  unfolding session_later_def by auto

lemma later_trans [trans]: "later a b \<Longrightarrow> later b c \<Longrightarrow> later a c"
  unfolding later_def by (meson objs_later_trans session_later_trans order.strict_trans2 order_trans subset_trans)

lemma channel_of_later: "channel_of w p q \<Longrightarrow> objs_later (objs (proc w)) (objs (proc w')) \<Longrightarrow> channel_of w' p q"
  unfolding channel_of_def objs_later_def endpoint_later_def by auto

section \<open>Two kinds of change\<close>

text \<open>What a step does to the world that keeps it well-formed: the guarantee of every operation.\<close>

definition fine :: "'h world \<Rightarrow> 'h world \<Rightarrow> bool" where
  "fine w w' \<longleftrightarrow> wf_world w' \<and> later w w'"

lemma fine_refl: "wf_world w \<Longrightarrow> fine w w"
  by (simp add: fine_def)

lemma fine_trans: "fine u v \<Longrightarrow> fine v w \<Longrightarrow> fine u w"
  unfolding fine_def using later_trans by blast

text \<open>First, traffic: the channels and the host change, the sessions do not.\<close>

definition traffic :: "'h world \<Rightarrow> 'h world \<Rightarrow> bool" where
  "traffic w w' \<longleftrightarrow> same_sessions w w' \<and> objs_later (objs (proc w)) (objs (proc w')) \<and> (wf_proc (proc w) \<longrightarrow> wf_proc (proc w'))"

lemma traffic_fine:
  assumes "traffic w w'" and "wf_world w"
  shows "fine w w'"
proof -
  have "wf_session w' s" if "wf_session w s" for s
    using assms(1) that channel_of_later [of w _ _ w'] unfolding wf_session_def traffic_def same_sessions_def by auto
  then show ?thesis
    using assms unfolding fine_def wf_world_def later_def traffic_def same_sessions_def
    by (auto simp: list_all_iff)
qed

lemma traffic_refl [simp]: "traffic w w"
  by (simp add: traffic_def)

lemma traffic_trans: "traffic u v \<Longrightarrow> traffic v w \<Longrightarrow> traffic u w"
  unfolding traffic_def using objs_later_trans same_sessions_trans by blast

lemma traffic_host: "on_host f w = (res, w') \<Longrightarrow> traffic w w'"
  using on_host_same [of f w res w'] by (auto simp: traffic_def wf_proc_def)

lemma objs_later_append [simp]: "objs_later es (es @ fs)"
  by (simp add: objs_later_def nth_append)

lemma objs_later_update: "endpoint_later (es ! q) e \<Longrightarrow> objs_later es (es[q := e])"
  by (cases "q < length es") (auto simp: objs_later_def nth_list_update list_update_beyond)

lemma traffic_open:
  assumes "on_proc (open_channel c b purpose parent hint) w = (res, w')"
  shows "traffic w w'"
proof -
  from on_proc_same [OF assms] have s: "same_sessions w w'"
    and o: "open_channel c b purpose parent hint (proc w) = (res, proc w')" by simp_all
  have "objs_later (objs (proc w)) (objs (proc w'))"
    using o by (cases res) (auto dest: open_channel_Inl elim!: open_channel_Inr)
  with s o open_channel_wf show ?thesis by (auto simp: traffic_def)
qed

lemma traffic_close:
  assumes "on_proc (close_channel c q reason msg) w = (res, w')" and "q < length (objs (proc w))"
  shows "traffic w w'"
proof -
  from on_proc_same [OF assms(1)] have s: "same_sessions w w'"
    and o: "close_channel c q reason msg (proc w) = (res, proc w')" by simp_all
  have "endpoint_later e (e\<lparr>Source := map_option close (Source e), Shut := True\<rparr>)" for e
    by (simp add: endpoint_later_def option.map_comp comp_def)
  then have "objs_later (objs (proc w)) (objs (proc w'))"
    using close_channel_shape [OF o] by (simp add: objs_later_update)
  with s o assms(2) close_channel_wf show ?thesis by (auto simp: traffic_def)
qed

lemma traffic_close_if_open:
  "(\<forall>q. ch = Some q \<longrightarrow> q < length (objs (proc w))) \<Longrightarrow> traffic w (close_if_open c ch reason w)"
  by (cases ch) (auto simp: close_if_open_def intro: traffic_close [OF prod.collapse [symmetric]])

text \<open>Second, one session changes, not its gate.\<close>

lemma on_session_fine:
  assumes "wf_world w" and "r < length (sess w)" and "session_later (sess w ! r) (f (sess w ! r))"
    and "wf_session w (f (sess w ! r))" and "backpressureGate (f (sess w ! r)) = backpressureGate (sess w ! r)"
  shows "fine w (on_session r f w)"
proof -
  have id: "sid (f (sess w ! r)) = sid (sess w ! r)" using assms(3) by (simp add: session_later_def)
  have wf: "wf_session (on_session r f w) s = wf_session w s" for s
    by (simp add: wf_session_def channel_of_def)
  have gate: "backpressureGate (sess (on_session r f w) ! q) = backpressureGate (sess w ! q)" for q
    using assms(2,5) by (cases "q = r") simp_all
  have "sid (sess (on_session r f w) ! q) = sid (sess w ! q)" for q
    using assms(2) id by (cases "q = r") simp_all
  moreover have "list_all (wf_session (on_session r f w)) (sess (on_session r f w))"
    unfolding wf using assms(1,2,4) by (simp add: wf_world_def list_all_length nth_list_update)
  ultimately have "wf_world (on_session r f w)"
    using assms(1) gate by (simp add: wf_world_def)
  moreover have "later w (on_session r f w)"
    using assms(2,3) by (simp add: later_def nth_list_update)
  ultimately show ?thesis by (simp add: fine_def)
qed

lemma wf_world_session: "wf_world w \<Longrightarrow> r < length (sess w) \<Longrightarrow> wf_session w (sess w ! r)"
  by (simp add: wf_world_def list_all_length)

lemma update_keeps:
  assumes "wf_world w" and "r < length (sess w)"
  shows "fine w (on_session r (\<lambda>s. s\<lparr>state := st\<rparr>) w)" and "fine w (on_session r (\<lambda>s. s\<lparr>embedToken := tok\<rparr>) w)"
    and "fine w (on_session r (\<lambda>s. s\<lparr>viewport := v\<rparr>) w)" and "fine w (on_session r (\<lambda>s. s\<lparr>active := a\<rparr>) w)"
    and "fine w (on_session r (\<lambda>s. s\<lparr>tcpChannel := None, embedChannel := None\<rparr>) w)" and "fine w (clear_password r w)"
  using wf_world_session [OF assms] unfolding clear_password_def
  by (auto intro!: on_session_fine [OF assms] simp: session_later_def wf_session_def zeroed_zero)

section \<open>The operations\<close>

lemma tell_fine: "wf_world w \<Longrightarrow> fine w (snd (on_host f w))"
  using traffic_host [of f w "fst (on_host f w)" "snd (on_host f w)"] by (auto intro: traffic_fine)

lemma close_if_open_fine:
  assumes "wf_world w" and "\<forall>q. ch = Some q \<longrightarrow> q < length (objs (proc w))"
  shows "fine w (close_if_open c ch reason w)"
  using traffic_fine [OF traffic_close_if_open [OF assms(2)] assms(1)] .

lemma close_both_fine:
  assumes "wf_world w" and "\<forall>q. a = Some q \<longrightarrow> q < length (objs (proc w))" and "\<forall>q. b = Some q \<longrightarrow> q < length (objs (proc w))"
  shows "fine w (close_if_open c b reason (close_if_open c a reason w))"
proof -
  have a: "fine w (close_if_open c a reason w)" using assms(1,2) by (rule close_if_open_fine)
  then have "length (objs (proc w)) \<le> length (objs (proc (close_if_open c a reason w)))"
    by (simp add: fine_def later_def objs_later_def)
  then have "fine (close_if_open c a reason w) (close_if_open c b reason (close_if_open c a reason w))"
    using a assms(3) by (intro close_if_open_fine) (auto simp: fine_def simp del: close_if_open_objs)
  with a show ?thesis by (rule fine_trans)
qed

lemma session_channels:
  assumes "wf_world w" and "r < length (sess w)"
  shows "\<forall>q. tcpChannel (sess w ! r) = Some q \<longrightarrow> q < length (objs (proc w))"
    and "\<forall>q. embedChannel (sess w ! r) = Some q \<longrightarrow> q < length (objs (proc w))"
  using wf_world_session [OF assms] by (auto simp: wf_session_def channel_of_def)

text \<open>Marking and wiping together, as between the two there is a session torn down with a password.\<close>

lemma teardown_fine:
  assumes "wf_world w" and "r < length (sess w)"
  shows "fine w (teardown env r reason w)"
proof (cases "torndown (sess w ! r)")
  case False
  let ?v = "clear_password r (on_session r (\<lambda>s. s\<lparr>torndown := True\<rparr>) w)"
  have v: "?v = on_session r (\<lambda>s. s\<lparr>torndown := True, password := zeroed (password s)\<rparr>) w"
    using assms(2) by (simp add: clear_password_def comp_def)
  have "fine w ?v"
    unfolding v using wf_world_session [OF assms]
    by (intro on_session_fine [OF assms]) (auto simp: session_later_def wf_session_def zeroed_zero)
  moreover from this have "wf_world ?v" by (simp add: fine_def)
  ultimately show ?thesis
    using False session_channels [OF assms] close_both_fine [of ?v "tcpChannel (sess w ! r)" "embedChannel (sess w ! r)" "Caller env" reason]
    by (auto simp: teardown_def Let_def simp del: close_if_open_objs intro: fine_trans)
qed (simp add: teardown_def assms(1) fine_refl)

lemma close_channels_fine:
  assumes "wf_world w" and "r < length (sess w)"
  shows "fine w (close_channels env r reason w)"
proof -
  let ?v = "on_session r (\<lambda>s. s\<lparr>tcpChannel := None, embedChannel := None\<rparr>) w"
  have v: "fine w ?v" using assms by (rule update_keeps)
  then have "wf_world ?v" by (simp add: fine_def)
  then have "fine ?v (close_channels env r reason w)"
    unfolding close_channels_def Let_def
    using session_channels [OF assms] by (intro close_both_fine) simp_all
  with v show ?thesis by (rule fine_trans)
qed

lemma set_backpressure_fine:
  assumes "wf_world w" and "r < length (sess w)"
  shows "fine w (set_backpressure on r w)"
proof (cases "on \<longleftrightarrow> backpressureGate (sess w ! r) = None")
  case True
  let ?v = "set_backpressure on r w"
  have used: "g < nextGate w" "g \<notin> openedGates w" if "backpressureGate (sess w ! q) = Some g" "q < length (sess w)" for g q
    using wf_world_session [OF assms(1) that(2)] that(1) by (auto simp: wf_session_def)
  have same: "proc ?v = proc w" "sessions ?v = sessions w" "length (sess ?v) = length (sess w)"
    by (simp_all add: set_backpressure_def split: option.splits)
  have others: "sess ?v ! q = (if q = r then (sess w ! r)\<lparr>backpressureGate := (if on then Some (nextGate w) else None)\<rparr> else sess w ! q)" for q
    using True assms(2) by (auto simp: set_backpressure_def split: option.splits)
  have gates: "nextGate w \<le> nextGate ?v" "openedGates ?v \<subseteq> {..<nextGate ?v}"
    using assms True used [of r] by (auto simp: set_backpressure_def wf_world_def split: option.splits)
  have inj: "backpressureGate (sess w ! p) = Some g \<Longrightarrow> backpressureGate (sess w ! q) = Some g \<Longrightarrow>
      p < length (sess w) \<Longrightarrow> q < length (sess w) \<Longrightarrow> p = q" for p q g
    using assms(1) by (simp add: wf_world_def)
  have wf: "wf_session ?v (sess ?v ! q)" if q: "q < length (sess w)" for q
  proof (cases "q = r")
    case True
    show ?thesis
      using wf_world_session [OF assms] assms(1) \<open>q = r\<close> others same \<open>on \<longleftrightarrow> _\<close>
      by (auto simp: wf_session_def channel_of_def set_backpressure_def wf_world_def)
  next
    case False
    then have "g < nextGate ?v \<and> g \<notin> openedGates ?v" if "backpressureGate (sess w ! q) = Some g" for g
      using used [OF that q] inj [OF that _ q assms(2)] gates(1) by (auto simp: set_backpressure_def split: option.splits)
    with False wf_world_session [OF assms(1) q] others same show ?thesis
      by (auto simp: wf_session_def channel_of_def)
  qed
  have "p = q" if "p < length (sess w)" "q < length (sess w)"
      "backpressureGate (sess ?v ! p) = Some g" "backpressureGate (sess ?v ! q) = Some g" for p q g
    using that inj used [of _ "nextGate w"] unfolding others by (auto split: if_splits)
  moreover have "sid (sess ?v ! q) = sid (sess w ! q)" "session_later (sess w ! q) (sess ?v ! q)" for q
    unfolding others by (auto simp: session_later_def)
  ultimately show ?thesis
    using assms(1) wf gates same unfolding fine_def wf_world_def later_def by (simp add: list_all_length)
next
  case False
  then have "set_backpressure on r w = w" by (auto simp: set_backpressure_def split: option.splits)
  with assms(1) show ?thesis by (simp add: fine_refl)
qed

text \<open>A new session has no channel and no gate yet.\<close>

lemma new_session_fine:
  assumes "wf_world w"
  shows "fine w (set_session (SessionID p) (length (sess w)) (w\<lparr>sess := sess w @ [new_session entry p pw ro]\<rparr>))"
proof -
  let ?s = "new_session entry p pw ro"
  let ?v = "set_session (SessionID p) (length (sess w)) (w\<lparr>sess := sess w @ [?s]\<rparr>)"
  have wf: "wf_session ?v s = wf_session w s" for s
    by (simp add: wf_session_def channel_of_def set_session_def)
  have new: "wf_session w ?s" "sid ?s = SessionID p" "backpressureGate ?s = None"
    by (simp_all add: wf_session_def new_session_def)
  have old: "r < length (sess w)" "sid (sess w ! r) = i" if "sessions w i = Some r" for i r
    using assms that by (simp_all add: wf_world_def)
  have "list_all (wf_session ?v) (sess ?v)"
    unfolding wf using assms new by (simp add: wf_world_def set_session_def)
  moreover have "r < length (sess ?v) \<and> sid (sess ?v ! r) = i" if "sessions ?v i = Some r" for i r
    using that new old [of i r] by (auto simp: set_session_def nth_append split: if_splits)
  moreover have "r = q" if "r < length (sess ?v)" "q < length (sess ?v)"
      "backpressureGate (sess ?v ! r) = Some g" "backpressureGate (sess ?v ! q) = Some g" for r q g
    using that new assms by (auto simp: set_session_def nth_append wf_world_def split: if_splits)
  ultimately have "wf_world ?v"
    using assms by (simp add: wf_world_def set_session_def)
  moreover have "later w ?v"
    by (auto simp: later_def set_session_def nth_append)
  ultimately show ?thesis by (simp add: fine_def)
qed

lemma started_fine: "wf_world w \<Longrightarrow> fine w (w\<lparr>started := rs\<rparr>)"
  unfolding fine_def wf_world_def later_def by (auto simp: list_all_iff wf_session_def channel_of_def)

lemma session_write_fine: "session_write enc payload w = (res, w') \<Longrightarrow> wf_world w \<Longrightarrow> fine w w'"
  by (auto simp: session_write_def intro: traffic_fine traffic_host)

lemma handle_connect_fine:
  assumes "handle_connect enc txt entry req w = (res, w')" and "wf_world w"
  shows "fine w w'"
proof (cases "\<exists>p pw ro. unmarshal_ignore_empty (unmarshal_struct connect_member zero_connect_params) zero_connect_params
    (ReqParams req) = Some p \<and> parse_connect_fields (ConnectFields p) = Inr (pw, ro)")
  case True
  then obtain p pw ro where p: "unmarshal_ignore_empty (unmarshal_struct connect_member zero_connect_params) zero_connect_params
      (ReqParams req) = Some p" "parse_connect_fields (ConnectFields p) = Inr (pw, ro)" by blast
  let ?v = "set_session (SessionID p) (length (sess w)) (w\<lparr>sess := sess w @ [new_session entry p pw ro]\<rparr>)"
  obtain x u where x: "session_respond enc (ReqID req) connect_result_ok ?v = (x, u)"
    by (cases "session_respond enc (ReqID req) connect_result_ok ?v")
  have v: "fine w ?v" using assms(2) by (rule new_session_fine)
  with x have u: "fine ?v u"
    unfolding session_respond_def by (rule_tac session_write_fine) (simp_all add: fine_def)
  have "w' = u \<or> w' = u\<lparr>started := started u @ [length (sess w)]\<rparr>"
    using assms(1) p x by (cases x) (auto simp: handle_connect_def Let_def io_bind_def)
  moreover have "wf_world u" using u by (simp add: fine_def)
  ultimately show ?thesis
    using fine_trans [OF v u] started_fine [of u] fine_trans by metis
next
  case False
  then show ?thesis
    using assms
    by (auto simp: handle_connect_def session_respond_error_def split: option.splits sum.splits intro: session_write_fine)
qed

lemma notification_fine:
  assumes "wf_world w"
  shows "fine w (session_notification float env n w)"
proof -
  have "r < length (sess w)" if "sessions w i = Some r" for i r
    using assms that by (simp add: wf_world_def)
  then show ?thesis
    using assms
    by (auto simp: session_notification_def handle_disconnect_def handle_embed_viewport_def handle_embed_activity_def
        handle_tunnel_backpressure_def handle_tunnel_resume_def split: option.splits
        intro: fine_refl teardown_fine update_keeps set_backpressure_fine)
qed

lemma session_handle_fine:
  assumes "session_handle enc float env entry m w = (res, w')" and "wf_world w"
  shows "fine w w'"
  using assms notification_fine handle_connect_fine
  by (cases m) (auto simp: session_handle_def session_request_def session_respond_error_def fine_refl
      split: if_splits intro: session_write_fine)

text \<open>The sessions a message starts are the ones it has made.\<close>

lemma session_write_same: "session_write enc payload w = (res, w') \<Longrightarrow> started w' = started w \<and> sess w' = sess w"
  unfolding session_write_def using on_host_same [of _ w res w'] by (auto simp: same_sessions_def)

lemma handle_connect_started:
  assumes "handle_connect enc txt entry req w = (res, w')"
  shows "started w' = started w \<or> started w' = started w @ [length (sess w)] \<and> length (sess w) < length (sess w')"
proof (cases "\<exists>p pw ro. unmarshal_ignore_empty (unmarshal_struct connect_member zero_connect_params) zero_connect_params
    (ReqParams req) = Some p \<and> parse_connect_fields (ConnectFields p) = Inr (pw, ro)")
  case True
  then obtain p pw ro where p: "unmarshal_ignore_empty (unmarshal_struct connect_member zero_connect_params) zero_connect_params
      (ReqParams req) = Some p" "parse_connect_fields (ConnectFields p) = Inr (pw, ro)" by blast
  let ?v = "set_session (SessionID p) (length (sess w)) (w\<lparr>sess := sess w @ [new_session entry p pw ro]\<rparr>)"
  obtain x u where x: "session_respond enc (ReqID req) connect_result_ok ?v = (x, u)"
    by (cases "session_respond enc (ReqID req) connect_result_ok ?v")
  have "started u = started w" "length (sess u) = Suc (length (sess w))"
    using session_write_same [OF x [unfolded session_respond_def]] by (simp_all add: set_session_def)
  moreover have "w' = u \<or> w' = u\<lparr>started := started u @ [length (sess w)]\<rparr>"
    using assms p x by (cases x) (auto simp: handle_connect_def Let_def io_bind_def)
  ultimately show ?thesis by auto
next
  case False
  then show ?thesis
    using assms session_write_same
    by (fastforce simp: handle_connect_def session_respond_error_def split: option.splits sum.splits)
qed

lemma notification_started [simp]: "started (session_notification float env n w) = started w"
proof -
  have "started (set_backpressure on r w) = started w" for on r
    by (simp add: set_backpressure_def split: option.splits)
  moreover have "started (teardown env r reason w) = started w" for r reason
    by (simp add: teardown_def Let_def)
  ultimately show ?thesis
    by (simp add: session_notification_def handle_disconnect_def handle_embed_viewport_def handle_embed_activity_def
        handle_tunnel_backpressure_def handle_tunnel_resume_def split: option.splits)
qed

lemma session_handle_started:
  assumes "session_handle enc float env entry m w = (res, w')"
  shows "started w' = started w \<or> started w' = started w @ [length (sess w)] \<and> length (sess w) < length (sess w')"
proof (cases m)
  case (MessageRequest req)
  then show ?thesis
    using assms handle_connect_started session_write_same
    by (fastforce simp: session_handle_def session_request_def session_respond_error_def split: if_splits)
qed (use assms in \<open>auto simp: session_handle_def\<close>)

end
