(* ===== verification/Session_Tasks.thy ===== *)
theory Session_Tasks
  imports Session_World
begin

text \<open>
  The goroutines of the session layer, interleaved. \<open>orchestrate\<close> and the report of a relay's end
  are written as tasks whose steps are their critical sections and their calls of the host; between
  two steps any other task, the read loop and the relays may run.
\<close>

section \<open>The tasks of a session\<close>

text \<open>Who connects: the first time, or the reconnect loop with its deadline and the relay's error.\<close>

datatype attempt = First | Again int "go_error option"

datatype task =
    Entered
  | Setting state string task
  | Telling state string task
  | Closing attempt
  | OpenTcp attempt
  | OpenEmbed attempt channel_ref
  | Abandon attempt channel_ref go_error
  | Binding attempt channel_ref channel_ref
  | Registering attempt channel_ref channel_ref
  | Starting attempt channel_ref channel_ref
  | Connected attempt
  | Failed attempt go_error
  | Panicked attempt string
  | Relaying
  | Reported "go_error option"
  | Retrying int "go_error option"
  | Pausing int "go_error option"
  | Tearing
  | Finished
  | Crashed string

text \<open>The two halves of \<open>updateState\<close>: under the lock, and the call.\<close>

definition set_state :: "session_ref \<Rightarrow> state \<Rightarrow> 'h world \<Rightarrow> 'h world" where
  "set_state r st w = on_session r (\<lambda>s. s\<lparr>state := st\<rparr>) w"

definition tell_state :: "'h rpc_caller option \<Rightarrow> session_ref \<Rightarrow> state \<Rightarrow> string \<Rightarrow> 'h world \<Rightarrow> 'h world" where
  "tell_state caller r st msg w =
     (case caller of
        None \<Rightarrow> w
      | Some c \<Rightarrow>
          snd (on_host (call_rpc c ''session.updateState'' (update_state_params (sid (sess w ! r)) st msg)
                 (unmarshal_struct update_state_result False) False) w))"

lemma update_state_halves: "update_state caller r st msg w = tell_state caller r st msg (set_state r st w)"
  by (simp add: update_state_def tell_state_def set_state_def Let_def)

text \<open>\<open>connectAndRelay\<close>, a call of the host at a time. A panic is recovered by \<open>orchestrate\<close> only.\<close>

fun connect_step :: "'h environment \<Rightarrow> session_ref \<Rightarrow> task \<Rightarrow> 'h world \<Rightarrow> task \<times> 'h world" where
  "connect_step env r (OpenTcp a) w =
     (case Caller env of
        None \<Rightarrow> (Panicked a nil_dereference, w)
      | Some c \<Rightarrow>
         (case on_proc (open_channel c True PurposeTCPRelay (sid (sess w ! r))
                 (join_host_port (hostName (sess w ! r)) (show_int (port (sess w ! r))))) w of
            (Inl err, w) \<Rightarrow> (Failed a (Wrapf ''failed to open tcp-relay channel: %w'' err), w)
          | (Inr t, w) \<Rightarrow> (OpenEmbed a t, w)))"
| "connect_step env r (OpenEmbed a t) w =
     (case Caller env of
        None \<Rightarrow> (Panicked a nil_dereference, w)
      | Some c \<Rightarrow>
         (case on_proc (open_channel c True PurposeEmbedStream (sid (sess w ! r)) tunnelIDMain) w of
            (Inl err, w) \<Rightarrow> (Abandon a t (Wrapf ''failed to open embed-stream channel: %w'' err), w)
          | (Inr e, w) \<Rightarrow> (Binding a t e, w)))"
| "connect_step env r (Abandon a t err) w =
     (Failed a err, snd (on_proc (close_channel (Caller env) t ''setup-failed'' []) w))"
| "connect_step env r (Binding a t e) w =
     (Registering a t e, on_session r (\<lambda>s. s\<lparr>tcpChannel := Some t, embedChannel := Some e\<rparr>) w)"
| "connect_step env r (Registering a t e) w =
     (case register_embed (Caller env) r w of
        (Inl err, w) \<Rightarrow> (Failed a (Wrapf ''session.registerEmbed failed: %w'' err), w)
      | (Inr _, w) \<Rightarrow> (Starting a t e, w))"
| "connect_step env r (Starting a t e) w =
     (case StartRelay env of
        None \<Rightarrow> (Connected a, w)
      | Some start \<Rightarrow>
         (case start r t e w of
            (Inl v, w) \<Rightarrow> (Panicked a v, w)
          | (Inr (Inl err), w) \<Rightarrow> (Failed a (Wrapf ''relay start failed: %w'' err), w)
          | (Inr (Inr _), w) \<Rightarrow> (Connected a, w)))"
| "connect_step env r t w = (t, w)"

fun task_step :: "'h environment \<Rightarrow> session_ref \<Rightarrow> task \<Rightarrow> 'h world \<Rightarrow> task \<times> 'h world" where
  "task_step env r Entered w = (Setting StateConnecting [] (OpenTcp First), w)"
| "task_step env r (Setting st msg k) w = (Telling st msg k, set_state r st w)"
| "task_step env r (Telling st msg k) w = (k, tell_state (Caller env) r st msg w)"
| "task_step env r (Connected a) w = (Setting StateReady [] Finished, w)"
| "task_step env r (Failed First err) w = (Setting StateError (Text env err) Finished, w)"
| "task_step env r (Failed (Again d e) err) w = (Pausing d e, w)"
| "task_step env r (Panicked First v) w = (Setting StateError (''internal error: '' @ v) Finished, clear_password r w)"
| "task_step env r (Panicked (Again d e) v) w = (Crashed v, w)"
| "task_step env r (Reported err) w =
     (if torndown (sess w ! r) then Finished else Retrying (Clock env w + reconnectWindow) err, w)"
| "task_step env r (Retrying d err) w =
     (if Clock env w < d \<and> \<not> torndown (sess w ! r)
      then Setting StateConnecting ''reconnecting'' (Closing (Again d err))
      else Setting StateError (relay_ended_message env err) Tearing, w)"
| "task_step env r (Closing a) w = (OpenTcp a, close_channels env r ''reconnect'' w)"
| "task_step env r (Pausing d err) w = (Retrying d err, w)"
| "task_step env r Tearing w = (Finished, teardown env r ''relay-ended'' w)"
| "task_step env r Relaying w = (Relaying, w)"
| "task_step env r Finished w = (Finished, w)"
| "task_step env r (Crashed v) w = (Crashed v, w)"
| "task_step env r t w = connect_step env r t w"

section \<open>A task by itself\<close>

fun task_steps :: "nat \<Rightarrow> 'h environment \<Rightarrow> session_ref \<Rightarrow> task \<Rightarrow> 'h world \<Rightarrow> task \<times> 'h world" where
  "task_steps 0 env r t w = (t, w)"
| "task_steps (Suc n) env r t w = (case task_step env r t w of (t', w') \<Rightarrow> task_steps n env r t' w')"

definition leads :: "'h environment \<Rightarrow> session_ref \<Rightarrow> task \<times> 'h world \<Rightarrow> task \<times> 'h world \<Rightarrow> bool" where
  "leads env r a b \<longleftrightarrow> (\<exists>n. task_steps n env r (fst a) (snd a) = b)"

lemma leads_refl [simp]: "leads env r a a"
  unfolding leads_def by (intro exI [of _ 0]) simp

lemma leads_step: "task_step env r t w = (t', w') \<Longrightarrow> leads env r (t', w') b \<Longrightarrow> leads env r (t, w) b"
  unfolding leads_def by (elim exE) (rule_tac x = "Suc n" in exI, simp)

lemma task_steps_add:
  "task_steps (m + n) env r t w = (case task_steps m env r t w of (t', w') \<Rightarrow> task_steps n env r t' w')"
  by (induction m arbitrary: t w) (simp_all split: prod.splits)

lemma leads_trans:
  assumes "leads env r a b" and "leads env r b c"
  shows "leads env r a c"
proof -
  from assms obtain m n where "task_steps m env r (fst a) (snd a) = b" "task_steps n env r (fst b) (snd b) = c"
    unfolding leads_def by blast
  then have "task_steps (m + n) env r (fst a) (snd a) = c"
    by (cases b) (simp add: task_steps_add)
  then show ?thesis unfolding leads_def by blast
qed

text \<open>Setting the state and telling the host, one after the other, is \<open>updateState\<close>.\<close>

lemma leads_update: "leads env r (Setting st msg k, w) (k, update_state (Caller env) r st msg w)"
  unfolding update_state_halves leads_def by (intro exI [of _ 2]) (simp add: numeral_2_eq_2)

text \<open>\<open>connectAndRelay\<close> ends in one of three ways.\<close>

definition connect_end :: "attempt \<Rightarrow> (go_error + unit) ran \<Rightarrow> task" where
  "connect_end a res = (case res of Inl v \<Rightarrow> Panicked a v | Inr (Inl err) \<Rightarrow> Failed a err | Inr (Inr _) \<Rightarrow> Connected a)"

lemma leads_connect:
  assumes "connect_and_relay env r w = (res, w')"
  shows "leads env r (OpenTcp a, w) (connect_end a res, w')"
proof (cases "Caller env")
  case None
  with assms have "task_step env r (OpenTcp a) w = (connect_end a res, w')"
    by (auto simp: connect_and_relay_def Let_def connect_end_def)
  then show ?thesis by (rule leads_step) simp
next
  case c: (Some c)
  have tcp: "leads env r (OpenTcp a, w) (connect_end a res, w')"
    if "on_proc (open_tcp c r w) w = (Inr q, wt)" "leads env r (OpenEmbed a q, wt) (connect_end a res, w')" for q wt
    using that c by (intro leads_step [OF _ that(2)]) (simp add: open_tcp_def)
  have both: "leads env r (OpenTcp a, w) (connect_end a res, w')"
    if t: "on_proc (open_tcp c r w) w = (Inr q, wt)" and e: "on_proc (open_embed c r wt) wt = (Inr q', we)"
      and l: "leads env r (Registering a q q', bind_channels r q q' we) (connect_end a res, w')" for q q' wt we
  proof (rule tcp [OF t])
    have "task_step env r (OpenEmbed a q) wt = (Binding a q q', we)" using c e by (simp add: open_embed_def)
    moreover have "task_step env r (Binding a q q') we = (Registering a q q', bind_channels r q q' we)"
      by (simp add: bind_channels_def)
    ultimately show "leads env r (OpenEmbed a q, wt) (connect_end a res, w')" using l leads_step by metis
  qed
  from assms c show ?thesis
  proof (cases rule: connect_cases)
    case (no_tcp err)
    with c show ?thesis by (intro leads_step [OF _ leads_refl]) (simp add: open_tcp_def connect_end_def)
  next
    case (no_embed t wt err we)
    have "task_step env r (OpenEmbed a t) wt = (Abandon a t (Wrapf ''failed to open embed-stream channel: %w'' err), we)"
      using c no_embed(2) by (simp add: open_embed_def)
    moreover have "task_step env r (Abandon a t (Wrapf ''failed to open embed-stream channel: %w'' err)) we = (connect_end a res, w')"
      using c no_embed(3,4) by (simp add: connect_end_def)
    ultimately have "leads env r (OpenEmbed a t, wt) (connect_end a res, w')"
      by (rule leads_step [OF _ leads_step [OF _ leads_refl]])
    with no_embed(1) show ?thesis by (rule tcp)
  next
    case (no_token t wt e we err)
    then have "task_step env r (Registering a t e) (bind_channels r t e we) = (connect_end a res, w')"
      using c by (simp add: connect_end_def)
    then show ?thesis by (intro both [OF no_token(1,2)] leads_step [OF _ leads_refl])
  next
    case (relay t wt e we tok wr)
    have "task_step env r (Registering a t e) (bind_channels r t e we) = (Starting a t e, wr)" using c relay(3) by simp
    moreover have "task_step env r (Starting a t e) wr = (connect_end a res, w')"
      using relay(4) by (auto simp: run_relay_def connect_end_def split: option.splits prod.splits sum.splits)
    ultimately show ?thesis by (intro both [OF relay(1,2)] leads_step [OF _ leads_step [OF _ leads_refl]])
  qed
qed

lemma leads_orchestrate: "leads env r (Entered, w) (Finished, orchestrate env r w)"
proof -
  let ?w = "update_state (Caller env) r StateConnecting [] w"
  obtain res w' where c: "connect_and_relay env r ?w = (res, w')" by (cases "connect_and_relay env r ?w")
  have "leads env r (Entered, w) (OpenTcp First, ?w)"
    by (rule leads_step [OF _ leads_update]) simp
  then have "leads env r (Entered, w) (connect_end First res, w')"
    using leads_connect [OF c] by (rule leads_trans)
  moreover have "leads env r (connect_end First res, w') (Finished, orchestrate env r w)"
  proof -
    consider v where "res = Inl v" | err where "res = Inr (Inl err)" | "res = Inr (Inr ())"
      by (cases res; cases "projr res") auto
    then show ?thesis
      using c by cases (auto simp: orchestrate_def Let_def connect_end_def intro: leads_step [OF _ leads_update])
  qed
  ultimately show ?thesis by (rule leads_trans)
qed

text \<open>The reconnect loop and the report, when nothing runs during the pauses.\<close>

definition reconnect_end :: "'h environment \<Rightarrow> go_error option \<Rightarrow> bool ran \<Rightarrow> task" where
  "reconnect_end env err res =
     (case res of
        Inl v \<Rightarrow> Crashed v
      | Inr True \<Rightarrow> Finished
      | Inr False \<Rightarrow> Setting StateError (relay_ended_message env err) Tearing)"

lemma leads_reconnect:
  assumes "Pause env = (\<lambda>w. (True, w))" and "reconnect_loop n env d r w = Some (res, w')"
  shows "leads env r (Retrying d err, w) (reconnect_end env err res, w')"
  using assms(2)
proof (induction n arbitrary: w)
  case (0 w)
  then show ?case
    by (intro leads_step [OF _ leads_refl])
      (auto simp: reconnect_loop.simps [of 0] reconnect_end_def split: if_splits)
next
  case (Suc n w)
  show ?case
  proof (cases "Clock env w < d \<and> \<not> torndown (sess w ! r)")
    case False
    then show ?thesis
      using Suc.prems by (intro leads_step [OF _ leads_refl])
        (auto simp: reconnect_loop.simps [of "Suc n"] reconnect_end_def split: if_splits)
  next
    case True
    let ?u = "update_state (Caller env) r StateConnecting ''reconnecting'' w"
    let ?v = "close_channels env r ''reconnect'' ?u"
    obtain x v' where c: "connect_and_relay env r ?v = (x, v')" by (cases "connect_and_relay env r ?v")
    have "leads env r (Retrying d err, w) (Closing (Again d err), ?u)"
      using True by (intro leads_step [OF _ leads_update]) simp
    moreover have "leads env r (Closing (Again d err), ?u) (connect_end (Again d err) x, v')"
      using leads_connect [OF c] by (rule leads_step [rotated]) simp
    ultimately have start: "leads env r (Retrying d err, w) (connect_end (Again d err) x, v')" by (rule leads_trans)
    consider v where "x = Inl v" | e where "x = Inr (Inl e)" | "x = Inr (Inr ())"
      by (cases x; cases "projr x") auto
    then have "leads env r (connect_end (Again d err) x, v') (reconnect_end env err res, w')"
    proof cases
      case (1 v)
      then show ?thesis
        using Suc.prems True c by (intro leads_step [OF _ leads_refl])
          (auto simp: reconnect_loop.simps [of "Suc n"] Let_def connect_end_def reconnect_end_def)
    next
      case (2 e)
      then have "reconnect_loop n env d r v' = Some (res, w')"
        using Suc.prems True c assms(1) by (simp add: reconnect_loop.simps [of "Suc n"] Let_def)
      from Suc.IH [OF this] have "leads env r (Pausing d err, v') (reconnect_end env err res, w')"
        by (rule leads_step [rotated]) simp
      then show ?thesis by (rule leads_step [rotated]) (simp add: 2 connect_end_def)
    next
      case 3
      then have "res = Inr True" "w' = update_state (Caller env) r StateReady [] v'"
        using Suc.prems True c by (simp_all add: reconnect_loop.simps [of "Suc n"] Let_def)
      then show ?thesis
        using 3 by (auto simp: connect_end_def reconnect_end_def intro: leads_step [OF _ leads_update])
    qed
    with start show ?thesis by (rule leads_trans)
  qed
qed

lemma leads_report:
  assumes "Pause env = (\<lambda>w. (True, w))" and "report_relay_ended n env err r w = Some (Inr (), w')"
  shows "leads env r (Reported err, w) (Finished, w')"
proof (cases "torndown (sess w ! r)")
  case True
  then show ?thesis
    using assms(2) by (intro leads_step [OF _ leads_refl]) (simp add: report_relay_ended_def)
next
  case False
  let ?d = "Clock env w + reconnectWindow"
  obtain b v where l: "reconnect_loop n env ?d r w = Some (Inr b, v)"
    using assms(2) False
    by (auto simp: report_relay_ended_def reconnect_def split: option.splits prod.splits sum.splits)
  have start: "leads env r (Reported err, w) (reconnect_end env err (Inr b), v)"
    using False by (intro leads_step [OF _ leads_reconnect [OF assms(1) l]]) simp
  moreover have "leads env r (reconnect_end env err (Inr b), v) (Finished, w')"
  proof (cases b)
    case True
    then show ?thesis
      using assms(2) False l by (simp add: report_relay_ended_def reconnect_def reconnect_end_def)
  next
    case b: False
    let ?u = "update_state (Caller env) r StateError (relay_ended_message env err) v"
    have "w' = teardown env r ''relay-ended'' ?u"
      using assms(2) False l b by (simp add: report_relay_ended_def reconnect_def)
    then have "leads env r (Tearing, ?u) (Finished, w')" by (intro leads_step [OF _ leads_refl]) simp
    with b show ?thesis
      using leads_trans [OF leads_update] by (simp add: reconnect_end_def)
  qed
  ultimately show ?thesis by (rule leads_trans)
qed


section \<open>Interleaving\<close>

record 'h system =
  now :: "'h world"
  tasks :: "(session_ref \<times> task) list"

text \<open>A relay that has been started runs as a task of its own.\<close>

definition relays_started :: "'h environment \<Rightarrow> session_ref \<Rightarrow> task \<Rightarrow> task \<Rightarrow> (session_ref \<times> task) list" where
  "relays_started env r t t' =
     (case (t, t') of
        (Starting a p e, Connected a') \<Rightarrow> if StartRelay env = None then [] else [(r, Relaying)]
      | _ \<Rightarrow> [])"

inductive system_step ::
    "'h encoder \<Rightarrow> (string \<Rightarrow> string option) \<Rightarrow> 'h environment \<Rightarrow> string \<Rightarrow> 'h system \<Rightarrow> 'h system \<Rightarrow> bool"
  for enc float env entry where
  message: "session_handle enc float env entry m (now s) = (res, w') \<Longrightarrow>
     system_step enc float env entry s
       (s\<lparr>now := w', tasks := tasks s @ map (\<lambda>r. (r, Entered)) (drop (length (started (now s))) (started w'))\<rparr>)"
| task: "i < length (tasks s) \<Longrightarrow> tasks s ! i = (r, t) \<Longrightarrow> task_step env r t (now s) = (t', w') \<Longrightarrow>
     system_step enc float env entry s (s\<lparr>now := w', tasks := (tasks s)[i := (r, t')] @ relays_started env r t t'\<rparr>)"
| relay_ended: "i < length (tasks s) \<Longrightarrow> tasks s ! i = (r, Relaying) \<Longrightarrow>
     system_step enc float env entry s (s\<lparr>tasks := (tasks s)[i := (r, Reported err)]\<rparr>)"
| frames: "traffic (now s) w' \<Longrightarrow> system_step enc float env entry s (s\<lparr>now := w'\<rparr>)"

text \<open>The channels a task holds exist and are of the right purpose.\<close>

fun task_ok :: "'h world \<Rightarrow> task \<Rightarrow> bool" where
  "task_ok w (Setting st msg k) \<longleftrightarrow> task_ok w k"
| "task_ok w (Telling st msg k) \<longleftrightarrow> task_ok w k"
| "task_ok w (OpenEmbed a t) \<longleftrightarrow> channel_of w ''tcp-relay'' t"
| "task_ok w (Abandon a t err) \<longleftrightarrow> channel_of w ''tcp-relay'' t"
| "task_ok w (Binding a t e) \<longleftrightarrow> channel_of w ''tcp-relay'' t \<and> channel_of w ''embed-stream'' e"
| "task_ok w (Registering a t e) \<longleftrightarrow> channel_of w ''tcp-relay'' t \<and> channel_of w ''embed-stream'' e"
| "task_ok w (Starting a t e) \<longleftrightarrow> channel_of w ''tcp-relay'' t \<and> channel_of w ''embed-stream'' e"
| "task_ok w _ \<longleftrightarrow> True"

definition system_ok :: "'h system \<Rightarrow> bool" where
  "system_ok s \<longleftrightarrow> wf_world (now s) \<and>
     list_all (\<lambda>(r, t). r < length (sess (now s)) \<and> task_ok (now s) t) (tasks s)"

text \<open>Starting the relay works on the channels; it does not change a session.\<close>

definition relay_ok :: "'h environment \<Rightarrow> bool" where
  "relay_ok env \<longleftrightarrow> (\<forall>start r t e w. StartRelay env = Some start \<longrightarrow> traffic w (snd (start r t e w)))"

lemma task_ok_later: "task_ok w t \<Longrightarrow> later w w' \<Longrightarrow> task_ok w' t"
  by (induction t) (auto simp: later_def intro: channel_of_later)

lemma fine_world: "fine w w' \<Longrightarrow> wf_world w'"
  by (simp add: fine_def)

lemma opened_channel:
  "on_proc (open_channel c True PurposeTCPRelay parent hint) w = (Inr q, w') \<Longrightarrow> channel_of w' ''tcp-relay'' q"
  "on_proc (open_channel c True PurposeEmbedStream parent hint) w = (Inr q, w') \<Longrightarrow> channel_of w' ''embed-stream'' q"
  by (auto simp: channel_of_def fresh_endpoint_def dest!: open_tcp_relay open_embed_stream)

lemma register_embed_fine:
  assumes "register_embed caller r w = (res, w')" and "wf_world w" and "r < length (sess w)"
  shows "fine w w'"
proof (cases caller)
  case (Some c)
  then obtain x v where v: "on_host (call_rpc c ''session.registerEmbed''
       (register_embed_params (sid (sess w ! r)) (embedEntry (sess w ! r)) [tunnelIDMain])
       (unmarshal_struct register_embed_member zero_embed_result) zero_embed_result) w = (x, v)"
    and w': "w' = v \<or> (\<exists>tok. w' = on_session r (\<lambda>s. s\<lparr>embedToken := tok\<rparr>) v)"
    using assms(1) by (auto simp: register_embed_def io_bind_def io_wrap_def split: sum.splits prod.splits)
  from traffic_fine [OF traffic_host [OF v] assms(2)] have f: "fine w v" .
  moreover from on_host_same [OF v] assms(3) have "r < length (sess v)" by (simp add: same_sessions_def)
  ultimately show ?thesis
    using w' update_keeps(2) [of v r] fine_trans fine_world by metis
qed (use assms in \<open>simp add: register_embed_def fine_refl\<close>)

lemma bind_channels_fine:
  assumes "wf_world w" and "r < length (sess w)" and "channel_of w ''tcp-relay'' t" and "channel_of w ''embed-stream'' e"
  shows "fine w (on_session r (\<lambda>s. s\<lparr>tcpChannel := Some t, embedChannel := Some e\<rparr>) w)"
  using wf_world_session [OF assms(1,2)] assms(3,4)
  by (intro on_session_fine [OF assms(1,2)]) (auto simp: session_later_def wf_session_def)

lemma connect_step_fine:
  assumes "connect_step env r t w = (t', w')" and "wf_world w" and "r < length (sess w)" and "task_ok w t" and "relay_ok env"
  shows "fine w w' \<and> task_ok w' t'"
proof -
  have open_fine: "fine w v" if "on_proc (open_channel c b p i h) w = (x, v)" for c b p i h x v
    using traffic_fine [OF traffic_open [OF that] assms(2)] .
  have keep: "channel_of v p q" if "fine w v" "channel_of w p q" for v p q
    using that channel_of_later [of w p q v] by (simp add: fine_def later_def)
  show ?thesis
  proof (cases t)
    case (OpenTcp a)
    then show ?thesis
      using assms(1,2) open_fine opened_channel(1)
      by (auto simp: fine_refl split: option.splits prod.splits sum.splits)
  next
    case (OpenEmbed a q)
    then show ?thesis
      using assms(1,2,4) open_fine opened_channel(2) keep
      by (fastforce simp: fine_refl split: option.splits prod.splits sum.splits)
  next
    case (Abandon a q err)
    then have "traffic w w'" using assms(1,4) traffic_close [OF prod.collapse [symmetric]] by (auto simp: channel_of_def)
    then show ?thesis using Abandon assms(1,2) traffic_fine by auto
  next
    case (Binding a p q)
    then have "fine w w'" using assms(1-4) bind_channels_fine [of w r p q] by auto
    with Binding assms(1,4) keep show ?thesis by auto
  next
    case (Registering a p q)
    then have "fine w w'"
      using assms(1-3) register_embed_fine by (auto split: prod.splits sum.splits)
    with Registering assms(1,4) keep show ?thesis by (auto split: prod.splits sum.splits)
  next
    case (Starting a p q)
    have "fine w (snd (start r p q w))" if "StartRelay env = Some start" for start
      using assms(5) that by (intro traffic_fine [OF _ assms(2)]) (simp add: relay_ok_def)
    then show ?thesis
      using Starting assms(1,2) by (fastforce simp: fine_refl split: option.splits prod.splits sum.splits)
  qed (use assms in \<open>auto simp: fine_refl\<close>)
qed

lemma task_step_fine:
  assumes "task_step env r t w = (t', w')" and "wf_world w" and "r < length (sess w)" and "task_ok w t" and "relay_ok env"
  shows "fine w w' \<and> task_ok w' t'"
proof -
  note keeps = update_keeps [OF assms(2,3)] teardown_fine [OF assms(2,3)] close_channels_fine [OF assms(2,3)] fine_refl [OF assms(2)]
  have tell: "fine w (tell_state caller r st msg w)" for caller st msg
    by (simp add: tell_state_def fine_refl assms(2) tell_fine [OF assms(2)] split: option.splits)
  show ?thesis
  proof (cases t)
    case (Setting st msg k)
    then have "fine w w'" using assms(1) keeps(1) by (auto simp: set_state_def)
    moreover have "task_ok w' k" using assms(4) Setting task_ok_later calculation by (auto simp: fine_def)
    ultimately show ?thesis using assms(1) Setting by auto
  next
    case (Telling st msg k)
    then have "fine w w'" using assms(1) tell by auto
    moreover have "task_ok w' k" using assms(4) Telling task_ok_later calculation by (auto simp: fine_def)
    ultimately show ?thesis using assms(1) Telling by auto
  next
    case (Failed a err)
    then show ?thesis using assms(1) keeps by (cases a) auto
  next
    case (Panicked a v)
    then show ?thesis using assms(1) keeps by (cases a) auto
  qed (use assms connect_step_fine [OF _ assms(2,3,4,5)] keeps in \<open>auto split: if_splits simp del: connect_step.simps\<close>)
qed

lemma later_tasks:
  assumes "system_ok s" and "fine (now s) w'"
  shows "wf_world w'" and "\<forall>(r, t) \<in> set (tasks s). r < length (sess w') \<and> task_ok w' t"
proof -
  show "wf_world w'" using assms(2) by (rule fine_world)
  have l: "later (now s) w'" using assms(2) by (simp add: fine_def)
  then have "length (sess (now s)) \<le> length (sess w')" by (simp add: later_def)
  then show "\<forall>(r, t) \<in> set (tasks s). r < length (sess w') \<and> task_ok w' t"
    using assms(1) task_ok_later [OF _ l] by (fastforce simp: system_ok_def list_all_iff)
qed

lemma system_step_ok:
  assumes "system_step enc float env entry s s'" and "relay_ok env" and ok: "system_ok s"
  shows "system_ok s' \<and> fine (now s) (now s')"
  using assms(1)
proof cases
  case (message m res w')
  have f: "fine (now s) w'" using session_handle_fine [OF message(2)] ok by (simp add: system_ok_def)
  have "started w' = started (now s) \<or> started w' = started (now s) @ [length (sess (now s))] \<and> length (sess (now s)) < length (sess w')"
    using session_handle_started [OF message(2)] .
  then have "(r, t) \<in> set (map (\<lambda>r. (r, Entered)) (drop (length (started (now s))) (started w'))) \<longrightarrow>
      r < length (sess w') \<and> task_ok w' t" for r t by auto
  then show ?thesis
    using message(1) f later_tasks [OF ok f] by (auto simp: system_ok_def list_all_iff)
next
  case (task i r t t' w')
  have t: "r < length (sess (now s))" "task_ok (now s) t" "wf_world (now s)"
    using ok task(2,3) nth_mem [OF task(2)] by (auto simp: system_ok_def list_all_iff)
  with task_step_fine [OF task(4) _ _ _ assms(2)] have f: "fine (now s) w'" "task_ok w' t'" by auto
  have r: "r < length (sess w')" using t(1) f(1) by (simp add: fine_def later_def)
  then have "(q, k) \<in> set (relays_started env r t t') \<longrightarrow> q < length (sess w') \<and> task_ok w' k" for q k
    by (auto simp: relays_started_def split: task.splits if_splits)
  then show ?thesis
    using task(1) f r later_tasks [OF ok f(1)] set_update_subset_insert [of "tasks s" i "(r, t')"]
    by (auto simp: system_ok_def list_all_iff)
next
  case (relay_ended i r err)
  have "r < length (sess (now s))" "wf_world (now s)"
    using ok relay_ended(2,3) nth_mem [OF relay_ended(2)] by (auto simp: system_ok_def list_all_iff)
  then show ?thesis
    using ok relay_ended(1) set_update_subset_insert [of "tasks s" i "(r, Reported err)"]
    by (auto simp: system_ok_def list_all_iff fine_refl)
next
  case (frames w')
  then have f: "fine (now s) w'" using ok by (intro traffic_fine) (simp_all add: system_ok_def)
  then show ?thesis
    using frames later_tasks [OF ok f] by (auto simp: system_ok_def list_all_iff)
qed

interpretation sessions_system: guaranteed_steps "system_step enc float env entry" "\<lambda>s. system_ok s \<and> relay_ok env"
    "\<lambda>s. system_ok s \<and> relay_ok env" "\<lambda>s s'. later (now s) (now s')" for enc float env entry
  by unfold_locales (auto simp: fine_def dest: system_step_ok intro: later_trans)


section \<open>A disconnect while connecting\<close>

text \<open>A task that is left alone for a while, in the system.\<close>

lemma task_run:
  assumes "task_steps n env r t (now s) = (t', w')" and "i < length (tasks s)" and "tasks s ! i = (r, t)"
  shows "\<exists>s'. (system_step enc float env entry)\<^sup>*\<^sup>* s s' \<and> now s' = w' \<and> i < length (tasks s') \<and> tasks s' ! i = (r, t')"
  using assms
proof (induction n arbitrary: s t)
  case (Suc n s t)
  obtain k v where k: "task_step env r t (now s) = (k, v)" by (cases "task_step env r t (now s)")
  let ?s = "s\<lparr>now := v, tasks := (tasks s)[i := (r, k)] @ relays_started env r t k\<rparr>"
  have step: "system_step enc float env entry s ?s" using Suc.prems(2,3) k by (rule system_step.task)
  have "task_steps n env r k (now ?s) = (t', w')" using Suc.prems(1) k by simp
  from Suc.IH [OF this] Suc.prems(2) obtain s' where
    "(system_step enc float env entry)\<^sup>*\<^sup>* ?s s'" "now s' = w'" "i < length (tasks s')" "tasks s' ! i = (r, t')"
    by (auto simp: nth_append)
  moreover from step this(1) have "(system_step enc float env entry)\<^sup>*\<^sup>* s s'" by (rule converse_rtranclp_into_rtranclp)
  ultimately show ?case by blast
qed auto

lemma leads_run:
  assumes "leads env r (t, now s) (t', w')" and "i < length (tasks s)" and "tasks s ! i = (r, t)"
  shows "\<exists>s'. (system_step enc float env entry)\<^sup>*\<^sup>* s s' \<and> now s' = w' \<and> i < length (tasks s') \<and> tasks s' ! i = (r, t')"
  using assms task_run by (fastforce simp: leads_def)

definition disconnect_message :: "string \<Rightarrow> message" where
  "disconnect_message i = MessageNotification \<lparr>NotMethod = MethodSessionDisconnect, NotParams = Some (JObj [(''sessionId'', JStr i)])\<rparr>"

lemma disconnect_handled:
  "sessions w i = Some r \<Longrightarrow>
   session_handle enc float env entry (disconnect_message i) w = (Inr (), teardown env r ''session-disconnect'' w)"
  by (simp add: session_handle_def disconnect_message_def session_notification_def handle_disconnect_def
      unmarshal_ignore_empty_def unmarshal_struct_def session_id_params_def field_is_def set_string_def)

text \<open>
  C18: a disconnect that arrives while the session is connecting is lost. From a state in which
  both channels are open and not yet bound to the session, there is a run in which the host's
  \<open>session.disconnect\<close> is handled and the session nevertheless becomes ready, with the relay
  started and both channels open; it is marked as torn down, so that a later disconnect does
  nothing and the end of the relay is not reported. The password alone has been wiped.
\<close>

theorem disconnect_while_connecting_lost:
  assumes "i < length (tasks s)" and "tasks s ! i = (r, Binding First t e)"
    and "r < length (sess (now s))" and "sessions (now s) (sid (sess (now s) ! r)) = Some r"
    and "\<not> torndown (sess (now s) ! r)" and "tcpChannel (sess (now s) ! r) = None" and "embedChannel (sess (now s) ! r) = None"
    and "\<not> Shut (objs (proc (now s)) ! t)" and "\<not> Shut (objs (proc (now s)) ! e)"
    and "\<And>w. \<exists>tok w'. register_embed (Caller env) r w = (Inr tok, w')"
    and "StartRelay env = Some start"
    and "\<And>w. \<exists>w'. start r t e w = (Inr (Inr ()), w') \<and> sess w' = sess w \<and> (\<forall>q. Shut (objs (proc w') ! q) = Shut (objs (proc w) ! q))"
  shows "\<exists>s'. (system_step enc float env entry)\<^sup>*\<^sup>* s s' \<and> state (sess (now s') ! r) = StateReady \<and>
    tcpChannel (sess (now s') ! r) = Some t \<and> \<not> Shut (objs (proc (now s')) ! t) \<and>
    embedChannel (sess (now s') ! r) = Some e \<and> \<not> Shut (objs (proc (now s')) ! e) \<and>
    (\<forall>reason. teardown env r reason (now s') = now s') \<and> (\<forall>n err. report_relay_ended n env err r (now s') = Some (Inr (), now s')) \<and>
    list_all (\<lambda>x. x = 0) (password (sess (now s') ! r))"
proof -
  let ?w1 = "teardown env r ''session-disconnect'' (now s)"
  let ?v = "on_session r (\<lambda>s. s\<lparr>tcpChannel := Some t, embedChannel := Some e\<rparr>) ?w1"
  have new: "drop (length (started (now s))) (started ?w1) = []"
    by (simp add: teardown_def Let_def)
  let ?s1 = "s\<lparr>now := ?w1, tasks := tasks s @ map (\<lambda>r. (r, Entered)) (drop (length (started (now s))) (started ?w1))\<rparr>"
  have step: "system_step enc float env entry s ?s1"
    using disconnect_handled [OF assms(4)] by (rule system_step.message)
  obtain tok w2 where reg: "register_embed (Caller env) r ?v = (Inr tok, w2)" using assms(10) by blast
  obtain w3 where st: "start r t e w2 = (Inr (Inr ()), w3)" "sess w3 = sess w2"
    "\<And>q. Shut (objs (proc w3) ! q) = Shut (objs (proc w2) ! q)" using assms(12) [of w2] by blast
  let ?w' = "update_state (Caller env) r StateReady [] w3"
  have "leads env r (Binding First t e, ?w1) (Connected First, w3)"
    using reg st(1) assms(11) unfolding leads_def by (intro exI [of _ 3]) (simp add: numeral_3_eq_3)
  moreover have "leads env r (Connected First, w3) (Finished, ?w')"
    by (rule leads_step [OF _ leads_update]) simp
  ultimately have "leads env r (Binding First t e, now ?s1) (Finished, ?w')" using leads_trans by simp blast
  moreover have "i < length (tasks ?s1)" "tasks ?s1 ! i = (r, Binding First t e)"
    using assms(1,2) unfolding new by simp_all
  ultimately obtain s' where s': "(system_step enc float env entry)\<^sup>*\<^sup>* ?s1 s'" "now s' = ?w'" using leads_run by blast
  have w1: "sess ?w1 = (sess (now s))[r := (sess (now s) ! r)\<lparr>torndown := True, password := zeroed (password (sess (now s) ! r))\<rparr>]"
    "objs (proc ?w1) = objs (proc (now s))"
    using assms(3,5-7) by (simp_all add: teardown_def Let_def close_if_open_def)
  from register_embed_Inr [OF reg] w1 assms(3) have
    "sess w2 ! r = (sess (now s) ! r)\<lparr>torndown := True, password := zeroed (password (sess (now s) ! r)),
      tcpChannel := Some t, embedChannel := Some e, embedToken := tok\<rparr>" "objs (proc w2) = objs (proc (now s))"
    "r < length (sess w2)" by simp_all
  with st(2,3) assms(8,9) s' step show ?thesis
    by (intro exI [of _ s'])
      (auto simp: teardown_def report_relay_ended_def zeroed_zero intro: converse_rtranclp_into_rtranclp)
qed

section \<open>Example runs of the system\<close>

definition demo_system :: "transcript world \<Rightarrow> task \<Rightarrow> transcript system" where
  "demo_system w t = \<lparr>now = w, tasks = [(0, t)]\<rparr>"



theorem disconnect_while_connecting_lost_witness:
  "\<exists>w s'. (system_step (\<lambda>_ _ _ h. (Inr (), h)) Some demo_env ''ui/vnc.html'')\<^sup>*\<^sup>* (demo_system w (Binding First 0 1)) s' \<and>
     length (sess w) = 1 \<and> state (sess (now s') ! 0) = StateReady \<and> \<not> Shut (objs (proc (now s')) ! 0) \<and>
     teardown demo_env 0 ''session-disconnect'' (now s') = now s'"
proof -
  let ?w = "demo_world\<lparr>proc := \<lparr>objs = [fresh_endpoint 1 ''tcp-relay'' 4 1048576, fresh_endpoint 2 ''embed-stream'' 8 65536],
    reg = Map.empty, host = []\<rparr>\<rparr>"
  have "\<exists>tok w'. register_embed (Caller demo_env) 0 w = (Inr tok, w')" for w
    by (cases "register_embed (Caller demo_env) 0 w")
      (simp add: register_embed_def on_host_def demo_register_call io_bind_def io_wrap_def del: recorder_call)
  then show ?thesis
    using disconnect_while_connecting_lost [of 0 "demo_system ?w (Binding First 0 1)" 0 0 1 demo_env
        "\<lambda>r t e w. (Inr (Inr ()), w)" "\<lambda>_ _ _ h. (Inr (), h)" Some "''ui/vnc.html''"]
    by (intro exI [of _ ?w]) (auto simp: demo_system_def demo_world_def demo_session_def fresh_endpoint_def)
qed

end
