(* ===== verification/Pack.thy ===== *)
theory Pack
  imports Text_Encoding Ipc_Rpc
begin

text \<open>
  \<open>cmd/xqs-vnc-pack/main.go\<close>: the bundles. A bundle is a list of named files, the members of the
  ZIP archive in order; the archive format, the compiler and the files on disk are outside.
  SHA-256 and Ed25519 are arguments. A Go map is a list of its members, in the order an iteration
  happens to have.
\<close>

section \<open>Targets\<close>

record target =
  goos :: string
  goarch :: string

definition entry_name :: "target \<Rightarrow> string" where
  "entry_name t = (if goos t = ''windows'' then ''xqs-vnc.exe'' else ''xqs-vnc'')"

definition bundle_name :: "target \<Rightarrow> string" where
  "bundle_name t = ''xqs-vnc-'' @ goos t @ ''-'' @ goarch t @ ''.xqsp''"

definition defaultTargets :: "target list" where
  "defaultTargets =
     [\<lparr>goos = ''windows'', goarch = ''amd64''\<rparr>, \<lparr>goos = ''linux'', goarch = ''amd64''\<rparr>,
      \<lparr>goos = ''darwin'', goarch = ''amd64''\<rparr>, \<lparr>goos = ''darwin'', goarch = ''arm64''\<rparr>]"

text \<open>\<open>strings.Split\<close> at a character, \<open>strings.TrimSpace\<close> (ASCII), \<open>strings.SplitN(_, \<dots>, 2)\<close>.\<close>

fun split_at_char :: "char \<Rightarrow> string \<Rightarrow> string list" where
  "split_at_char c [] = [[]]"
| "split_at_char c (x # xs) =
     (case split_at_char c xs of
        [] \<Rightarrow> []
      | p # ps \<Rightarrow> if x = c then [] # p # ps else (x # p) # ps)"

definition ascii_space :: "char \<Rightarrow> bool" where
  "ascii_space c \<longleftrightarrow> is_space c \<or> (of_char c :: nat) = 11 \<or> (of_char c :: nat) = 12"

definition trim_space :: "string \<Rightarrow> string" where
  "trim_space s = rev (dropWhile ascii_space (rev (dropWhile ascii_space s)))"

definition split_two :: "char \<Rightarrow> string \<Rightarrow> string list" where
  "split_two c s = (case dropWhile (\<lambda>x. x \<noteq> c) s of [] \<Rightarrow> [s] | _ # r \<Rightarrow> [takeWhile (\<lambda>x. x \<noteq> c) s, r])"

text \<open>A call of \<open>fatalf\<close>, also through \<open>must\<close>, ends the process: \<open>Inl\<close>, with the message.\<close>

type_synonym 'a or_fatal = "string + 'a"

fun targets_of :: "string list \<Rightarrow> target list or_fatal" where
  "targets_of [] = Inr []"
| "targets_of (part # parts) =
     (case split_two (CHR ''/'') (trim_space part) of
        [os, arch] \<Rightarrow>
          (case targets_of parts of Inl e \<Rightarrow> Inl e | Inr ts \<Rightarrow> Inr (\<lparr>goos = os, goarch = arch\<rparr> # ts))
      | _ \<Rightarrow> Inl (''invalid target '' @ part))"

definition parse_targets :: "string \<Rightarrow> target list or_fatal" where
  "parse_targets s = (if s = [] then Inr defaultTargets else targets_of (split_at_char (CHR '','') s))"

section \<open>Files\<close>

record bundle_file =
  arcName :: string
  contents :: bytes

text \<open>
  A directory tree as \<open>filepath.Walk\<close> sees it: a file that reads or fails, a directory that lists
  or fails. \<open>Walk\<close> goes through a directory in the order of the names and stops at the first error.
\<close>

datatype tree = Leaf "go_error + bytes" | Dir "go_error + (string \<times> tree) list"

fun collect_files :: "tree \<Rightarrow> string \<Rightarrow> go_error + bundle_file list"
  and collect_entries :: "(string \<times> tree) list \<Rightarrow> string \<Rightarrow> go_error + bundle_file list" where
  "collect_files (Leaf (Inl err)) name = Inl err"
| "collect_files (Leaf (Inr b)) name = Inr [\<lparr>arcName = name, contents = b\<rparr>]"
| "collect_files (Dir (Inl err)) name = Inl err"
| "collect_files (Dir (Inr es)) name = collect_entries es name"
| "collect_entries [] name = Inr []"
| "collect_entries ((n, t) # es) name =
     (case collect_files t (name @ ''/'' @ n) of
        Inl err \<Rightarrow> Inl err
      | Inr fs \<Rightarrow> (case collect_entries es name of Inl err \<Rightarrow> Inl err | Inr gs \<Rightarrow> Inr (fs @ gs)))"

section \<open>Manifests\<close>

text \<open>\<open>json.Unmarshal\<close> into a \<open>map[string]any\<close>; \<open>null\<close> leaves it empty.\<close>

definition unmarshal_map :: "(string \<Rightarrow> string option) \<Rightarrow> bytes \<Rightarrow> (string \<times> json) list option" where
  "unmarshal_map float b =
     (case json_parse b of
        Some (JObj ms) \<Rightarrow> any_members float ms []
      | Some JNull \<Rightarrow> Some []
      | _ \<Rightarrow> None)"

definition delete_member :: "string \<Rightarrow> (string \<times> json) list \<Rightarrow> (string \<times> json) list" where
  "delete_member k ms = filter (\<lambda>(k', _). k' \<noteq> k) ms"

definition set_member :: "string \<Rightarrow> json \<Rightarrow> (string \<times> json) list \<Rightarrow> (string \<times> json) list" where
  "set_member k j ms = (k, j) # delete_member k ms"

text \<open>
  \<open>normalize\<close>: the members of every map in the order of their keys. \<open>json.Marshal\<close> and
  \<open>json.MarshalIndent\<close> write maps in that order too.
\<close>

fun normalize :: "json \<Rightarrow> json" where
  "normalize (JObj ms) = JObj (sort_key fst (map (\<lambda>(k, j). (k, normalize j)) ms))"
| "normalize (JArr js) = JArr (map normalize js)"
| "normalize j = j"

text \<open>
  \<open>orderedMap.MarshalJSON\<close> writes the members itself, a comma before all but the first, and comes
  back to \<open>json.Marshal\<close> for the values.
\<close>

fun ordered_members :: "bool \<Rightarrow> (string \<times> string) list \<Rightarrow> string" where
  "ordered_members first [] = []"
| "ordered_members first ((k, vb) # ps) =
     (if first then [] else [CHR '','']) @ print_string k @ CHR '':'' # vb @ ordered_members False ps"

fun marshal_ordered :: "json \<Rightarrow> string" where
  "marshal_ordered (JObj ps) = CHR ''{'' # ordered_members True (map (\<lambda>(k, j). (k, marshal_ordered j)) ps) @ [CHR ''}'']"
| "marshal_ordered (JArr js) = CHR ''['' # join (map marshal_ordered js) @ [CHR '']'']"
| "marshal_ordered j = print_json j"

definition canonical_json :: "json \<Rightarrow> bytes" where
  "canonical_json v = bytes_of (marshal_ordered (normalize v))"

definition marshal_any :: "json \<Rightarrow> bytes" where
  "marshal_any v = json_print (normalize v)"

definition marshal_indent :: "json \<Rightarrow> bytes" where
  "marshal_indent v = json_print_indent (normalize v)"

definition clone_manifest :: "(string \<Rightarrow> string option) \<Rightarrow> (string \<times> json) list \<Rightarrow> (string \<times> json) list or_fatal" where
  "clone_manifest float m =
     (case unmarshal_map float (marshal_any (JObj m)) of None \<Rightarrow> Inl ''json'' | Some out \<Rightarrow> Inr out)"

section \<open>Building a bundle\<close>

record crypto =
  sha256 :: "bytes \<Rightarrow> bytes"
  ed_sign :: "bytes \<Rightarrow> bytes \<Rightarrow> bytes"
  ed_verify :: "bytes \<Rightarrow> bytes \<Rightarrow> bytes \<Rightarrow> bool"
  ed_public :: "bytes \<Rightarrow> bytes"
  ed_from_seed :: "bytes \<Rightarrow> bytes"

definition sum_line :: "crypto \<Rightarrow> string \<times> bytes \<Rightarrow> string" where
  "sum_line c f = hex_encode (sha256 c (snd f)) @ ''  '' @ fst f @ [CHR 0x0A]"

definition sums_text :: "crypto \<Rightarrow> (string \<times> bytes) list \<Rightarrow> string" where
  "sums_text c files = replace_crlf (concat (map (sum_line c) files))"

definition signed_message :: "crypto \<Rightarrow> (string \<times> json) list \<Rightarrow> string \<Rightarrow> json" where
  "signed_message c manifest sumsText =
     JObj [(''manifest'', JObj manifest), (''checksumsSha256'', JStr (hex_encode (sha256 c (bytes_of sumsText))))]"

record xqsp =
  fileSums :: "(string \<times> string) list"
  sigText :: string
  archive :: "(string \<times> bytes) list"

definition build_bundle ::
    "(string \<Rightarrow> string option) \<Rightarrow> crypto \<Rightarrow> (string \<times> json) list \<Rightarrow> bytes \<Rightarrow> string \<Rightarrow>
     bundle_file list \<Rightarrow> bytes \<Rightarrow> xqsp or_fatal" where
  "build_bundle float c manifest binData binArcName uiFiles priv =
     (let unsignedManifestBytes = canonical_json (JObj manifest);
          files = sort_key fst ([(''plugin.json'', unsignedManifestBytes), (binArcName, binData)] @
            map (\<lambda>f. (arcName f, contents f)) uiFiles);
          sumsText = sums_text c files;
          sig = ed_sign c priv (canonical_json (signed_message c manifest sumsText));
          sigB64 = b64_encode sig in
      case clone_manifest float manifest of
        Inl e \<Rightarrow> Inl e
      | Inr signedManifest \<Rightarrow>
          Inr \<lparr>fileSums = map (\<lambda>(n, d). (n, hex_encode (sha256 c d))) files, sigText = sigB64,
               archive = [(''plugin.json'', marshal_indent (JObj (set_member ''signature'' (JStr sigB64) signedManifest))),
                          (binArcName, binData)] @ map (\<lambda>f. (arcName f, contents f)) uiFiles @
                         [(''SHA256SUMS'', bytes_of sumsText)]\<rparr>)"

section \<open>Verifying a bundle\<close>

text \<open>The archive as the map \<open>content\<close>: a later member of the same name replaces an earlier one.\<close>

definition content_of :: "(string \<times> bytes) list \<Rightarrow> string \<Rightarrow> bytes option" where
  "content_of ar = map_of (rev ar)"

definition recomputed :: "(string \<times> bytes) list \<Rightarrow> bytes \<Rightarrow> (string \<times> bytes) list" where
  "recomputed ar unsignedManifestBytes =
     map (\<lambda>n. (n, if n = ''plugin.json'' then unsignedManifestBytes else the (content_of ar n)))
       (sort (remdups (filter (\<lambda>n. n \<noteq> ''SHA256SUMS'') (map fst ar))))"

definition signature_of :: "(string \<times> json) list \<Rightarrow> string" where
  "signature_of ms = (case map_of ms ''signature'' of Some (JStr s) \<Rightarrow> s | _ \<Rightarrow> [])"

definition verify_bundle ::
    "(string \<Rightarrow> string option) \<Rightarrow> crypto \<Rightarrow> (string \<times> bytes) list \<Rightarrow> bytes \<Rightarrow> go_error option or_fatal" where
  "verify_bundle float c ar pub =
     (case content_of ar ''SHA256SUMS'' of
        None \<Rightarrow> Inr (Some (Errorf ''bundle missing SHA256SUMS'' []))
      | Some sumsBytes \<Rightarrow>
     (case content_of ar ''plugin.json'' of
        None \<Rightarrow> Inr (Some (Errorf ''bundle missing plugin.json'' []))
      | Some signedManifestBytes \<Rightarrow>
     (case unmarshal_map float signedManifestBytes of
        None \<Rightarrow> Inr (Some (Errorf ''json'' []))
      | Some signedManifest \<Rightarrow>
        if signature_of signedManifest = [] then Inr (Some (Errorf ''plugin.json has no signature'' []))
        else
     (case b64_decode (signature_of signedManifest) of
        None \<Rightarrow> Inr (Some (Errorf ''base64'' []))
      | Some sig \<Rightarrow>
     (case clone_manifest float signedManifest of
        Inl e \<Rightarrow> Inl e
      | Inr cloned \<Rightarrow>
        let unsignedManifest = delete_member ''signature'' cloned;
            recomputedSums = sums_text c (recomputed ar (canonical_json (JObj unsignedManifest)));
            normalizedSums = replace_crlf (string_of sumsBytes) in
        if recomputedSums \<noteq> normalizedSums then Inr (Some (Errorf ''SHA256SUMS mismatch'' []))
        else if \<not> ed_verify c pub (canonical_json (signed_message c unsignedManifest normalizedSums)) sig
        then Inr (Some (Errorf ''ed25519 signature verification FAILED'' []))
        else Inr None)))))"

section \<open>The key and the main loop\<close>

text \<open>
  The private key, and the key file that is written when there was none. A key file that cannot
  be read, for any reason, counts as absent. \<open>seed\<close> is the seed that \<open>ed25519.GenerateKey\<close> draws.
\<close>

definition load_or_generate_key ::
    "crypto \<Rightarrow> bytes \<Rightarrow> go_error + bytes \<Rightarrow> (bytes \<times> bytes option) or_fatal" where
  "load_or_generate_key c seed file =
     (case file of
        Inr b \<Rightarrow>
          (case b64_decode (trim_space (string_of b)) of
             Some seed' \<Rightarrow> if length seed' = 32 then Inr (ed_from_seed c seed', None)
                          else Inl ''existing key is not a valid base64-encoded 32-byte Ed25519 seed''
           | None \<Rightarrow> Inl ''existing key is not a valid base64-encoded 32-byte Ed25519 seed'')
      | Inl _ \<Rightarrow> Inr (ed_from_seed c seed, Some (bytes_of (b64_encode seed @ [CHR 0x0A]))))"

text \<open>
  One turn of the main loop: \<open>compiled\<close> is the binary or the compiler's error. An \<open>engine\<close> that is
  not an object is a nil map; so is \<open>null\<close>, and an empty object is not.
\<close>

definition pack_target ::
    "(string \<Rightarrow> string option) \<Rightarrow> crypto \<Rightarrow> bytes \<Rightarrow> (string \<times> json) list \<Rightarrow> bundle_file list \<Rightarrow>
     (target \<Rightarrow> go_error + bytes) \<Rightarrow> target \<Rightarrow> (string \<times> xqsp) or_fatal" where
  "pack_target float c priv manifest uiFiles compile t =
     (case compile t of
        Inl err \<Rightarrow> Inl ''go build''
      | Inr bin \<Rightarrow>
        if bin = [] then Inl ''compiled binary is empty''
        else
     (case clone_manifest float manifest of
        Inl e \<Rightarrow> Inl e
      | Inr platformManifest \<Rightarrow>
     (case map_of platformManifest ''engine'' of
        Some (JObj engine) \<Rightarrow>
          let engine' = set_member ''entry'' (JStr (entry_name t)) engine in
          (case build_bundle float c (set_member ''engine'' (JObj engine') platformManifest) bin (entry_name t) uiFiles priv of
             Inl e \<Rightarrow> Inl e
           | Inr b \<Rightarrow>
              (case verify_bundle float c (archive b) (ed_public c priv) of
                 Inl e \<Rightarrow> Inl e
               | Inr (Some err) \<Rightarrow> Inl ''verify''
               | Inr None \<Rightarrow> Inr (bundle_name t, b)))
      | _ \<Rightarrow> Inl ''plugin.json missing engine block'')))"

text \<open>The bundles finished before a fatal error stay; the result is the message, if any.\<close>

fun pack_all ::
    "(target \<Rightarrow> (string \<times> xqsp) or_fatal) \<Rightarrow> target list \<Rightarrow> (string \<times> xqsp) list \<times> string option" where
  "pack_all pack [] = ([], None)"
| "pack_all pack (t # ts) =
     (case pack t of
        Inl e \<Rightarrow> ([], Some e)
      | Inr b \<Rightarrow> (case pack_all pack ts of (bs, r) \<Rightarrow> (b # bs, r)))"

definition pack_main ::
    "(string \<Rightarrow> string option) \<Rightarrow> crypto \<Rightarrow> bytes \<Rightarrow> go_error + bytes \<Rightarrow> bytes \<Rightarrow> tree \<Rightarrow>
     (target \<Rightarrow> go_error + bytes) \<Rightarrow> string \<Rightarrow> (string \<times> xqsp) list \<times> string option" where
  "pack_main float c seed keyFile pluginJson ui compile targetsCS =
     (case parse_targets targetsCS of
        Inl e \<Rightarrow> ([], Some e)
      | Inr targets \<Rightarrow>
     (case load_or_generate_key c seed keyFile of
        Inl e \<Rightarrow> ([], Some e)
      | Inr (priv, _) \<Rightarrow>
     (case unmarshal_map float pluginJson of
        None \<Rightarrow> ([], Some ''json'')
      | Some manifest \<Rightarrow>
     (case collect_files ui ''ui'' of
        Inl err \<Rightarrow> ([], Some ''ui'')
      | Inr uiFiles \<Rightarrow>
          pack_all (pack_target float c priv (delete_member ''signature'' manifest) uiFiles compile) targets))))"

end
