(* ===== verification/Pack_Manifest.thy ===== *)
theory Pack_Manifest
  imports Pack "HOL-Library.Multiset"
begin

text \<open>
  The manifests of \<open>cmd/xqs-vnc-pack\<close> as values: what \<open>json.Unmarshal\<close> yields, what
  \<open>normalize\<close> does to it, and that both printers are read back.
\<close>

section \<open>Maps as sorted lists\<close>

abbreviation keys :: "(string \<times> 'a) list \<Rightarrow> string list" where
  "keys \<equiv> map fst"

abbreviation ascending :: "(string \<times> 'a) list \<Rightarrow> bool" where
  "ascending ms \<equiv> sorted (keys ms) \<and> distinct (keys ms)"

lemma ascending_unique:
  assumes "ascending xs" and "ascending ys" and "set xs = set ys"
  shows "xs = ys"
proof (rule map_sorted_distinct_set_unique [of fst])
  show "inj_on fst (set xs \<union> set ys)"
    using assms by (simp add: distinct_map)
qed (use assms in auto)

lemma ascending_sort: "distinct (keys ms) \<Longrightarrow> ascending (sort_key fst ms)"
  by (simp add: distinct_map inj_on_def)

lemma sort_ascending [simp]: "ascending ms \<Longrightarrow> sort_key fst ms = ms"
  by (rule ascending_unique) (use ascending_sort [of ms] in auto)

lemma map_of_sort [simp]: "distinct (keys ms) \<Longrightarrow> map_of (sort_key fst ms) = map_of ms"
  using ascending_sort [of ms] by (intro map_of_inject_set [THEN iffD2]) auto

lemma set_delete_member: "set (delete_member k ms) = {m \<in> set ms. fst m \<noteq> k}"
  by (auto simp: delete_member_def)

lemma keys_delete_member: "keys (delete_member k ms) = filter (\<lambda>k'. k' \<noteq> k) (keys ms)"
  by (induction ms) (auto simp: delete_member_def)

lemma delete_member_ascending: "ascending ms \<Longrightarrow> ascending (delete_member k ms)"
  by (simp add: keys_delete_member sorted_filter [where f = id, simplified])

lemma delete_member_absent: "k \<notin> set (keys ms) \<Longrightarrow> delete_member k ms = ms"
  by (induction ms) (auto simp: delete_member_def)

lemma set_member_distinct: "distinct (keys ms) \<Longrightarrow> distinct (keys (set_member k j ms))"
  by (simp add: set_member_def keys_delete_member)

text \<open>What \<open>orderedMap.MarshalJSON\<close> writes is what the library writes for an object in that order.\<close>

lemma ordered_members_join:
  "ordered_members False ps = concat (map (\<lambda>(k, vb). CHR '','' # print_string k @ CHR '':'' # vb) ps)"
  "ordered_members True ps = join (map (\<lambda>(k, vb). print_string k @ CHR '':'' # vb) ps)"
proof -
  show rest: "ordered_members False ps = concat (map (\<lambda>(k, vb). CHR '','' # print_string k @ CHR '':'' # vb) ps)" for ps
    by (induction ps) auto
  show "ordered_members True ps = join (map (\<lambda>(k, vb). print_string k @ CHR '':'' # vb) ps)"
    by (cases ps) (auto simp: rest join_def comp_def case_prod_unfold)
qed

lemma marshal_ordered_print: "marshal_ordered j = print_json j"
proof (induction j)
  case (JArr js)
  then have "map marshal_ordered js = map print_json js" by simp
  then show ?case by (simp only: marshal_ordered.simps print_json.simps)
next
  case (JObj ms)
  then have "map (\<lambda>(k, j). (k, marshal_ordered j)) ms = map (\<lambda>(k, j). (k, print_json j)) ms" by fastforce
  then show ?case by (simp add: ordered_members_join comp_def case_prod_unfold cong: map_cong)
qed simp_all

lemma canonical_json_print: "canonical_json v = json_print (normalize v)"
  by (simp add: canonical_json_def json_print_def marshal_ordered_print)

section \<open>Values\<close>

text \<open>No two members of a map have the same key; numbers are as \<open>float64\<close> prints them.\<close>

fun map_keys_distinct :: "json \<Rightarrow> bool" where
  "map_keys_distinct (JObj ms) \<longleftrightarrow> distinct (keys ms) \<and> list_all (\<lambda>(k, j). map_keys_distinct j) ms"
| "map_keys_distinct (JArr js) \<longleftrightarrow> list_all map_keys_distinct js"
| "map_keys_distinct _ \<longleftrightarrow> True"

fun numbers_stable :: "(string \<Rightarrow> string option) \<Rightarrow> json \<Rightarrow> bool" where
  "numbers_stable float (JNum lit) \<longleftrightarrow> float lit = Some lit"
| "numbers_stable float (JObj ms) \<longleftrightarrow> list_all (\<lambda>(k, j). numbers_stable float j) ms"
| "numbers_stable float (JArr js) \<longleftrightarrow> list_all (numbers_stable float) js"
| "numbers_stable float _ \<longleftrightarrow> True"

definition go_any :: "(string \<Rightarrow> string option) \<Rightarrow> json \<Rightarrow> bool" where
  "go_any float v \<longleftrightarrow> map_keys_distinct v \<and> numbers_stable float v \<and> wf_json v"

text \<open>A value whose maps are in the order of their keys.\<close>

fun in_order :: "json \<Rightarrow> bool" where
  "in_order (JObj ms) \<longleftrightarrow> ascending ms \<and> list_all (\<lambda>(k, j). in_order j) ms"
| "in_order (JArr js) \<longleftrightarrow> list_all in_order js"
| "in_order _ \<longleftrightarrow> True"

text \<open>Formatting a \<open>float64\<close> and reading the result back is exact, and the result is JSON.\<close>

definition float_ok :: "(string \<Rightarrow> string option) \<Rightarrow> bool" where
  "float_ok float \<longleftrightarrow>
     (\<forall>lit l. float lit = Some l \<longrightarrow> float l = Some l \<and> valid_number l \<and> list_all num_char l)"

definition norm_members :: "(string \<times> json) list \<Rightarrow> (string \<times> json) list" where
  "norm_members ms = sort_key fst (map (\<lambda>(k, j). (k, normalize j)) ms)"

lemma normalize_JObj: "normalize (JObj ms) = JObj (norm_members ms)"
  by (simp add: norm_members_def)

lemma keys_normalized [simp]: "keys (map (\<lambda>(k, j). (k, normalize j)) ms) = keys ms"
  by (simp add: case_prod_beta comp_def)

lemma set_keys_norm_members [simp]: "fst ` set (norm_members ms) = fst ` set ms"
  by (force simp: norm_members_def)

text \<open>\<open>normalize\<close> puts every map in order and leaves an ordered value as it is.\<close>

lemma normalize_in_order: "map_keys_distinct v \<Longrightarrow> in_order (normalize v)"
proof (induction v)
  case (JObj ms)
  then have "distinct (keys (map (\<lambda>(k, j). (k, normalize j)) ms))"
    unfolding keys_normalized by simp
  then have "ascending (norm_members ms)"
    unfolding norm_members_def by (rule ascending_sort)
  moreover have "list_all (\<lambda>(k, j). in_order j) (norm_members ms)"
    using JObj by (fastforce simp: norm_members_def list_all_iff)
  ultimately show ?case by (simp add: normalize_JObj del: normalize.simps)
qed (auto simp: list_all_iff)

lemma normalize_id: "in_order v \<Longrightarrow> normalize v = v"
proof (induction v)
  case (JObj ms)
  then have "map (\<lambda>(k, j). (k, normalize j)) ms = ms"
    by (intro map_idI) (auto simp: list_all_iff)
  with JObj.prems show ?case by simp
qed (auto simp: list_all_iff intro: map_idI)

lemma in_order_distinct: "in_order v \<Longrightarrow> map_keys_distinct v"
  by (induction v) (auto simp: list_all_iff)

lemma normalize_stable: "numbers_stable float v \<Longrightarrow> numbers_stable float (normalize v)"
  by (induction v) (fastforce simp: list_all_iff)+

lemma normalize_wf: "wf_json v \<Longrightarrow> wf_json (normalize v)"
  by (induction v) (fastforce simp: list_all_iff)+

lemma go_any_normalize: "go_any float v \<Longrightarrow> go_any float (normalize v) \<and> in_order (normalize v)"
  by (simp add: go_any_def normalize_in_order in_order_distinct normalize_stable normalize_wf)

section \<open>Decoding\<close>

lemma put_member_append: "list_all (\<lambda>m. fst m < k) acc \<Longrightarrow> put_member k j acc = acc @ [(k, j)]"
  by (induction acc) auto

lemma any_value_in_order:
  "in_order v \<Longrightarrow> numbers_stable float v \<Longrightarrow> any_value float v = Some v"
  "list_all in_order vs \<Longrightarrow> list_all (numbers_stable float) vs \<Longrightarrow> any_values float vs = Some vs"
  "ascending (acc @ ms) \<Longrightarrow> list_all (\<lambda>(k, j). in_order j) ms \<Longrightarrow>
     list_all (\<lambda>(k, j). numbers_stable float j) ms \<Longrightarrow> any_members float ms acc = Some (acc @ ms)"
proof (induction float v and float vs and float ms acc rule: any_value_any_values_any_members.induct)
  case (10 float k j ms acc)
  then have "list_all (\<lambda>m. fst m < k) acc"
    by (auto simp: list_all_iff sorted_append order.strict_iff_order)
  then have "put_member k j acc = acc @ [(k, j)]" by (rule put_member_append)
  with 10 show ?case by simp
qed auto

lemma put_member_keys: "fst ` set (put_member k j acc) = insert k (fst ` set acc)"
proof (induction acc)
  case (Cons m acc)
  then show ?case by (cases m) (simp add: insert_commute)
qed simp

lemma put_member_ascending: "ascending acc \<Longrightarrow> ascending (put_member k j acc)"
proof (induction acc)
  case (Cons m acc)
  obtain k' j' where m: "m = (k', j')" by (cases m)
  consider "k = k'" | "k < k'" | "k' < k" by (rule linorder_cases)
  then show ?case
  proof cases
    case 2
    then show ?thesis using Cons.prems m by fastforce
  next
    case 3
    then have "put_member k j (m # acc) = (k', j') # put_member k j acc" using m by auto
    moreover have "\<forall>x \<in> insert k (fst ` set acc). k' \<le> x" "k' \<notin> insert k (fst ` set acc)"
      using 3 Cons.prems m by auto
    ultimately show ?thesis using Cons m by (simp add: put_member_keys)
  qed (use Cons.prems m in auto)
qed simp

lemma put_member_all: "P j \<Longrightarrow> list_all (\<lambda>(k, j). P j) acc \<Longrightarrow> list_all (\<lambda>(k, j). P j) (put_member k j acc)"
  by (induction acc) auto

definition decoded :: "(string \<Rightarrow> string option) \<Rightarrow> json \<Rightarrow> bool" where
  "decoded float v \<longleftrightarrow> in_order v \<and> numbers_stable float v \<and> wf_json v"

lemma decoded_simps [simp]:
  "decoded float JNull" "decoded float (JBool b)" "decoded float (JStr s)"
  "decoded float (JArr js) \<longleftrightarrow> list_all (decoded float) js"
  "decoded float (JObj ms) \<longleftrightarrow> ascending ms \<and> list_all (\<lambda>(k, v). decoded float v) ms"
  by (auto simp: decoded_def list_all_iff)

lemma any_value_decoded:
  "float_ok float \<Longrightarrow> any_value float j = Some v \<Longrightarrow> decoded float v"
  "float_ok float \<Longrightarrow> any_values float js = Some vs \<Longrightarrow> list_all (decoded float) vs"
  "float_ok float \<Longrightarrow> any_members float ms acc = Some r \<Longrightarrow> ascending acc \<Longrightarrow>
     list_all (\<lambda>(k, v). decoded float v) acc \<Longrightarrow> ascending r \<and> list_all (\<lambda>(k, v). decoded float v) r"
proof (induction float j and float js and float ms acc arbitrary: v and vs and r
    rule: any_value_any_values_any_members.induct)
  case (3 float lit)
  then show ?case by (auto simp: decoded_def float_ok_def)
next
  case (10 float k j ms acc)
  then obtain w where w: "any_value float j = Some w" "any_members float ms (put_member k w acc) = Some r"
    by (auto simp: bind_eq_Some_conv)
  then have "decoded float w" using 10 by blast
  with 10 w put_member_ascending [of acc k w] put_member_all [of "decoded float" w acc k] show ?case by simp
qed (auto simp: bind_eq_Some_conv)

lemma decoded_go_any: "decoded float v \<Longrightarrow> go_any float v"
  by (simp add: decoded_def go_any_def in_order_distinct)

lemma go_any_decoded: "go_any float v \<Longrightarrow> decoded float (normalize v)"
  using go_any_normalize [of float v] by (simp add: decoded_def go_any_def)

lemma decoded_id: "decoded float v \<Longrightarrow> any_value float v = Some v \<and> normalize v = v"
  by (simp add: decoded_def any_value_in_order normalize_id)

lemma unmarshal_map_decoded:
  assumes "float_ok float" and "unmarshal_map float b = Some ms"
  shows "decoded float (JObj ms)"
  using assms any_value_decoded(3) [of float _ "[]" ms]
  by (auto simp: unmarshal_map_def split: option.splits json.splits)

text \<open>Both printers are read back as the value in order.\<close>

lemma unmarshal_map_printed:
  assumes "go_any float (JObj ms)"
  shows "unmarshal_map float (json_print (normalize (JObj ms))) = Some (norm_members ms)"
    and "unmarshal_map float (json_print_indent (normalize (JObj ms))) = Some (norm_members ms)"
proof -
  from go_any_decoded [OF assms] have d: "decoded float (JObj (norm_members ms))"
    by (simp only: normalize_JObj)
  then have "wf_json (JObj (norm_members ms))" by (simp add: decoded_def del: wf_json.simps)
  moreover from decoded_id [OF d] have "any_members float (norm_members ms) [] = Some (norm_members ms)" by simp
  ultimately show "unmarshal_map float (json_print (normalize (JObj ms))) = Some (norm_members ms)"
    and "unmarshal_map float (json_print_indent (normalize (JObj ms))) = Some (norm_members ms)"
    unfolding normalize_JObj unmarshal_map_def by (simp_all del: wf_json.simps)
qed

lemma clone_manifest_norm: "go_any float (JObj ms) \<Longrightarrow> clone_manifest float ms = Inr (norm_members ms)"
  by (simp add: clone_manifest_def marshal_any_def unmarshal_map_printed del: normalize.simps)

lemma norm_members_decoded: "decoded float (JObj ms) \<Longrightarrow> norm_members ms = ms"
  using decoded_id [of float "JObj ms"] by (simp add: norm_members_def)

section \<open>The canonical form\<close>

text \<open>The same Go value: the members of maps, at any depth, in another order.\<close>

inductive same_value :: "json \<Rightarrow> json \<Rightarrow> bool" where
  same: "same_value v v"
| arr: "list_all2 same_value js ks \<Longrightarrow> same_value (JArr js) (JArr ks)"
| obj: "keys ms = keys ns \<Longrightarrow> list_all2 same_value (map snd ms) (map snd ns) \<Longrightarrow> mset ns = mset ns' \<Longrightarrow>
     same_value (JObj ms) (JObj ns')"

lemma same_value_normalize: "same_value v w \<Longrightarrow> map_keys_distinct v \<Longrightarrow> normalize v = normalize w"
proof (induction rule: same_value.induct)
  case (arr js ks)
  then have "list_all2 (\<lambda>x y. normalize x = normalize y) js ks"
    by (auto simp: list_all2_conv_all_nth list_all_length)
  then have "map normalize js = map normalize ks"
    by (induction rule: list_all2_induct) simp_all
  then show ?case by simp
next
  case (obj ms ns ns')
  have len: "length ms = length ns" using list_all2_lengthD [OF obj.IH] by simp
  have "map (\<lambda>(k, j). (k, normalize j)) ms = map (\<lambda>(k, j). (k, normalize j)) ns"
  proof (rule nth_equalityI)
    fix i
    assume "i < length (map (\<lambda>(k, j). (k, normalize j)) ms)"
    then have i: "i < length ms" by simp
    have "normalize (snd (ms ! i)) = normalize (snd (ns ! i))"
      using obj.IH obj.prems i len by (auto simp: list_all2_conv_all_nth list_all_length case_prod_beta)
    moreover have "fst (ms ! i) = fst (ns ! i)" using obj.hyps(1) i len by (metis nth_map)
    ultimately show "map (\<lambda>(k, j). (k, normalize j)) ms ! i = map (\<lambda>(k, j). (k, normalize j)) ns ! i"
      using i len by (simp add: case_prod_beta)
  qed (use len in simp)
  moreover have "norm_members ns = norm_members ns'"
  proof (rule ascending_unique)
    have d: "distinct (keys ns)" using obj.hyps(1) obj.prems by simp
    moreover have "mset (keys ns) = mset (keys ns')" using obj.hyps(2) by simp
    ultimately have "distinct (keys ns')" by (metis mset_eq_imp_distinct_iff)
    with d have "distinct (keys (map (\<lambda>(k, j). (k, normalize j)) ns))"
      and "distinct (keys (map (\<lambda>(k, j). (k, normalize j)) ns'))" unfolding keys_normalized by simp_all
    then show "ascending (norm_members ns)" and "ascending (norm_members ns')"
      unfolding norm_members_def using ascending_sort by blast+
    show "set (norm_members ns) = set (norm_members ns')"
      using mset_eq_setD [OF obj.hyps(2)] by (simp add: norm_members_def)
  qed
  ultimately show ?case by (simp add: norm_members_def)
qed simp

text \<open>
  C36: the canonical form. The same value always has the same bytes, whatever the order in which
  its maps are iterated; the bytes decode to the value with every map in the order of its keys,
  so two values with the same bytes are the same up to that order; and encoding what was decoded
  gives the same bytes again.
\<close>

theorem canonical_json_spec:
  assumes "go_any float v"
  shows "json_parse (canonical_json v) = Some (normalize v) \<and> in_order (normalize v) \<and>
    canonical_json (normalize v) = canonical_json v \<and>
    (\<forall>w. same_value v w \<longrightarrow> canonical_json w = canonical_json v) \<and>
    (\<forall>w. go_any float w \<and> canonical_json w = canonical_json v \<longrightarrow> normalize w = normalize v)"
proof (intro conjI allI impI)
  have parse: "json_parse (canonical_json w) = Some (normalize w)" if "go_any float w" for w
    using go_any_normalize [OF that] by (simp add: canonical_json_print go_any_def)
  show "json_parse (canonical_json v) = Some (normalize v)" using assms by (rule parse)
  show ord: "in_order (normalize v)" using go_any_normalize [OF assms] by simp
  show "canonical_json (normalize v) = canonical_json v"
    using normalize_id [OF ord] by (simp add: canonical_json_print)
  show "canonical_json w = canonical_json v" if "same_value v w" for w
    using same_value_normalize [OF that] assms by (simp add: canonical_json_print go_any_def)
  show "normalize w = normalize v" if "go_any float w \<and> canonical_json w = canonical_json v" for w
    using parse [of w] parse [OF assms] that by simp
qed

theorem canonical_json_spec_witness:
  "canonical_json (JObj [(''b'', JNum ''1''), (''a'', JStr ''x'')]) =
   canonical_json (JObj [(''a'', JStr ''x''), (''b'', JNum ''1'')])"
proof -
  let ?v = "JObj [(''a'', JStr ''x''), (''b'', JNum ''1'')]"
  have "go_any Some ?v"
    by (simp add: go_any_def valid_number_def digits1_def num_char_def is_digit_def)
  moreover have "same_value ?v (JObj [(''b'', JNum ''1''), (''a'', JStr ''x'')])"
    by (rule same_value.obj [where ns = "[(''a'', JStr ''x''), (''b'', JNum ''1'')]"])
      (simp_all add: same_value.same)
  ultimately show ?thesis using canonical_json_spec [of Some ?v] by blast
qed

end
