(* ===== verification/Pack_Bundle.thy ===== *)
theory Pack_Bundle
  imports Pack_Manifest
begin

text \<open>
  What a verified bundle guarantees (\<open>buildBundle\<close>, \<open>verifyBundle\<close> and the main loop of
  \<open>cmd/xqs-vnc-pack/main.go\<close>): a bundle just built verifies, and a signature fixes the
  contents up to a collision of SHA-256.
\<close>

section \<open>The checksum file\<close>

text \<open>Names that do not break its lines.\<close>

definition line_name :: "string \<Rightarrow> bool" where
  "line_name n \<longleftrightarrow> CHR 0x0A \<notin> set n \<and> CHR 0x0D \<notin> set n"

lemma sums_text_plain:
  "list_all (\<lambda>f. line_name (fst f)) files \<Longrightarrow> CHR 0x0D \<notin> set (concat (map (sum_line c) files))"
proof (induction files)
  case (Cons f files)
  moreover have "CHR 0x0D \<notin> set (hex_encode (sha256 c (snd f)))"
    using hex_encode_plain [of "sha256 c (snd f)"] by (auto simp: list_all_iff plain_def)
  ultimately show ?case by (simp add: sum_line_def line_name_def)
qed simp

lemma sums_text_lines:
  "list_all (\<lambda>f. line_name (fst f)) files \<Longrightarrow> sums_text c files = concat (map (sum_line c) files)"
  unfolding sums_text_def by (intro replace_crlf_id sums_text_plain)

lemma line_split:
  "CHR 0x0A \<notin> set n \<Longrightarrow> CHR 0x0A \<notin> set m \<Longrightarrow> n @ CHR 0x0A # r = m @ CHR 0x0A # q \<Longrightarrow> n = m \<and> r = q"
proof (induction n arbitrary: m)
  case Nil
  then show ?case by (cases m) simp_all
next
  case (Cons a n)
  then show ?case by (cases m) auto
qed

text \<open>The lines determine the names and, with hashes of one length, the hashes.\<close>

lemma sums_lines_inject:
  assumes "\<And>x. length (sha256 c x) = 32"
    and "list_all (\<lambda>f. line_name (fst f)) xs" and "list_all (\<lambda>f. line_name (fst f)) ys"
    and "concat (map (sum_line c) xs) = concat (map (sum_line c) ys)"
  shows "map (\<lambda>f. (fst f, sha256 c (snd f))) xs = map (\<lambda>f. (fst f, sha256 c (snd f))) ys"
  using assms(2-)
proof (induction xs arbitrary: ys)
  case Nil
  then show ?case by (cases ys) (simp_all add: sum_line_def)
next
  case (Cons x xs)
  then obtain y ys' where ys: "ys = y # ys'" by (cases ys) (auto simp: sum_line_def)
  let ?r = "\<lambda>zs. concat (map (sum_line c) zs)"
  have len: "length (hex_encode (sha256 c (snd x))) = length (hex_encode (sha256 c (snd y)))"
    using assms(1) by simp
  have eq: "hex_encode (sha256 c (snd x)) @ ''  '' @ fst x @ CHR 0x0A # ?r xs =
      hex_encode (sha256 c (snd y)) @ ''  '' @ fst y @ CHR 0x0A # ?r ys'"
    using Cons.prems(3) ys by (simp add: sum_line_def [of c x] sum_line_def [of c y])
  from len eq have h: "sha256 c (snd x) = sha256 c (snd y)"
    and "''  '' @ fst x @ CHR 0x0A # ?r xs = ''  '' @ fst y @ CHR 0x0A # ?r ys'"
    by (simp_all add: append_eq_append_conv del: append_Cons)
  then have "fst x @ CHR 0x0A # ?r xs = fst y @ CHR 0x0A # ?r ys'" by simp
  then have "fst x = fst y \<and> ?r xs = ?r ys'"
    using Cons.prems ys by (intro line_split) (auto simp: line_name_def)
  with h Cons ys show ?case by simp
qed

text \<open>Without a collision, equal hashes mean equal contents.\<close>

definition collision :: "crypto \<Rightarrow> bool" where
  "collision c \<longleftrightarrow> (\<exists>x y. x \<noteq> y \<and> sha256 c x = sha256 c y)"

lemma sums_text_inject:
  assumes "\<And>x. length (sha256 c x) = 32"
    and "list_all (\<lambda>f. line_name (fst f)) xs" and "list_all (\<lambda>f. line_name (fst f)) ys"
    and "sums_text c xs = sums_text c ys" and "\<not> collision c"
  shows "xs = ys"
proof -
  have "inj (\<lambda>f :: string \<times> bytes. (fst f, sha256 c (snd f)))"
    using assms(5) by (auto simp: collision_def inj_def)
  moreover have "map (\<lambda>f. (fst f, sha256 c (snd f))) xs = map (\<lambda>f. (fst f, sha256 c (snd f))) ys"
    using assms(1-4) by (intro sums_lines_inject) (simp_all add: sums_text_lines)
  ultimately show ?thesis by (simp add: inj_map_eq_map)
qed

section \<open>The signed message\<close>

lemma canonical_same: "normalize v = normalize w \<Longrightarrow> canonical_json v = canonical_json w"
  by (simp add: canonical_json_print)

lemma canonical_norm_members: "go_any float (JObj m) \<Longrightarrow> canonical_json (JObj (norm_members m)) = canonical_json (JObj m)"
  using go_any_normalize [of float "JObj m"] normalize_id [of "normalize (JObj m)"]
  by (intro canonical_same) (simp only: normalize_JObj)

lemma signed_message_norm_members:
  assumes "go_any float (JObj m)"
  shows "canonical_json (signed_message c (norm_members m) t) = canonical_json (signed_message c m t)"
proof (rule canonical_same)
  have "normalize (JObj (norm_members m)) = normalize (JObj m)"
    using go_any_normalize [OF assms] normalize_id [of "normalize (JObj m)"] by (simp only: normalize_JObj)
  then show "normalize (signed_message c (norm_members m) t) = normalize (signed_message c m t)"
    unfolding signed_message_def normalize.simps(1) list.map prod.case by simp
qed

lemma go_any_signed_message: "go_any float (JObj m) \<Longrightarrow> go_any float (signed_message c m t)"
  by (simp add: go_any_def signed_message_def)

text \<open>The message determines the manifest and the hash of the checksum file.\<close>

lemma signed_message_inject:
  assumes "go_any float (JObj m)" and "go_any float (JObj m')"
    and "canonical_json (signed_message c m t) = canonical_json (signed_message c m' t')"
  shows "norm_members m = norm_members m' \<and> sha256 c (bytes_of t) = sha256 c (bytes_of t')"
proof -
  have "json_parse (canonical_json v) = Some (normalize v)" if "go_any float v" for v
    using go_any_normalize [OF that] by (simp add: canonical_json_print go_any_def)
  then have "normalize (signed_message c m t) = normalize (signed_message c m' t')"
    using assms go_any_signed_message by (metis option.inject)
  moreover have "''checksumsSha256'' < ''manifest''" by (simp add: less_char_def)
  ultimately show ?thesis
    by (simp add: signed_message_def norm_members_def)
qed

section \<open>A bundle just built\<close>

lemma content_of_distinct: "distinct (keys ar) \<Longrightarrow> content_of ar n = Some d \<longleftrightarrow> (n, d) \<in> set ar"
  unfolding content_of_def by (subst map_of_eq_Some_iff) (simp_all add: rev_map [symmetric])

lemma keys_recomputed: "keys (recomputed ar u) = sort (remdups (filter (\<lambda>n. n \<noteq> ''SHA256SUMS'') (keys ar)))"
  by (simp add: recomputed_def comp_def)

lemma ascending_recomputed: "ascending (recomputed ar u)"
  unfolding keys_recomputed by simp

lemma set_recomputed:
  assumes "distinct (keys ar)"
  shows "set (recomputed ar u) = (\<lambda>(n, d). (n, if n = ''plugin.json'' then u else d)) ` {f \<in> set ar. fst f \<noteq> ''SHA256SUMS''}"
proof -
  have "the (content_of ar n) = d" if "(n, d) \<in> set ar" for n d
    using content_of_distinct [OF assms, of n d] that by simp
  then show ?thesis by (force simp: recomputed_def image_iff)
qed

definition files_to_sum :: "bytes \<Rightarrow> string \<Rightarrow> bytes \<Rightarrow> bundle_file list \<Rightarrow> (string \<times> bytes) list" where
  "files_to_sum u bin binData ui = [(''plugin.json'', u), (bin, binData)] @ map (\<lambda>f. (arcName f, contents f)) ui"

definition bundle_names :: "string \<Rightarrow> bundle_file list \<Rightarrow> bool" where
  "bundle_names bin ui \<longleftrightarrow>
     distinct (''plugin.json'' # ''SHA256SUMS'' # bin # map arcName ui) \<and> list_all line_name (bin # map arcName ui)"

lemma recomputed_built:
  assumes "bundle_names bin ui"
  shows "recomputed ([(''plugin.json'', s), (bin, binData)] @ map (\<lambda>f. (arcName f, contents f)) ui @ [(''SHA256SUMS'', t)]) u =
    sort_key fst (files_to_sum u bin binData ui)"
proof (rule ascending_unique)
  let ?ar = "[(''plugin.json'', s), (bin, binData)] @ map (\<lambda>f. (arcName f, contents f)) ui @ [(''SHA256SUMS'', t)]"
  have d: "distinct (keys ?ar)" and f: "distinct (keys (files_to_sum u bin binData ui))"
    using assms by (auto simp: bundle_names_def files_to_sum_def comp_def)
  show "ascending (recomputed ?ar u)" by (rule ascending_recomputed)
  show "ascending (sort_key fst (files_to_sum u bin binData ui))" using f by (rule ascending_sort)
  have ne: "arcName f \<noteq> ''SHA256SUMS''" "arcName f \<noteq> ''plugin.json''" if "f \<in> set ui" for f
    using assms that unfolding bundle_names_def by force+
  let ?g = "\<lambda>(n, d). (n, if n = ''plugin.json'' then u else d)"
  let ?fs = "[(''plugin.json'', s), (bin, binData)] @ map (\<lambda>f. (arcName f, contents f)) ui"
  have sub: "{f \<in> set ?ar. fst f \<noteq> ''SHA256SUMS''} = set ?fs"
    using assms ne by (auto simp: bundle_names_def)
  have "bin \<noteq> ''plugin.json''" using assms by (auto simp: bundle_names_def)
  then have g: "map ?g ?fs = files_to_sum u bin binData ui"
    using ne(2) by (simp add: files_to_sum_def)
  show "set (recomputed ?ar u) = set (sort_key fst (files_to_sum u bin binData ui))"
    unfolding set_recomputed [OF d] sub set_sort g [symmetric] set_map ..
qed

lemma sums_text_stable:
  assumes "list_all (\<lambda>f. line_name (fst f)) files"
  shows "replace_crlf (sums_text c files) = sums_text c files"
  using sums_text_plain [OF assms] by (simp add: sums_text_lines [OF assms] replace_crlf_id)

text \<open>The signed manifest, printed and read back.\<close>

lemma signed_manifest_read:
  assumes "go_any float (JObj m)" and "''signature'' \<notin> fst ` set m"
  shows "\<exists>ms. unmarshal_map float (marshal_indent (JObj (set_member ''signature'' (JStr s) (norm_members m)))) = Some ms \<and>
    decoded float (JObj ms) \<and> signature_of ms = s \<and> delete_member ''signature'' ms = norm_members m"
proof -
  have nm: "decoded float (JObj (norm_members m))" using go_any_decoded [OF assms(1)] by (simp only: normalize_JObj)
  have abs: "''signature'' \<notin> set (keys (norm_members m))" using assms(2) by simp
  let ?m = "set_member ''signature'' (JStr s) (norm_members m)"
  have m: "?m = (''signature'', JStr s) # norm_members m"
    by (simp only: set_member_def delete_member_absent [OF abs])
  have g: "go_any float (JObj ?m)"
    using decoded_go_any [OF nm] abs unfolding m by (simp add: go_any_def)
  then have rd: "unmarshal_map float (marshal_indent (JObj ?m)) = Some (norm_members ?m)"
    unfolding marshal_indent_def by (rule unmarshal_map_printed(2))
  have d: "decoded float (JObj (norm_members ?m))" using go_any_decoded [OF g] by (simp only: normalize_JObj)
  have norm: "map (\<lambda>(k, j). (k, normalize j)) (norm_members m) = norm_members m"
    using decoded_id [OF nm] nm by (intro map_idI) (auto simp: list_all_iff dest!: bspec [where x = "(_, _)"] decoded_id)
  have "set (norm_members ?m) = set (map (\<lambda>(k, j). (k, normalize j)) ?m)"
    by (simp only: norm_members_def set_sort)
  then have set: "set (norm_members ?m) = insert (''signature'', JStr s) (set (norm_members m))"
    by (simp only: m list.map prod.case normalize.simps norm list.set)
  have "map_of (norm_members ?m) ''signature'' = Some (JStr s)"
    using d set by (intro map_of_is_SomeI) simp_all
  then have sig: "signature_of (norm_members ?m) = s" by (simp add: signature_of_def)
  have "delete_member ''signature'' (norm_members ?m) = norm_members m"
  proof (rule ascending_unique)
    show "ascending (delete_member ''signature'' (norm_members ?m))" using d by (intro delete_member_ascending) simp
    show "ascending (norm_members m)" using nm by simp
    have "fst x \<noteq> ''signature''" if "x \<in> set (norm_members m)" for x
      using abs that by (metis image_eqI set_map)
    then show "set (delete_member ''signature'' (norm_members ?m)) = set (norm_members m)"
      unfolding set_delete_member set by auto
  qed
  with rd d sig show ?thesis by blast
qed

lemma built_bundle:
  assumes "go_any float (JObj m)" and "''signature'' \<notin> fst ` set m" and "bundle_names bin ui"
    and "\<And>msg. ed_verify c (ed_public c priv) msg (ed_sign c priv msg) \<and> ed_sign c priv msg \<noteq> []"
  shows "\<exists>b p ms. build_bundle float c m binData bin ui priv = Inr b \<and>
    verify_bundle float c (archive b) (ed_public c priv) = Inr None \<and>
    content_of (archive b) bin = Some binData \<and> content_of (archive b) ''plugin.json'' = Some p \<and>
    unmarshal_map float p = Some ms \<and> delete_member ''signature'' ms = norm_members m"
proof -
  let ?u = "canonical_json (JObj m)"
  let ?t = "sums_text c (sort_key fst (files_to_sum ?u bin binData ui))"
  let ?sig = "ed_sign c priv (canonical_json (signed_message c m ?t))"
  let ?s = "marshal_indent (JObj (set_member ''signature'' (JStr (b64_encode ?sig)) (norm_members m)))"
  let ?ar = "[(''plugin.json'', ?s), (bin, binData)] @ map (\<lambda>f. (arcName f, contents f)) ui @ [(''SHA256SUMS'', bytes_of ?t)]"
  have clone: "clone_manifest float m = Inr (norm_members m)" using assms(1) by (rule clone_manifest_norm)
  from signed_manifest_read [OF assms(1,2)] obtain ms where
    ms: "unmarshal_map float ?s = Some ms" "decoded float (JObj ms)" "signature_of ms = b64_encode ?sig"
      "delete_member ''signature'' ms = norm_members m" by blast
  have d: "distinct (keys ?ar)" using assms(3) by (auto simp: bundle_names_def comp_def)
  have cont: "content_of ?ar ''SHA256SUMS'' = Some (bytes_of ?t)" "content_of ?ar ''plugin.json'' = Some ?s"
    "content_of ?ar bin = Some binData"
    by (rule content_of_distinct [OF d, THEN iffD2], simp)+
  have "list_all (\<lambda>f. line_name (fst f)) (files_to_sum ?u bin binData ui)"
    using assms(3) by (auto simp: files_to_sum_def bundle_names_def line_name_def list_all_iff)
  then have stable: "replace_crlf ?t = ?t"
    by (intro sums_text_stable) (simp only: list_all_iff set_sort)
  have cl: "clone_manifest float ms = Inr ms"
    using clone_manifest_norm [OF decoded_go_any [OF ms(2)]] norm_members_decoded [OF ms(2)] by simp
  have "verify_bundle float c ?ar (ed_public c priv) = Inr None"
    unfolding verify_bundle_def cont
    using ms cl assms(1,4) stable recomputed_built [OF assms(3)]
    by (simp add: Let_def canonical_norm_members signed_message_norm_members)
  moreover have "build_bundle float c m binData bin ui priv =
      Inr \<lparr>fileSums = map (\<lambda>(n, d). (n, hex_encode (sha256 c d))) (sort_key fst (files_to_sum ?u bin binData ui)),
        sigText = b64_encode ?sig, archive = ?ar\<rparr>"
    by (simp add: build_bundle_def Let_def clone files_to_sum_def)
  ultimately show ?thesis using cont ms by auto
qed

text \<open>
  a bundle verifies as built. Whatever the manifest, the binary and the page files, if the
  names are distinct and fit on a line and signatures made with the key verify with its
  public half, building succeeds and the check of the written archive finds nothing wrong:
  the manifest without its signature is recovered from the indented text, the checksum file is
  recomputed to the same bytes, and the signed message is the same.
\<close>

theorem bundle_verifies:
  assumes "go_any float (JObj m)" and "''signature'' \<notin> fst ` set m" and "bundle_names bin ui"
    and "\<And>msg. ed_verify c (ed_public c priv) msg (ed_sign c priv msg) \<and> ed_sign c priv msg \<noteq> []"
  shows "\<exists>b. build_bundle float c m binData bin ui priv = Inr b \<and>
    verify_bundle float c (archive b) (ed_public c priv) = Inr None"
  using built_bundle [OF assms] by blast

text \<open>Keys for the examples: a hash by length, a signature that is the message under the key.\<close>

definition demo_crypto :: crypto where
  "demo_crypto = \<lparr>sha256 = \<lambda>b. replicate 31 0 @ [word_of_nat (length b)], ed_sign = \<lambda>k m. k @ m,
     ed_verify = \<lambda>p m s. s = p @ m, ed_public = \<lambda>k. k, ed_from_seed = \<lambda>s. s\<rparr>"

definition demo_manifest :: "(string \<times> json) list" where
  "demo_manifest = [(''id'', JStr ''vnc''), (''engine'', JObj [(''entry'', JStr ''x'')])]"

lemma demo_manifest_any: "go_any Some (JObj demo_manifest)" "''signature'' \<notin> fst ` set demo_manifest"
  by (simp_all add: demo_manifest_def go_any_def)

theorem bundle_verifies_witness:
  "\<exists>b. build_bundle Some demo_crypto demo_manifest [1, 2] ''xqs-vnc'' [\<lparr>arcName = ''ui/vnc.html'', contents = [60]\<rparr>] [7] = Inr b \<and>
    verify_bundle Some demo_crypto (archive b) [7] = Inr None"
  using bundle_verifies [OF demo_manifest_any, of "''xqs-vnc''" "[\<lparr>arcName = ''ui/vnc.html'', contents = [60]\<rparr>]" demo_crypto "[7]" "[1, 2]"]
  by (simp add: demo_crypto_def bundle_names_def line_name_def)

section \<open>What a signature covers\<close>

definition demo_float :: "string \<Rightarrow> string option" where
  "demo_float lit = (if valid_number lit \<and> list_all num_char lit then Some lit else None)"

lemma demo_float_ok: "float_ok demo_float"
  by (simp add: float_ok_def demo_float_def)

text \<open>
  What an archive says it contains, as \<open>verifyBundle\<close> reads it: the manifest without its
  signature, the files with their contents, and the text of the checksum file.
\<close>

definition declared ::
    "(string \<Rightarrow> string option) \<Rightarrow> (string \<times> bytes) list \<Rightarrow>
     (string \<times> ((string \<times> json) list \<times> (string \<times> bytes) list \<times> string)) option" where
  "declared float ar =
     Option.bind (content_of ar ''SHA256SUMS'') (\<lambda>t.
     Option.bind (content_of ar ''plugin.json'') (\<lambda>p.
     Option.bind (unmarshal_map float p) (\<lambda>ms.
     let u = delete_member ''signature'' ms in
     Some (signature_of ms, u, recomputed ar (canonical_json (JObj u)), replace_crlf (string_of t)))))"

definition message_of :: "crypto \<Rightarrow> (string \<times> json) list \<times> (string \<times> bytes) list \<times> string \<Rightarrow> bytes" where
  "message_of c d = (case d of (u, _, t) \<Rightarrow> canonical_json (signed_message c u t))"

text \<open>An accepted archive has a valid signature on its message, and its checksum file is right.\<close>

lemma verify_bundle_accepts:
  assumes "float_ok float" and "verify_bundle float c ar pub = Inr None"
  shows "\<exists>s sig u files t. declared float ar = Some (s, u, files, t) \<and> b64_decode s = Some sig \<and>
    ed_verify c pub (message_of c (u, files, t)) sig \<and> sums_text c files = t \<and> decoded float (JObj u)"
proof -
  from assms(2) obtain t p ms sig cl where
    v: "content_of ar ''SHA256SUMS'' = Some t" "content_of ar ''plugin.json'' = Some p"
      "unmarshal_map float p = Some ms" "b64_decode (signature_of ms) = Some sig" "clone_manifest float ms = Inr cl"
    and r: "(let u = delete_member ''signature'' cl;
            rs = sums_text c (recomputed ar (canonical_json (JObj u)));
            ns = replace_crlf (string_of t) in
        if rs \<noteq> ns then Inr (Some (Errorf ''SHA256SUMS mismatch'' []))
        else if \<not> ed_verify c pub (canonical_json (signed_message c u ns)) sig
        then Inr (Some (Errorf ''ed25519 signature verification FAILED'' []))
        else Inr None) = (Inr None :: go_error option or_fatal)"
    unfolding verify_bundle_def by (auto split: option.splits if_splits sum.splits)
  have d: "decoded float (JObj ms)" using assms(1) v(3) by (rule unmarshal_map_decoded)
  then have "cl = ms"
    using clone_manifest_norm [OF decoded_go_any [OF d]] norm_members_decoded [OF d] v(5) by simp
  moreover have "decoded float (JObj (delete_member ''signature'' ms))"
    using d delete_member_ascending [of ms "''signature''"] by (auto simp: list_all_iff set_delete_member)
  ultimately show ?thesis
    using v(1-4) r by (auto simp: declared_def message_of_def Let_def split: if_splits)
qed



section \<open>The main loop\<close>

lemma map_of_norm_members:
  assumes "distinct (keys ms)"
  shows "map_of (norm_members ms) k = map_option normalize (map_of ms k)"
proof -
  have "distinct (keys (map (\<lambda>(k, j). (k, normalize j)) ms))"
    unfolding keys_normalized by (rule assms)
  then show ?thesis by (simp add: norm_members_def map_of_map)
qed

lemma map_of_delete_member: "k \<noteq> k' \<Longrightarrow> map_of (delete_member k' ms) k = map_of ms k"
  by (induction ms) (auto simp: delete_member_def)

lemma map_of_set_member [simp]:
  "map_of (set_member k j ms) k = Some j"
  "k \<noteq> k' \<Longrightarrow> map_of (set_member k' j ms) k = map_of ms k"
  by (simp_all add: set_member_def map_of_delete_member)

lemma go_any_set_member:
  "go_any float (JObj ms) \<Longrightarrow> go_any float j \<Longrightarrow> go_any float (JObj (set_member k j ms))"
  by (auto simp: go_any_def set_member_def keys_delete_member set_delete_member list_all_iff)

lemma collected_names:
  "collect_files t name = Inr fs \<Longrightarrow> f \<in> set fs \<Longrightarrow> take (length name) (arcName f) = name"
  "collect_entries es name = Inr fs \<Longrightarrow> f \<in> set fs \<Longrightarrow> take (length name) (arcName f) = name"
proof (induction t name and es name arbitrary: fs and fs rule: collect_files_collect_entries.induct)
  case (6 n t es name)
  then obtain xs ys where "collect_files t (name @ ''/'' @ n) = Inr xs" "collect_entries es name = Inr ys" "fs = xs @ ys"
    by (auto split: sum.splits)
  moreover have "take (length name) (arcName f) = name" if "take (length (name @ ''/'' @ n)) (arcName f) = name @ ''/'' @ n"
    using arg_cong [OF that, of "take (length name)"] by (simp add: min_def)
  ultimately show ?case using 6 by auto
qed auto

lemma ui_names:
  assumes "collect_files ui ''ui'' = Inr fs" and "distinct (map arcName fs)" and "list_all line_name (map arcName fs)"
  shows "bundle_names (entry_name t) fs"
proof -
  have "take 2 (arcName f) = ''ui''" if "f \<in> set fs" for f
    using collected_names(1) [OF assms(1) that] by (simp add: numeral_2_eq_2)
  then have "n \<notin> arcName ` set fs" if "take 2 n \<noteq> ''ui''" for n
    using that by force
  with assms(2,3) show ?thesis
    by (simp add: bundle_names_def entry_name_def line_name_def)
qed

section \<open>The signing key\<close>

lemma b64_char_no_space: "n < 64 \<Longrightarrow> \<not> ascii_space (b64_char n)"
  using b64_val_char [of n] by (auto simp: b64_val_def ascii_space_def is_space_def simp del: b64_val_char split: if_splits)

lemma b64_encode_no_space: "list_all (\<lambda>c. \<not> ascii_space c) (b64_encode bs)"
  by (induction bs rule: b64_encode.induct) (simp_all add: b64_char_no_space, simp_all add: ascii_space_def is_space_def)

lemma dropWhile_all_not: "list_all (\<lambda>c. \<not> P c) xs \<Longrightarrow> dropWhile P xs = xs"
  by (cases xs) simp_all

lemma trim_space_b64: "trim_space (b64_encode bs @ [CHR 0x0A]) = b64_encode bs"
proof (cases "bs = []")
  case False
  then have "dropWhile ascii_space (b64_encode bs @ [CHR 0x0A]) = b64_encode bs @ [CHR 0x0A]"
    using b64_encode_no_space [of bs] by (cases "b64_encode bs") simp_all
  moreover have "dropWhile ascii_space (rev (b64_encode bs)) = rev (b64_encode bs)"
    using b64_encode_no_space [of bs] by (intro dropWhile_all_not) (simp add: list_all_iff)
  ultimately show ?thesis by (simp add: trim_space_def ascii_space_def is_space_def)
qed (simp add: trim_space_def ascii_space_def is_space_def)

text \<open>
  a generated key is the key of the next run. When the key file is absent, the file written
  is one that the tool accepts and from which it makes the same key, without writing again.
\<close>

theorem generated_key_reloaded:
  assumes "length seed = 32" and "load_or_generate_key c seed (Inl err) = Inr (priv, new)"
  shows "\<exists>b. new = Some b \<and> load_or_generate_key c seed' (Inr b) = Inr (priv, None)"
  using assms by (auto simp: load_or_generate_key_def trim_space_b64 simp del: bytes_of_append)

theorem generated_key_reloaded_witness:
  "load_or_generate_key demo_crypto [] (Inr (bytes_of (b64_encode (replicate 32 5) @ [CHR 0x0A]))) = Inr (replicate 32 5, None)"
proof -
  have "load_or_generate_key demo_crypto (replicate 32 5) (Inl EOF) =
      Inr (replicate 32 5, Some (bytes_of (b64_encode (replicate 32 5) @ [CHR 0x0A])))"
    by (simp add: load_or_generate_key_def demo_crypto_def)
  from generated_key_reloaded [OF _ this, of "[]"] show ?thesis by (simp del: bytes_of_append)
qed

text \<open>One target: the bundle verifies, and its manifest names the binary that is in it.\<close>

definition good_bundle ::
    "(string \<Rightarrow> string option) \<Rightarrow> crypto \<Rightarrow> bytes \<Rightarrow> (target \<Rightarrow> go_error + bytes) \<Rightarrow> target \<Rightarrow> string \<times> xqsp \<Rightarrow> bool" where
  "good_bundle float c pub compile t nb \<longleftrightarrow> (case nb of (n, b) \<Rightarrow>
     n = bundle_name t \<and> verify_bundle float c (archive b) pub = Inr None \<and>
     (\<exists>bin p ms engine. compile t = Inr bin \<and> content_of (archive b) (entry_name t) = Some bin \<and>
        content_of (archive b) ''plugin.json'' = Some p \<and> unmarshal_map float p = Some ms \<and>
        map_of ms ''engine'' = Some (JObj engine) \<and> map_of engine ''entry'' = Some (JStr (entry_name t))))"

lemma pack_target_good:
  assumes m: "decoded float (JObj m)" "''signature'' \<notin> fst ` set m" "map_of m ''engine'' = Some (JObj e)"
    and names: "bundle_names (entry_name t) ui"
    and keys: "\<And>msg. ed_verify c (ed_public c priv) msg (ed_sign c priv msg) \<and> ed_sign c priv msg \<noteq> []"
    and bin: "compile t = Inr bin" "bin \<noteq> []"
  shows "\<exists>nb. pack_target float c priv m ui compile t = Inr nb \<and> good_bundle float c (ed_public c priv) compile t nb"
proof -
  let ?e = "set_member ''entry'' (JStr (entry_name t)) e"
  let ?m = "set_member ''engine'' (JObj ?e) m"
  have clone: "clone_manifest float m = Inr m"
    using clone_manifest_norm [OF decoded_go_any [OF m(1)]] norm_members_decoded [OF m(1)] by simp
  have "(''engine'', JObj e) \<in> set m" using m(3) by (rule map_of_SomeD)
  moreover from m(1) have "list_all (\<lambda>(k, v). decoded float v) m" by simp
  ultimately have de: "decoded float (JObj e)" unfolding list_all_iff by blast
  have ge: "go_any float (JObj ?e)"
    using decoded_go_any [OF de] by (rule go_any_set_member) (simp add: go_any_def)
  with decoded_go_any [OF m(1)] have gm: "go_any float (JObj ?m)" by (rule go_any_set_member)
  have sig: "''signature'' \<notin> fst ` set ?m" using m(2) by (auto simp: set_member_def set_delete_member)
  from built_bundle [OF gm sig names keys, of bin] obtain b p ms where
    b: "build_bundle float c ?m bin (entry_name t) ui priv = Inr b" "verify_bundle float c (archive b) (ed_public c priv) = Inr None"
      "content_of (archive b) (entry_name t) = Some bin" "content_of (archive b) ''plugin.json'' = Some p"
      "unmarshal_map float p = Some ms" "delete_member ''signature'' ms = norm_members ?m" by blast
  have "map_of ms ''engine'' = map_of (delete_member ''signature'' ms) ''engine''"
    by (simp add: map_of_delete_member)
  also have "\<dots> = Some (JObj (norm_members ?e))"
    using gm unfolding b(6) by (subst map_of_norm_members) (simp_all add: go_any_def normalize_JObj del: normalize.simps)
  finally have eng: "map_of ms ''engine'' = Some (JObj (norm_members ?e))" .
  have entry: "map_of (norm_members ?e) ''entry'' = Some (JStr (entry_name t))"
    using ge by (subst map_of_norm_members) (simp_all add: go_any_def)
  have "pack_target float c priv m ui compile t = Inr (bundle_name t, b)"
    using bin clone m(3) b(1,2) by (simp add: pack_target_def Let_def)
  then show ?thesis
    using b bin(1) eng entry unfolding good_bundle_def by auto
qed

lemma pack_all_good:
  "(\<And>t. t \<in> set ts \<Longrightarrow> \<exists>nb. pack t = Inr nb \<and> P t nb) \<Longrightarrow> \<exists>bs. pack_all pack ts = (bs, None) \<and> list_all2 P ts bs"
proof (induction ts)
  case (Cons t ts)
  then obtain nb bs where "pack t = Inr nb" "P t nb" "pack_all pack ts = (bs, None)" "list_all2 P ts bs"
    by (metis list.set_intros(1,2))
  then show ?case by simp
qed simp

text \<open>
  C15: a release that is built is complete. If \<open>plugin.json\<close> decodes and has an engine object, the
  page files are read and have distinct one-line names, the key is loaded or generated, the
  targets parse and each compiles to a non-empty binary, and signatures made with the key verify, then packing ends without a fatal
  error, with one bundle per target, in order: each is named after its target, passes the
  check, and holds that target's binary under the very name its signed manifest gives as the
  engine's entry. A signature already in \<open>plugin.json\<close> does not matter.
\<close>

theorem packing_succeeds:
  assumes "float_ok float" and "unmarshal_map float pluginJson = Some m" and "map_of m ''engine'' = Some (JObj e)"
    and "collect_files ui ''ui'' = Inr fs" and "distinct (map arcName fs)" and "list_all line_name (map arcName fs)"
    and "parse_targets cs = Inr ts" and "load_or_generate_key c seed keyFile = Inr (priv, new)" and "\<forall>t \<in> set ts. \<exists>bin. compile t = Inr bin \<and> bin \<noteq> []"
    and "\<And>msg. ed_verify c (ed_public c priv) msg (ed_sign c priv msg) \<and> ed_sign c priv msg \<noteq> []"
  shows "\<exists>bs. pack_main float c seed keyFile pluginJson ui compile cs = (bs, None) \<and>
    list_all2 (\<lambda>t (n, b). n = bundle_name t \<and> verify_bundle float c (archive b) (ed_public c priv) = Inr None \<and>
      (\<exists>bin p ms engine. compile t = Inr bin \<and> content_of (archive b) (entry_name t) = Some bin \<and>
        content_of (archive b) ''plugin.json'' = Some p \<and> unmarshal_map float p = Some ms \<and>
        map_of ms ''engine'' = Some (JObj engine) \<and> map_of engine ''entry'' = Some (JStr (entry_name t)))) ts bs"
proof -
  let ?m = "delete_member ''signature'' m"
  have "decoded float (JObj m)" using assms(1,2) by (rule unmarshal_map_decoded)
  then have d: "decoded float (JObj ?m)"
    using delete_member_ascending [of m "''signature''"] by (auto simp: list_all_iff set_delete_member)
  have sig: "''signature'' \<notin> fst ` set ?m" by (auto simp: set_delete_member)
  have eng: "map_of ?m ''engine'' = Some (JObj e)" using assms(3) by (simp add: map_of_delete_member)
  have "\<exists>nb. pack_target float c priv ?m fs compile t = Inr nb \<and> good_bundle float c (ed_public c priv) compile t nb"
    if t: "t \<in> set ts" for t
  proof -
    from assms(9) t obtain bin where "compile t = Inr bin" "bin \<noteq> []" by blast
    then show ?thesis
      by (rule pack_target_good [OF d sig eng ui_names [OF assms(4-6)] assms(10)])
  qed
  then have "\<exists>bs. pack_all (pack_target float c priv ?m fs compile) ts = (bs, None) \<and>
      list_all2 (good_bundle float c (ed_public c priv) compile) ts bs" by (rule pack_all_good)
  then obtain bs where
    "pack_all (pack_target float c priv ?m fs compile) ts = (bs, None)"
    "list_all2 (good_bundle float c (ed_public c priv) compile) ts bs" by (elim exE conjE) (rule that)
  then show ?thesis
    using assms(2,4,7,8) unfolding pack_main_def good_bundle_def by auto
qed

lemma list_all2_names: "list_all2 (\<lambda>t (n, b). n = f t \<and> Q t n b) ts bs \<Longrightarrow> map fst bs = map f ts"
  by (induction rule: list_all2_induct) auto

theorem packing_succeeds_witness:
  "\<exists>bs. pack_main demo_float demo_crypto (replicate 32 7) (Inl EOF) (json_print (JObj demo_manifest)) (Dir (Inr [(''vnc.html'', Leaf (Inr [60]))]))
      (\<lambda>_. Inr [1]) ''linux/amd64,windows/amd64'' = (bs, None) \<and> map fst bs = [''xqs-vnc-linux-amd64.xqsp'', ''xqs-vnc-windows-amd64.xqsp'']"
proof -
  let ?k = "replicate 32 (7 :: byte)"
  let ?pj = "json_print (JObj demo_manifest)" and ?ui = "Dir (Inr [(''vnc.html'', Leaf (Inr [60]))])"
  let ?ts = "[\<lparr>goos = ''linux'', goarch = ''amd64''\<rparr>, \<lparr>goos = ''windows'', goarch = ''amd64''\<rparr>]"
  have "json_parse ?pj = Some (JObj demo_manifest)" by (simp add: demo_manifest_def)
  then have u: "unmarshal_map demo_float ?pj = Some (rev demo_manifest)"
    by (simp add: unmarshal_map_def demo_manifest_def less_char_def)
  have e: "map_of (rev demo_manifest) ''engine'' = Some (JObj [(''entry'', JStr ''x'')])" by (simp add: demo_manifest_def)
  have f: "collect_files ?ui ''ui'' = Inr [\<lparr>arcName = ''ui/vnc.html'', contents = [60]\<rparr>]" by simp
  have t: "parse_targets ''linux/amd64,windows/amd64'' = Inr ?ts"
    by (simp add: parse_targets_def split_two_def trim_space_def ascii_space_def is_space_def)
  have k: "ed_verify demo_crypto (ed_public demo_crypto ?k) msg (ed_sign demo_crypto ?k msg) \<and>
      ed_sign demo_crypto ?k msg \<noteq> []" for msg by (simp add: demo_crypto_def)
  have n: "distinct (map arcName [\<lparr>arcName = ''ui/vnc.html'', contents = [60]\<rparr>])"
      "list_all line_name (map arcName [\<lparr>arcName = ''ui/vnc.html'', contents = [60]\<rparr>])"
    by (simp_all add: line_name_def)
  have lk: "load_or_generate_key demo_crypto ?k (Inl EOF) =
      Inr (?k, Some (bytes_of (b64_encode ?k @ [CHR 0x0A])))"
    by (simp add: load_or_generate_key_def demo_crypto_def)
  have b: "\<forall>t \<in> set ?ts. \<exists>bin. (\<lambda>_. Inr [1]) t = (Inr bin :: go_error + bytes) \<and> bin \<noteq> []" by simp
  from packing_succeeds [OF demo_float_ok u e f n t lk b k]
  have "\<exists>bs. pack_main demo_float demo_crypto ?k (Inl EOF) ?pj ?ui (\<lambda>_. Inr [1]) ''linux/amd64,windows/amd64'' = (bs, None) \<and>
      map fst bs = map bundle_name ?ts"
    by (elim exE conjE) (intro exI conjI, assumption, rule list_all2_names)
  then obtain bs where m: "pack_main demo_float demo_crypto ?k (Inl EOF) ?pj ?ui (\<lambda>_. Inr [1]) ''linux/amd64,windows/amd64'' = (bs, None)"
    "map fst bs = map bundle_name ?ts" by blast
  then show ?thesis
    using m by (simp add: bundle_name_def)
qed

end
