(* ===== verification/Plugin_Main.thy ===== *)
theory Plugin_Main
  imports Session_Handler
begin

text \<open>
  \<open>cmd/xqs-vnc\<close>: the composition root. The router of \<open>wiring.go\<close> over the lifecycle handler, the
  session handler and the RPC client, and the read loop of \<open>main.go\<close> that decodes frames from stdin
  and dispatches them. All of them write to one stream, the host of the session layer's world.
\<close>

section \<open>Wiring\<close>

definition embedEntryPath :: string where
  "embedEntryPath = ''ui/vnc.html''"

record 'h plugin =
  lifecycleHandler :: lifecycle
  rpcClient :: client
  sessionWorld :: "'h world"

definition build_plugin :: "'h \<Rightarrow> 'h plugin" where
  "build_plugin h =
     \<lparr>lifecycleHandler = new_lifecycle, rpcClient = new_client,
      sessionWorld = \<lparr>proc = \<lparr>objs = [], reg = Map.empty, host = h\<rparr>, sess = [], sessions = Map.empty, started = [],
        openedGates = {}, nextGate = 0\<rparr>\<rparr>"

definition lifecycleMethods :: "string list" where
  "lifecycleMethods = [MethodInitialize, MethodActivate, MethodPing, MethodShutdown, MethodDeactivate]"

definition sessionMethods :: "string list" where
  "sessionMethods =
     [MethodSessionConnect, MethodSessionDisconnect, MethodSessionEmbedViewport, MethodSessionEmbedActivity,
      MethodSessionTunnelBackpressure, MethodSessionTunnelResume]"

text \<open>The handlers on the shared state.\<close>

definition stdout_of :: "'h plugin \<Rightarrow> 'h" where
  "stdout_of s = host (proc (sessionWorld s))"

definition with_stdout :: "'h \<Rightarrow> 'h plugin \<Rightarrow> 'h plugin" where
  "with_stdout h s = s\<lparr>sessionWorld := (sessionWorld s)\<lparr>proc := (proc (sessionWorld s))\<lparr>host := h\<rparr>\<rparr>\<rparr>"

definition via_lifecycle :: "'h encoder \<Rightarrow> message \<Rightarrow> 'h plugin \<Rightarrow> (unit, 'h plugin) outcome" where
  "via_lifecycle enc m s =
     (case lifecycle_handle enc m (lifecycleHandler s, stdout_of s) of
        (res, (l, h)) \<Rightarrow> (res, with_stdout h (s\<lparr>lifecycleHandler := l\<rparr>)))"

definition via_session ::
    "'h encoder \<Rightarrow> (string \<Rightarrow> string option) \<Rightarrow> 'h environment \<Rightarrow> message \<Rightarrow> 'h plugin \<Rightarrow> (unit, 'h plugin) outcome" where
  "via_session enc float env m s =
     (case session_handle enc float env embedEntryPath m (sessionWorld s) of (res, w) \<Rightarrow> (res, s\<lparr>sessionWorld := w\<rparr>))"

definition errRouterMethodNotFound :: int where
  "errRouterMethodNotFound = -32601"

definition respond_method_not_found :: "'h encoder \<Rightarrow> json \<Rightarrow> 'h plugin \<Rightarrow> (unit, 'h plugin) outcome" where
  "respond_method_not_found enc i s =
     (case enc KindJSONRPC 0 (encode_response (error_response i errRouterMethodNotFound ''method not found'')) (stdout_of s) of
        (res, h) \<Rightarrow> (res, with_stdout h s))"

definition route_request ::
    "'h encoder \<Rightarrow> (string \<Rightarrow> string option) \<Rightarrow> 'h environment \<Rightarrow> request \<Rightarrow> 'h plugin \<Rightarrow> (unit, 'h plugin) outcome" where
  "route_request enc float env req s =
     (if ReqMethod req \<in> set lifecycleMethods then via_lifecycle enc (MessageRequest req) s
      else if ReqMethod req \<in> set sessionMethods then via_session enc float env (MessageRequest req) s
      else respond_method_not_found enc (ReqID req) s)"

definition route_notification ::
    "'h encoder \<Rightarrow> (string \<Rightarrow> string option) \<Rightarrow> 'h environment \<Rightarrow> notification \<Rightarrow> 'h plugin \<Rightarrow> (unit, 'h plugin) outcome" where
  "route_notification enc float env n s =
     (if NotMethod n \<in> set lifecycleMethods then via_lifecycle enc (MessageNotification n) s
      else if NotMethod n \<in> set sessionMethods then via_session enc float env (MessageNotification n) s
      else (Inr (), s))"

definition router_handle ::
    "'h encoder \<Rightarrow> (string \<Rightarrow> string option) \<Rightarrow> 'h environment \<Rightarrow> message \<Rightarrow> 'h plugin \<Rightarrow> (unit, 'h plugin) outcome" where
  "router_handle enc float env msg s =
     (case msg of
        MessageResponse resp \<Rightarrow> (Inr (), s\<lparr>rpcClient := snd (deliver resp (rpcClient s))\<rparr>)
      | MessageRequest req \<Rightarrow> route_request enc float env req s
      | MessageNotification n \<Rightarrow> route_notification enc float env n s)"

section \<open>The read loop\<close>

text \<open>
  \<open>run\<close>: the exit code and the state the process ends in. Stdin is a finite sequence of bytes with
  the error at its end; \<open>onChannel\<close> is the registry's handler (\<open>Transport_Registry\<close>).
\<close>

function run_loop ::
    "(string \<Rightarrow> string option) \<Rightarrow> 'h plugin dispatcher \<Rightarrow> stream \<Rightarrow> 'h plugin \<Rightarrow> nat \<times> 'h plugin" where
  "run_loop float disp s p =
     (case decode stream_read_full s of
        (Inl err, _) \<Rightarrow> (if errors_is err EOF then 0 else 1, p)
      | (Inr f, s) \<Rightarrow>
         (case dispatch float disp f p of
            (Inl _, p) \<Rightarrow> (1, p)
          | (Inr _, p) \<Rightarrow> if shutdown (lifecycleHandler p) then (0, p) else run_loop float disp s p))"
  by auto
termination
  by (relation "measure (\<lambda>(float, disp, s, p). length (avail s))") (auto dest!: frame_wire.dec_shrinks [OF sym])

declare run_loop.simps [simp del]

definition run ::
    "'h encoder \<Rightarrow> (string \<Rightarrow> string option) \<Rightarrow> 'h environment \<Rightarrow>
     (frame \<Rightarrow> 'h plugin \<Rightarrow> (unit, 'h plugin) outcome) \<Rightarrow> stream \<Rightarrow> 'h \<Rightarrow> nat \<times> 'h plugin" where
  "run enc float env onChannel s h =
     run_loop float \<lparr>RPC = Some (router_handle enc float env), Channel = Some onChannel\<rparr> s (build_plugin h)"

section \<open>The router answers every request\<close>

definition router_reply :: "(go_error \<Rightarrow> string) \<Rightarrow> request \<Rightarrow> response" where
  "router_reply txt req =
     (if ReqMethod req \<in> {''initialize'', ''activate'', ''ping'', ''shutdown'', ''deactivate''} then lifecycle_reply req
      else session_reply txt req)"

lemma method_sets:
  "set lifecycleMethods = {''initialize'', ''activate'', ''ping'', ''shutdown'', ''deactivate''}"
  "set sessionMethods = {''session.connect'', ''session.disconnect'', ''session.embedViewport'', ''session.embedActivity'',
     ''session.tunnelBackpressure'', ''session.tunnelResume''}"
  by (auto simp: lifecycleMethods_def sessionMethods_def MethodInitialize_def MethodActivate_def MethodPing_def
      MethodShutdown_def MethodDeactivate_def MethodSessionConnect_def MethodSessionDisconnect_def
      MethodSessionEmbedViewport_def MethodSessionEmbedActivity_def MethodSessionTunnelBackpressure_def
      MethodSessionTunnelResume_def)

lemma stdout_with_stdout [simp]:
  "stdout_of (with_stdout h s) = h" "lifecycleHandler (with_stdout h s) = lifecycleHandler s"
  "stdout_of (s\<lparr>lifecycleHandler := l\<rparr>) = stdout_of s" "stdout_of (s\<lparr>rpcClient := c\<rparr>) = stdout_of s"
  "stdout_of (s\<lparr>sessionWorld := w\<rparr>) = host (proc w)"
  by (simp_all add: stdout_of_def with_stdout_def)

text \<open>A request becomes one write: the encoded response.\<close>

lemma route_request_writes:
  "route_request enc float env req s = (res, s') \<Longrightarrow>
     enc KindJSONRPC 0 (encode_response (router_reply (Text env) req)) (stdout_of s) = (res, stdout_of s') \<and>
     lifecycleHandler s' =
       (if res = Inr () \<and> ReqMethod req = ''shutdown'' then (lifecycleHandler s)\<lparr>shutdown := True\<rparr> else lifecycleHandler s)"
proof (cases "ReqMethod req \<in> set lifecycleMethods")
  case True
  assume "route_request enc float env req s = (res, s')"
  with True show ?thesis
    by (auto simp: route_request_def via_lifecycle_def lifecycle_handle_def lifecycle_request_writes router_reply_def
        method_sets split: prod.splits sum.splits)
next
  case nolife: False
  assume r: "route_request enc float env req s = (res, s')"
  then have ns: "ReqMethod req \<noteq> ''shutdown''" using nolife by (auto simp: method_sets)
  show ?thesis
  proof (cases "ReqMethod req \<in> set sessionMethods")
    case True
    with nolife r obtain w' where "session_request enc (Text env) embedEntryPath req (sessionWorld s) = (res, w')"
      "s' = s\<lparr>sessionWorld := w'\<rparr>"
      by (auto simp: route_request_def via_session_def session_handle_def split: prod.splits)
    with session_request_writes [OF this(1)] nolife ns show ?thesis
      by (simp add: router_reply_def method_sets stdout_of_def)
  next
    case False
    with nolife have "router_reply (Text env) req = error_response (ReqID req) errRouterMethodNotFound ''method not found''"
      by (auto simp: router_reply_def method_sets session_reply_def errRouterMethodNotFound_def)
    with False nolife ns r show ?thesis
      by (auto simp: route_request_def respond_method_not_found_def split: prod.splits)
  qed
qed

lemma router_reply_shape:
  "RespID (router_reply txt req) = ReqID req"
  "(Result (router_reply txt req) = None) \<noteq> (Error (router_reply txt req) = None)"
  "wf_id float (ReqID req) \<Longrightarrow> wf_message float (MessageResponse (router_reply txt req))"
  unfolding router_reply_def by (simp_all only: lifecycle_reply_shape session_reply_shape split: if_splits) simp_all

lemma session_notification_always: "fst (session_handle enc float env entry (MessageNotification n) w) = Inr ()"
  by (simp add: session_handle_def)

lemma route_notification_Inr:
  "\<exists>s'. route_notification enc float env n s = (Inr (), s') \<and> lifecycleHandler s' = lifecycleHandler s"
  by (cases "sessionWorld s")
    (simp add: route_notification_def via_lifecycle_def via_session_def lifecycle_handle_def lifecycle_notification_def
      session_handle_def)

context frame_writer
begin

lemma router_server:
  assumes env: "env = plugin_environment enc call start clock pause txt"
  shows "rpc_server (router_handle enc float env) (\<lambda>s. responses_of float (frames (stdout_of s)))
    (\<lambda>s. ok (stdout_of s)) (wf_request_id float) (router_reply txt)"
proof
  have t: "Text env = txt" by (simp add: env plugin_environment_def)
  note sess = rpc_server.handle_Inr [OF session_server [OF env]]
  fix s m u s'
  assume ok: "ok (stdout_of s)" and wf: "wf_request_id float m" and h: "router_handle enc float env m s = (Inr u, s')"
  show "ok (stdout_of s') \<and> responses_of float (frames (stdout_of s')) =
      responses_of float (frames (stdout_of s)) @ map (router_reply txt) (requests_of [m])"
  proof (cases m)
    case (MessageRequest r)
    then have "route_request enc float env r s = (Inr u, s')" using h by (simp add: router_handle_def)
    from conjunct1 [OF route_request_writes [OF this]]
    have "enc KindJSONRPC 0 (encode_response (router_reply txt r)) (stdout_of s) = (Inr u, stdout_of s')"
      by (simp only: t)
    from enc_response_Inr [OF ok router_reply_shape(3) this, of float] wf MessageRequest
    show ?thesis by (simp add: requests_of_def List.map_filter_def)
  next
    case (MessageNotification n)
    then have n: "route_notification enc float env n s = (Inr u, s')" using h by (simp add: router_handle_def)
    show ?thesis
    proof (cases "NotMethod n \<in> set lifecycleMethods \<or> NotMethod n \<notin> set sessionMethods")
      case True
      then have "stdout_of s' = stdout_of s"
        using n by (auto simp: route_notification_def via_lifecycle_def lifecycle_handle_def lifecycle_notification_def
            split: if_splits)
      then show ?thesis using ok MessageNotification by (simp add: requests_of_def List.map_filter_def)
    next
      case False
      then obtain w' where w': "session_handle enc float env embedEntryPath m (sessionWorld s) = (Inr u, w')"
        "stdout_of s' = host (proc w')"
        using n MessageNotification by (auto simp: route_notification_def via_session_def split: if_splits prod.splits)
      from sess [OF _ wf w'(1)] ok w'(2) MessageNotification show ?thesis
        by (simp add: stdout_of_def requests_of_def List.map_filter_def)
    qed
  next
    case (MessageResponse resp)
    then show ?thesis using ok h by (auto simp: router_handle_def requests_of_def List.map_filter_def)
  qed
next
  fix s m e s'
  assume ok: "ok (stdout_of s)" and h: "router_handle enc float env m s = (Inl e, s')"
  then obtain r where "route_request enc float env r s = (Inl e, s')"
    using route_notification_Inr [of enc float env _ s] by (cases m) (auto simp: router_handle_def, metis Inl_Inr_False prod.inject)
  from enc_Inl [OF ok conjunct1 [OF route_request_writes [OF this]]]
  show "ok (stdout_of s') \<and> responses_of float (frames (stdout_of s')) = responses_of float (frames (stdout_of s))"
    by simp
qed (simp_all only: router_reply_shape, simp_all)

end

interpretation router_rpc: rpc_server
  "router_handle (encode conn_write) float (plugin_environment (encode conn_write) call start clock pause txt)"
  "\<lambda>s. responses_of float (parse_frames (sent (stdout_of s)))" "\<lambda>s. well_framed (sent (stdout_of s))"
  "wf_request_id float" "router_reply txt" for float call start clock pause "txt"
  by (rule stdout.router_server [OF refl])

section \<open>The process as a whole\<close>

text \<open>A stream to the host whose writes do not fail is a frame writer that stays one.\<close>

lemma encode_keeps_healthy: "encode conn_write k i p c = (res, c') \<Longrightarrow> healthy c \<Longrightarrow> healthy c'"
  by (auto simp: encode_def io_wrap_def healthy_def split: if_splits prod.splits sum.splits)

interpretation healthy_stdout: frame_writer "encode conn_write" "\<lambda>c. parse_frames (sent c)"
  "\<lambda>c. well_framed (sent c) \<and> healthy c"
  by unfold_locales (auto dest: encode_conn_Inr encode_conn_Inl encode_keeps_healthy)

interpretation healthy_router: rpc_server
  "router_handle (encode conn_write) float (plugin_environment (encode conn_write) call start clock pause txt)"
  "\<lambda>s. responses_of float (parse_frames (sent (stdout_of s)))"
  "\<lambda>s. well_framed (sent (stdout_of s)) \<and> healthy (stdout_of s)"
  "wf_request_id float" "router_reply txt" for float call start clock pause "txt"
  by (rule healthy_stdout.router_server [OF refl])

definition control_frame :: "message \<Rightarrow> frame" where
  "control_frame m = \<lparr>Kind = KindJSONRPC, ChannelID = 0, Payload = encode_message m\<rparr>"

definition is_shutdown :: "message \<Rightarrow> bool" where
  "is_shutdown m \<longleftrightarrow> (\<exists>r. request_of m = Some r \<and> ReqMethod r = ''shutdown'')"

text \<open>The messages the process handles: up to a shutdown request.\<close>

fun until_shutdown :: "message list \<Rightarrow> message list" where
  "until_shutdown [] = []"
| "until_shutdown (m # ms) = m # (if is_shutdown m then [] else until_shutdown ms)"

text \<open>A message the host may send: it decodes, and its response, if it is a request, fits a frame.\<close>

definition wf_input :: "(string \<Rightarrow> string option) \<Rightarrow> (go_error \<Rightarrow> string) \<Rightarrow> message \<Rightarrow> bool" where
  "wf_input float txt m \<longleftrightarrow> wf_message float m \<and> length (encode_message m) \<le> 262144 \<and>
     (\<forall>r. request_of m = Some r \<longrightarrow> length (encode_response (router_reply txt r)) \<le> MaxFrameLength)"

lemma wf_input_id: "wf_input float txt m \<Longrightarrow> wf_request_id float m"
  by (cases m) (auto simp: wf_input_def)

lemma dispatch_control:
  assumes "wf_input float txt m"
  shows "dispatch float \<lparr>RPC = Some f, Channel = x\<rparr> (control_frame m) p = f m p"
  using assms message_decodes [of float m]
  by (simp add: dispatch_def control_frame_def wf_input_def MaxJSONRPCFrameLength_def)

lemma control_frame_wf: "wf_input float txt m \<Longrightarrow> wf_frame (control_frame m)"
  by (simp add: wf_input_def wf_frame_def control_frame_def MaxFrameLength_def is_reserved_or_unknown_kind_def)

lemma encode_healthy:
  "healthy h \<Longrightarrow> length p \<le> MaxFrameLength \<Longrightarrow> \<exists>h'. encode conn_write KindJSONRPC i p h = (Inr (), h')"
  by (simp add: encode_def healthy_def is_reserved_or_unknown_kind_def)

lemma router_succeeds:
  assumes "wf_input float txt m" and "healthy (stdout_of s)" and "Text env = txt"
  shows "\<exists>s'. router_handle (encode conn_write) float env m s = (Inr (), s') \<and>
    (shutdown (lifecycleHandler s') \<longleftrightarrow> shutdown (lifecycleHandler s) \<or> is_shutdown m)"
proof (cases m)
  case (MessageRequest r)
  obtain res s' where r: "route_request (encode conn_write) float env r s = (res, s')"
    by (cases "route_request (encode conn_write) float env r s")
  from route_request_writes [OF r] assms MessageRequest encode_healthy [OF assms(2), of "encode_response (router_reply txt r)" 0]
  have "res = Inr ()" by (auto simp: wf_input_def)
  with r route_request_writes [OF r] MessageRequest show ?thesis
    by (simp add: router_handle_def is_shutdown_def)
next
  case (MessageNotification n)
  then show ?thesis
    using route_notification_Inr [of "encode conn_write" float env n s] by (auto simp: router_handle_def is_shutdown_def)
next
  case (MessageResponse resp)
  then show ?thesis by (simp add: router_handle_def is_shutdown_def)
qed

lemma run_loop_frame:
  assumes "wf_frame f" and "avail s = frame_bytes f @ r"
  shows "run_loop float disp s p =
    (case dispatch float disp f p of
       (Inl _, p) \<Rightarrow> (1, p)
     | (Inr _, p) \<Rightarrow> if shutdown (lifecycleHandler p) then (0, p) else run_loop float disp (s\<lparr>avail := r\<rparr>) p)"
  using decode_frame_bytes [OF assms] by (subst run_loop.simps) simp

lemma run_loop_answers:
  assumes env: "env = plugin_environment (encode conn_write) call start clock pause txt"
  shows "list_all (wf_input float txt) ms \<Longrightarrow> avail s = concat (map (\<lambda>m. frame_bytes (control_frame m)) ms) @ rest \<Longrightarrow>
    (\<exists>m \<in> set ms. is_shutdown m) \<or> rest = [] \<and> fin s = EOF \<Longrightarrow>
    well_framed (sent (stdout_of p)) \<Longrightarrow> healthy (stdout_of p) \<Longrightarrow> \<not> shutdown (lifecycleHandler p) \<Longrightarrow>
    \<exists>p'. run_loop float \<lparr>RPC = Some (router_handle (encode conn_write) float env), Channel = x\<rparr> s p = (0, p') \<and>
      responses_of float (parse_frames (sent (stdout_of p'))) =
        responses_of float (parse_frames (sent (stdout_of p))) @ map (router_reply txt) (requests_of (until_shutdown ms))"
proof (induction ms arbitrary: s p)
  case Nil
  then obtain s' where "decode stream_read_full s = (Inl EOF, s')" using decode_eof_iff [of s] by auto
  then show ?case by (subst run_loop.simps) (simp add: requests_of_def List.map_filter_def)
next
  case (Cons m ms)
  let ?disp = "\<lparr>RPC = Some (router_handle (encode conn_write) float env), Channel = x\<rparr>"
  let ?s = "s\<lparr>avail := concat (map (\<lambda>m. frame_bytes (control_frame m)) ms) @ rest\<rparr>"
  have wf: "wf_input float txt m" using Cons.prems(1) by simp
  have t: "Text env = txt" by (simp add: env plugin_environment_def)
  obtain q where q: "router_handle (encode conn_write) float env m p = (Inr (), q)"
    "shutdown (lifecycleHandler q) \<longleftrightarrow> is_shutdown m"
    using router_succeeds [OF wf Cons.prems(5) t] Cons.prems(6) by auto
  from healthy_router.handle_Inr [of p float m call start clock pause "txt" "()" q] q(1) wf_input_id [OF wf] Cons.prems(4,5)
  have ok: "well_framed (sent (stdout_of q))" "healthy (stdout_of q)" and
    rs: "responses_of float (parse_frames (sent (stdout_of q))) =
      responses_of float (parse_frames (sent (stdout_of p))) @ map (router_reply txt) (requests_of [m])"
    by (simp_all add: env)
  have loop: "run_loop float ?disp s p = (if is_shutdown m then (0, q) else run_loop float ?disp ?s q)"
    using run_loop_frame [OF control_frame_wf [OF wf], of s "concat (map (\<lambda>m. frame_bytes (control_frame m)) ms) @ rest" float ?disp p]
      Cons.prems(2) q by (simp add: dispatch_control [OF wf])
  show ?case
  proof (cases "is_shutdown m")
    case True
    then show ?thesis using loop rs by (simp add: requests_of_def List.map_filter_def)
  next
    case False
    with Cons.prems(1,3) Cons.IH [of ?s q] ok q(2) obtain p' where
      "run_loop float ?disp ?s q = (0, p')"
      "responses_of float (parse_frames (sent (stdout_of p'))) =
        responses_of float (parse_frames (sent (stdout_of q))) @ map (router_reply txt) (requests_of (until_shutdown ms))"
      by auto
    with loop rs False show ?thesis
      by (auto simp: requests_of_def List.map_filter_def split: option.splits)
  qed
qed

section \<open>Properties\<close>


definition demo_shutdown :: message where
  "demo_shutdown = MessageRequest \<lparr>ReqID = JStr ''1'', ReqMethod = ''shutdown'', ReqParams = None\<rparr>"

lemma demo_shutdown_input: "wf_input Some (\<lambda>_. []) demo_shutdown"
  using escape_length [of "''jsonrpc''"] escape_length [of "''2.0''"] escape_length [of "''id''"]
    escape_length [of "''1''"] escape_length [of "''result''"] escape_length [of "''method''"]
    escape_length [of "''shutdown''"] escape_length [of "''ok''"]
  by (simp add: wf_input_def demo_shutdown_def wf_id_def wf_raw_def encode_request_def request_json_def
      router_reply_def lifecycle_reply_def encode_response_def response_json_def ok_response_def json_print_def
      print_string_def MaxFrameLength_def protocolVersion_def opt_field_def join_def bytes_of_def)


end
