(* ===== verification/Spec2Isabelle.thy ===== *)
theory Spec2Isabelle
  imports Transport_Deadline Transport_Pumps Relay_Start Session_Tasks Pack_Bundle Plugin_Main Rfb_Handshake Relay_Readonly Relay_Coupling Transport_Registry Ipc_Dispatch Ipc_Client
begin

text \<open>
  A verification development of the VNC plugin \<open>xqs-vnc\<close>: a process that the host starts, that
  talks to it in frames on stdin and stdout, and that relays an RFB session between a VNC server
  and a browser tab over two channels the host provides.

  \<^bold>\<open>The program.\<close> \<open>cmd/xqs-vnc\<close> reads frames (\<open>internal/ipc/codec.go\<close>), hands JSON-RPC messages
  (\<open>rpc.go\<close>) through a dispatcher (\<open>dispatch.go\<close>) to a router over two handlers,
  \<open>internal/lifecycle\<close> and \<open>internal/session\<close>, and channel frames to the registry of
  \<open>internal/transport\<close>. A \<open>session.connect\<close> opens two channels by calls to the host
  (\<open>ipc/client.go\<close>, \<open>transport/open.go\<close>), registers the embed and starts the relay
  (\<open>internal/relay\<close>), which performs the RFB handshakes of \<open>internal/rfb\<close> and then pumps bytes
  in both directions under credit windows (\<open>transport/credit.go\<close>). A lost relay is reported
  to the session, which reconnects for a while or tears down. \<open>cmd/xqs-vnc-pack\<close> is the tool that
  builds, signs and checks the bundles the plugin is shipped in.

  \<^bold>\<open>Conventions.\<close> Go errors are values of \<open>go_error\<close> (\<open>Go_IO\<close>); a call that returns
  \<open>(T, error)\<close> returns a sum, with the state threaded (\<open>outcome\<close>). A panic is the left side
  of \<open>ran\<close>. Structs are records, shared structs live in stores named by references. Goroutines and
  mutexes are step relations whose steps are the critical sections. Byte counts that Go keeps in
  \<open>int\<close> are \<open>nat\<close> or \<open>int\<close> with \<open>int64\<close> where wrap-around could matter; wire fields are words.

  \<^bold>\<open>Theories.\<close>
  \<^item> \<open>Prelude\<close>: bytes, big-endian fields, decimal numbers and the list lemmas shared by all; the
    locales \<open>transition_invariant\<close> and \<open>guaranteed_steps\<close> of the step relations.
  \<^item> \<open>Go_IO\<close>: errors, sequencing, readers and writers. The locales \<open>reader_map\<close>, \<open>duplex_map\<close>,
    \<open>byte_source\<close>, \<open>duplex\<close> state what a parser relies on; they are interpreted on an in-memory
    connection, on a channel and on the two ends of the relay.
  \<^item> \<open>Rfb_Version\<close>, \<open>Rfb_Security\<close>, \<open>DES\<close>, \<open>Rfb_Auth\<close>, \<open>Rfb_Handshake\<close>, \<open>Rfb_ClientMsg\<close>
    (\<open>internal/rfb\<close>): when the handshakes succeed, exactly, and how they fail; the DES response
    decrypts to the challenge; client messages are read exactly.
  \<^item> \<open>Transport_Frame\<close>, \<open>Transport_Channel\<close> (\<open>channel.go\<close>, \<open>frame.go\<close>): a channel is a byte stream
    whatever the frames. \<open>Transport_Credit\<close>, \<open>Transport_Window\<close> (\<open>credit.go\<close>): the window is
    never exceeded, in any interleaving. \<open>Transport_Registry\<close>, \<open>Transport_Open\<close> (\<open>open.go\<close>): frames
    reach the right channel; opening and closing. \<open>Transport_Deadline\<close> (\<open>deadline.go\<close>).
    \<open>Transport_Pumps\<close>: \<open>Read\<close> and \<open>Write\<close> against their pump goroutines, with deadlines and \<open>Close\<close>
    at any point: no byte is lost, doubled or reordered, and what a failed \<open>Write\<close> may have sent.
  \<^item> \<open>Relay_Readonly\<close>, \<open>Relay_Coupling\<close>, \<open>Relay_Pump\<close>, \<open>Relay_Run\<close>, \<open>Relay_Start\<close>
    (\<open>internal/relay\<close>): the filter, the credit policy, the two directions on a pair of channels,
    their interleaving, and a relay from the first byte of the handshakes on.
  \<^item> \<open>Json\<close>, \<open>Json_Struct\<close>: the part of \<open>encoding/json\<close> the program uses. \<open>Ipc_Codec\<close>, \<open>Ipc_Rpc\<close>,
    \<open>Ipc_Dispatch\<close>, \<open>Ipc_Client\<close> (\<open>internal/ipc\<close>): frames and messages round-trip, responses reach
    the call that waits for them, secrets are redacted.
  \<^item> \<open>Rpc_Server\<close>, \<open>Lifecycle\<close>, \<open>Session_State\<close>, \<open>Session_Connect\<close>, \<open>Session_Gate\<close>,
    \<open>Session_Handler\<close>, \<open>Plugin_Main\<close>: the handlers behind the contract of an RPC server, the life
    of a session, the backpressure gate, and the process, which answers every request.
  \<^item> \<open>Session_World\<close>, \<open>Session_Tasks\<close>: the goroutines of all sessions, \<open>orchestrate\<close> and the
    reconnect loop among them, as tasks that run between each other's calls of the host; what
    holds of every session in every interleaving, and that a task left alone is the function of
    \<open>Session_Connect\<close>.
  \<^item> \<open>Text_Encoding\<close>, \<open>Pack\<close>, \<open>Pack_Manifest\<close>, \<open>Pack_Bundle\<close> (\<open>cmd/xqs-vnc-pack/main.go\<close>): hex and
    base64, the canonical form of a manifest, and that a bundle built is one that is accepted, with
    the files its signature covers. An object of \<open>map[string]any\<close> is the list of its members in
    some order; \<open>json.MarshalIndent\<close> is \<open>json_print_indent\<close>, read back by the same parser.

  \<^bold>\<open>Bounds.\<close> The JSON parser carries a fuel of twice the input length plus one, more than
  the nesting it can meet; the round-trip theorems show it is enough. Loops that end only with
  the peer (the filter, the pumps) are \<open>partial_function (option)\<close>, and proved to return. The
  reconnect loop counts its attempts; \<open>reconnect_terminates\<close> shows that 15 are enough for
  its window of 30 s with a back-off of 2 s.

  \<^bold>\<open>Parameters.\<close> What is not in the repository is an argument: the host behind an \<open>RPCCaller\<close>, the
  clock and the pause of the reconnect loop, the text of \<open>Error()\<close>, and the \<open>float64\<close> formatting
  of \<open>encoding/json\<close>. In the bundle tool SHA-256, Ed25519, the compiler and the page's directory are
  arguments; hypotheses are that hashes have 32 bytes, that signatures made with a key verify with
  its public half, that the canonical \<open>float64\<close> text of a number is stable (\<open>float_ok\<close>), and that
  file names fit on one line (\<open>line_name\<close>); a collision of SHA-256 is named where one would be
  needed. The relay behind the \<open>RelayStarter\<close> of a session is an argument of the
  session theories, as it is an interface there; \<open>relay_ok\<close> says that starting it works on the channels only.

  \<^bold>\<open>Findings.\<close> \<open>disconnect_while_connecting_lost\<close>: a disconnect handled while a session connects
  leaves it ready with open channels that nothing closes any more. \<open>lost_connection_reported\<close>:
  a disconnect during the back-off is reported as an error. \<open>writes_in_order\<close>: a chunk may be
  sent after \<open>Write\<close> has returned without counting it.

  \<^bold>\<open>Not modelled.\<close> The ZIP format, flags and console output of the bundle tool, and the
  overwriting of its key file; \<open>strings.TrimSpace\<close> beyond ASCII. The page under \<open>ui/\<close> (JavaScript, mostly vendored), log lines on stderr, the
  texts of errors beyond their format, Unicode case folding of JSON keys beyond ASCII, and the
  validity of UTF-8 in JSON strings (strings are bytes). \<open>json.RawMessage\<close> is its value, not its
  text. The timers of Go's runtime are steps that may happen at any time.
\<close>

end
